(* ===== verification/Prelude.thy ===== *)
theory Prelude
  imports Main "HOL-Library.Word" "HOL-Library.List_Lexorder"
begin

unbundle bit_operations_syntax

text \<open>
  Shared ground of the tinytorrent development: the Go data the program is written in.

  \<^item> A Go \<^verbatim>\<open>byte\<close> is an \<open>8 word\<close>; \<^verbatim>\<open>[]byte\<close> and \<^verbatim>\<open>string\<close> are both byte lists
    (\<open>bytes\<close>); a string literal of the source is written \<open>str ''...''\<close>.
  \<^item> A Go slice is a window on a backing array: \<open>goslice\<close> keeps the array from the start of
    the window up to its capacity and the length of the window. Indexing is checked against the
    length and re-slicing against the capacity, as the Go runtime does.
  \<^item> A function that returns an \<^verbatim>\<open>error\<close> or may panic returns an \<open>outcome\<close>. An error is kept
    as the format string of the place that made it, with the error it wraps; the values that
    a format string interpolates are not kept.
  \<^item> \<open>int64\<close> and \<^verbatim>\<open>int\<close> are HOL integers, with \<open>i64\<close> written at the operations that may
    wrap around; \<^verbatim>\<open>uint32\<close> and \<^verbatim>\<open>uint16\<close> are words.
  \<^item> The parts of \<^verbatim>\<open>strconv\<close>, \<^verbatim>\<open>fmt\<close>, \<^verbatim>\<open>encoding/binary\<close> and \<^verbatim>\<open>encoding/hex\<close> that
    the program calls.
\<close>

named_theorems outcome_simps \<open>how a successful outcome decomposes\<close>
named_theorems codec_simps \<open>laws of the fixed-width encodings\<close>

section \<open>Types and outcomes\<close>

type_synonym byte = "8 word"
type_synonym bytes = "8 word list"
type_synonym u16 = "16 word"
type_synonym u32 = "32 word"
type_synonym int64 = int

definition str :: "string \<Rightarrow> bytes" where
  "str s = map of_char s"

datatype error =
    ErrorMsg string
  | Wrapped string error
  | DecodingError string string "error option"
  | NumSyntax
  | NumRange
  | EndOfInput
  | IoEOF
  | UnexpectedEOF
  | DeadlineExceeded
  | NetClosed
  | NotExist
  | SysError string

datatype 'a outcome = Ok 'a | Err error | Panic string

fun obind :: "'a outcome \<Rightarrow> ('a \<Rightarrow> 'b outcome) \<Rightarrow> 'b outcome" where
  "obind (Ok x) f = f x"
| "obind (Err e) f = Err e"
| "obind (Panic s) f = Panic s"

fun oerr :: "(error \<Rightarrow> error) \<Rightarrow> 'a outcome \<Rightarrow> 'a outcome" where
  "oerr f (Ok x) = Ok x"
| "oerr f (Err e) = Err (f e)"
| "oerr f (Panic s) = Panic s"

fun is_panic :: "'a outcome \<Rightarrow> bool" where
  "is_panic (Panic s) = True"
| "is_panic _ = False"

definition nil_deref :: "'a outcome" where
  "nil_deref = Panic ''invalid memory address or nil pointer dereference''"

section \<open>Integers of fixed width\<close>

definition i64 :: "int \<Rightarrow> int64" where
  "i64 x = (x + 2 ^ 63) mod 2 ^ 64 - 2 ^ 63"

definition in_i64 :: "int \<Rightarrow> bool" where
  "in_i64 x \<longleftrightarrow> - (2 ^ 63) \<le> x \<and> x < 2 ^ 63"

section \<open>Slices\<close>

record goslice =
  arr :: bytes
  slen :: nat

definition of_bytes :: "bytes \<Rightarrow> goslice" where
  "of_bytes bs = \<lparr>arr = bs, slen = length bs\<rparr>"

definition slice_wf :: "goslice \<Rightarrow> bool" where
  "slice_wf s \<longleftrightarrow> slen s \<le> length (arr s) \<and> int (length (arr s)) < 2 ^ 63"

definition window :: "goslice \<Rightarrow> bytes" where
  "window s = take (slen s) (arr s)"

definition index_at :: "goslice \<Rightarrow> nat \<Rightarrow> byte outcome" where
  "index_at s i = (if i < slen s then Ok (arr s ! i) else Panic ''index out of range'')"

definition reslice :: "goslice \<Rightarrow> int \<Rightarrow> int \<Rightarrow> bytes outcome" where
  "reslice s lo hi =
     (if 0 \<le> lo \<and> lo \<le> hi \<and> hi \<le> int (length (arr s))
      then Ok (take (nat hi - nat lo) (drop (nat lo) (arr s)))
      else Panic ''slice bounds out of range'')"

section \<open>strconv and fmt: decimal numbers\<close>

definition digit :: "nat \<Rightarrow> byte" where
  "digit d = of_nat (48 + d)"

fun show_nat :: "nat \<Rightarrow> bytes" where
  "show_nat n = (if n < 10 then [digit n] else show_nat (n div 10) @ [digit (n mod 10)])"

declare show_nat.simps [simp del]

definition FormatInt :: "int64 \<Rightarrow> bytes" where
  "FormatInt i = (if i < 0 then 45 # show_nat (nat (- i)) else show_nat (nat i))"

definition is_digit :: "byte \<Rightarrow> bool" where
  "is_digit b \<longleftrightarrow> 48 \<le> b \<and> b \<le> 57"

definition digit_val :: "byte \<Rightarrow> nat" where
  "digit_val b = unat b - 48"

text \<open>
  The digit loop of \<^verbatim>\<open>strconv.ParseUint\<close> in base 10 with 64 bits: a byte that is no digit ends
  it with a syntax error, a value over \<open>2 ^ 64 - 1\<close> with a range error, whichever comes first.
\<close>

fun parse_digits :: "nat \<Rightarrow> bytes \<Rightarrow> error + nat" where
  "parse_digits n [] = Inr n"
| "parse_digits n (b # bs) =
     (if \<not> is_digit b then Inl NumSyntax
      else if 2 ^ 64 \<le> n * 10 + digit_val b then Inl NumRange
      else parse_digits (n * 10 + digit_val b) bs)"

definition ParseUint :: "bytes \<Rightarrow> error + nat" where
  "ParseUint s = (if s = [] then Inl NumSyntax else parse_digits 0 s)"

definition parse_signed :: "bool \<Rightarrow> bytes \<Rightarrow> int64 outcome" where
  "parse_signed neg s =
     (case ParseUint s of
        Inl e \<Rightarrow> Err e
      | Inr un \<Rightarrow>
          if \<not> neg \<and> 2 ^ 63 \<le> un then Err NumRange
          else if neg \<and> 2 ^ 63 < un then Err NumRange
          else Ok (if neg then - int un else int un))"

definition ParseInt :: "bytes \<Rightarrow> int64 outcome" where
  "ParseInt s =
     (case s of
        [] \<Rightarrow> Err NumSyntax
      | c # cs \<Rightarrow>
          if c = 43 then parse_signed False cs
          else if c = 45 then parse_signed True cs
          else parse_signed False s)"

section \<open>encoding/binary: big-endian integers\<close>

definition PutUint32 :: "u32 \<Rightarrow> bytes" where
  "PutUint32 v =
     [ucast (drop_bit 24 v), ucast (drop_bit 16 v), ucast (drop_bit 8 v), ucast v]"

definition Uint32 :: "bytes \<Rightarrow> u32" where
  "Uint32 b =
     ucast (b ! 3) OR push_bit 8 (ucast (b ! 2)) OR push_bit 16 (ucast (b ! 1))
       OR push_bit 24 (ucast (b ! 0))"

definition PutUint16 :: "u16 \<Rightarrow> bytes" where
  "PutUint16 v = [ucast (drop_bit 8 v), ucast v]"

definition Uint16 :: "bytes \<Rightarrow> u16" where
  "Uint16 b = ucast (b ! 1) OR push_bit 8 (ucast (b ! 0))"

section \<open>encoding/hex\<close>

definition hextable :: "nat \<Rightarrow> byte" where
  "hextable n = (if n < 10 then of_nat (48 + n) else of_nat (87 + n))"

definition fromHexChar :: "byte \<Rightarrow> nat option" where
  "fromHexChar c =
     (if 48 \<le> c \<and> c \<le> 57 then Some (unat c - 48)
      else if 97 \<le> c \<and> c \<le> 102 then Some (unat c - 87)
      else if 65 \<le> c \<and> c \<le> 70 then Some (unat c - 55)
      else None)"

fun EncodeToString :: "bytes \<Rightarrow> bytes" where
  "EncodeToString [] = []"
| "EncodeToString (b # bs) =
     hextable (unat b div 16) # hextable (unat b mod 16) # EncodeToString bs"

fun DecodeString :: "bytes \<Rightarrow> bytes outcome" where
  "DecodeString [] = Ok []"
| "DecodeString [c] = Err (ErrorMsg ''encoding/hex: odd length hex string'')"
| "DecodeString (a # b # s) =
     (case (fromHexChar a, fromHexChar b) of
        (Some x, Some y) \<Rightarrow>
          obind (DecodeString s) (\<lambda>r. Ok (of_nat (x * 16 + y) # r))
      | _ \<Rightarrow> Err (ErrorMsg ''encoding/hex: invalid byte''))"

section \<open>Lemmas on lists\<close>

lemma str_inject [simp]: "str s = str t \<longleftrightarrow> s = t"
proof
  have inj: "inj (of_char :: char \<Rightarrow> byte)"
  proof (rule injI)
    fix c d :: char
    assume "(of_char c :: byte) = of_char d"
    then have "unat (of_nat (of_char c) :: byte) = unat (of_nat (of_char d) :: byte)" 
      by (simp only: of_nat_of_char)
    then have "(of_char c :: nat) = of_char d"
      by (simp only: unat_of_nat) simp
    then show "c = d" by simp
  qed
  assume "str s = str t"
  then show "s = t" using inj by (simp add: str_def inj_map_eq_map)
qed simp

lemma concat_chunks:
  "k * n \<le> length xs \<Longrightarrow> concat (map (\<lambda>i. take k (drop (k * i) xs)) [0..<n]) = take (k * n) xs"
proof (induction n)
  case (Suc n)
  then show ?case using take_add [of "k * n" k xs] by (simp add: add.commute)
qed simp

section \<open>Lemmas on outcomes\<close>

lemma obind_cong [fundef_cong]:
  "m = m' \<Longrightarrow> (\<And>x. m' = Ok x \<Longrightarrow> f x = f' x) \<Longrightarrow> obind m f = obind m' f'"
  by (cases m') auto

lemma oerr_cong [fundef_cong]: "m = m' \<Longrightarrow> f = f' \<Longrightarrow> oerr f m = oerr f' m'"
  by simp

lemma obind_eq_Ok [outcome_simps]:
  "obind m f = Ok y \<longleftrightarrow> (\<exists>x. m = Ok x \<and> f x = Ok y)"
  by (cases m) auto

lemma obind_eq_Err [outcome_simps]:
  "obind m f = Err e \<longleftrightarrow> m = Err e \<or> (\<exists>x. m = Ok x \<and> f x = Err e)"
  by (cases m) auto

lemma oerr_eq_Ok [outcome_simps]: "oerr g m = Ok y \<longleftrightarrow> m = Ok y"
  by (cases m) auto

lemma oerr_eq_Panic [outcome_simps]: "oerr g m = Panic s \<longleftrightarrow> m = Panic s"
  by (cases m) auto

lemma obind_assoc: "obind (obind m f) g = obind m (\<lambda>x. obind (f x) g)"
  by (cases m) auto

lemma obind_eq_Panic [outcome_simps]:
  "obind m f = Panic s \<longleftrightarrow> m = Panic s \<or> (\<exists>x. m = Ok x \<and> f x = Panic s)"
  by (cases m) auto

section \<open>Lemmas on slices\<close>

lemma index_at_eq_Ok [outcome_simps]:
  "index_at s i = Ok b \<longleftrightarrow> i < slen s \<and> arr s ! i = b"
  by (auto simp: index_at_def)

lemma reslice_eq_Ok [outcome_simps]:
  "reslice s lo hi = Ok bs \<longleftrightarrow>
     0 \<le> lo \<and> lo \<le> hi \<and> hi \<le> int (length (arr s))
       \<and> bs = take (nat hi - nat lo) (drop (nat lo) (arr s))"
  by (auto simp: reslice_def)

lemma length_window: "slice_wf s \<Longrightarrow> length (window s) = slen s"
  by (simp add: slice_wf_def window_def)

lemma window_of_bytes [simp]: "window (of_bytes bs) = bs"
  by (simp add: window_def of_bytes_def)

lemma slice_wf_of_bytes: "int (length bs) < 2 ^ 63 \<Longrightarrow> slice_wf (of_bytes bs)"
  by (simp add: slice_wf_def of_bytes_def)

section \<open>Lemmas on fixed-width integers\<close>

lemma i64_id [simp]: "in_i64 x \<Longrightarrow> i64 x = x"
  by (simp add: i64_def in_i64_def)

lemma in_i64_i64 [simp]: "in_i64 (i64 x)"
  by (simp add: i64_def in_i64_def)

section \<open>Lemmas on decimal numbers\<close>

lemma unat_digit: "d < 10 \<Longrightarrow> unat (digit d) = 48 + d"
  by (simp only: digit_def unat_of_nat) simp

lemma is_digit_iff: "is_digit b \<longleftrightarrow> 48 \<le> unat b \<and> unat b \<le> 57"
  by (simp add: is_digit_def word_le_nat_alt)

lemma is_digit_digit [simp]: "d < 10 \<Longrightarrow> is_digit (digit d)"
  by (simp add: is_digit_iff unat_digit)

lemma digit_val_digit [simp]: "d < 10 \<Longrightarrow> digit_val (digit d) = d"
  by (simp add: digit_val_def unat_digit)

lemma show_nat_not_Nil [simp]: "show_nat n \<noteq> []"
  by (subst show_nat.simps) simp

lemma show_nat_digits: "b \<in> set (show_nat n) \<Longrightarrow> is_digit b"
proof (induction n rule: show_nat.induct)
  case (1 n)
  then show ?case by (auto simp: show_nat.simps [of n] split: if_splits)
qed

lemma parse_digits_append:
  "parse_digits n (xs @ ys) =
     (case parse_digits n xs of Inl e \<Rightarrow> Inl e | Inr m \<Rightarrow> parse_digits m ys)"
  by (induction xs arbitrary: n) auto

lemma parse_digits_show_nat: "n < 2 ^ 64 \<Longrightarrow> parse_digits 0 (show_nat n) = Inr n"
proof (induction n rule: show_nat.induct)
  case (1 n)
  show ?case
  proof (cases "n < 10")
    case True
    then show ?thesis by (simp add: show_nat.simps [of n])
  next
    case False
    with 1 have "parse_digits 0 (show_nat (n div 10)) = Inr (n div 10)" by simp
    with False 1(2) show ?thesis
      by (simp add: show_nat.simps [of n] parse_digits_append)
  qed
qed

lemma ParseUint_show_nat: "n < 2 ^ 64 \<Longrightarrow> ParseUint (show_nat n) = Inr n"
  by (simp add: ParseUint_def parse_digits_show_nat)

lemma ParseInt_digits:
  assumes "c # cs = show_nat n"
  shows "c \<noteq> 43" and "c \<noteq> 45"
proof -
  have "is_digit c" using show_nat_digits [of c n] assms [symmetric] by simp
  then show "c \<noteq> 43" and "c \<noteq> 45" by (auto simp: is_digit_def)
qed

lemma ParseInt_show_nat:
  assumes "n < 2 ^ 63"
  shows "ParseInt (show_nat n) = Ok (int n)"
proof (cases "show_nat n")
  case Nil
  then show ?thesis by simp
next
  case (Cons c cs)
  with ParseInt_digits [of c cs n] have "ParseInt (show_nat n) = parse_signed False (show_nat n)"
    by (simp add: ParseInt_def)
  with assms show ?thesis by (simp add: parse_signed_def ParseUint_show_nat)
qed

lemma ParseInt_FormatInt: "in_i64 i \<Longrightarrow> ParseInt (FormatInt i) = Ok i"
proof (cases "i < 0")
  case True
  moreover assume "in_i64 i"
  ultimately have "nat (- i) < 2 ^ 64" and "nat (- i) \<le> 2 ^ 63"
    by (auto simp: in_i64_def)
  with True show ?thesis
    by (simp add: FormatInt_def ParseInt_def parse_signed_def ParseUint_show_nat)
next
  case False
  moreover assume "in_i64 i"
  ultimately have "nat i < 2 ^ 63" by (auto simp: in_i64_def)
  with False show ?thesis by (simp add: FormatInt_def ParseInt_show_nat)
qed

lemma parse_signed_range: "parse_signed neg s = Ok i \<Longrightarrow> in_i64 i"
  by (auto simp: parse_signed_def in_i64_def split: sum.splits if_splits)

lemma ParseInt_range: "ParseInt s = Ok i \<Longrightarrow> in_i64 i"
  by (auto simp: ParseInt_def dest: parse_signed_range split: list.splits if_splits)

lemma ParseInt_no_panic [simp]: "ParseInt s \<noteq> Panic m"
  by (auto simp: ParseInt_def parse_signed_def split: list.splits sum.splits)

section \<open>Lemmas on big-endian and hex encodings\<close>

lemma length_PutUint32 [simp, codec_simps]: "length (PutUint32 v) = 4"
  by (simp add: PutUint32_def)

lemma length_PutUint16 [simp, codec_simps]: "length (PutUint16 v) = 2"
  by (simp add: PutUint16_def)

lemma Uint32_PutUint32 [codec_simps]: "Uint32 (PutUint32 v) = v"
proof (rule bit_word_eqI)
  fix n
  assume "n < LENGTH(32)"
  then have "n < 8 \<or> 8 \<le> n \<and> n < 16 \<or> 16 \<le> n \<and> n < 24 \<or> 24 \<le> n \<and> n < 32" by auto
  then show "bit (Uint32 (PutUint32 v)) n \<longleftrightarrow> bit v n"
    by (auto simp: Uint32_def PutUint32_def bit_or_iff bit_push_bit_iff bit_ucast_iff
        bit_drop_bit_eq)
qed

lemma Uint16_PutUint16 [codec_simps]: "Uint16 (PutUint16 v) = v"
  by (rule bit_word_eqI)
     (auto simp: Uint16_def PutUint16_def bit_or_iff bit_push_bit_iff bit_ucast_iff bit_drop_bit_eq)

lemma Uint32_append [codec_simps]: "4 \<le> length xs \<Longrightarrow> Uint32 (xs @ ys) = Uint32 xs"
  by (auto simp: Uint32_def nth_append)

lemma fromHexChar_hextable: "n < 16 \<Longrightarrow> fromHexChar (hextable n) = Some n"
proof -
  assume n: "n < 16"
  then have "unat (hextable n) = (if n < 10 then 48 + n else 87 + n)"
    by (simp only: hextable_def unat_of_nat split: if_split) simp
  with n show ?thesis by (auto simp: fromHexChar_def word_le_nat_alt)
qed

lemma DecodeString_EncodeToString [codec_simps]: "DecodeString (EncodeToString bs) = Ok bs"
proof (induction bs)
  case Nil
  then show ?case by simp
next
  case (Cons b bs)
  have "unat b < 256" using unsigned_less [of b] by simp
  then have "unat b div 16 < 16" by simp
  with Cons show ?case
    by (simp add: fromHexChar_hextable div_mult_mod_eq)
qed

lemma length_EncodeToString: "length (EncodeToString bs) = 2 * length bs"
  by (induction bs) auto

lemma EncodeToString_eq_Nil [simp]: "EncodeToString s = [] \<longleftrightarrow> s = []"
  by (cases s) simp_all

lemma EncodeToString_inject [simp]: "EncodeToString s = EncodeToString t \<longleftrightarrow> s = t"
  by (metis DecodeString_EncodeToString outcome.inject(1))

lemma DecodeString_no_panic [simp]: "DecodeString s \<noteq> Panic p"
  by (induction s rule: DecodeString.induct) (auto simp: outcome_simps split: option.splits)

end
