(* ===== verification/Dict.thy ===== *)
theory Dict
  imports Prelude
begin

text \<open>
  Go's \<^verbatim>\<open>map[string]T\<close>. A Go map is an unordered finite map; here it is the association list
  sorted strictly by key (bytewise, the order of Go's string comparison), so that equal maps are
  equal lists. The locale \<open>go_map\<close> states what the program relies on (lookup after a store, the
  key list, extensionality) and derives from it that a map is rebuilt by storing its entries again,
  whatever the order; \<open>string_map\<close> is its interpretation on the sorted association lists.
\<close>

type_synonym 'v dict = "(bytes \<times> 'v) list"

fun dict_get :: "'v dict \<Rightarrow> bytes \<Rightarrow> 'v option" where
  "dict_get [] k = None"
| "dict_get ((k', v) # d) k = (if k = k' then Some v else dict_get d k)"

fun dict_set :: "bytes \<Rightarrow> 'v \<Rightarrow> 'v dict \<Rightarrow> 'v dict" where
  "dict_set k v [] = [(k, v)]"
| "dict_set k v ((k', v') # d) =
     (if k < k' then (k, v) # (k', v') # d
      else if k = k' then (k, v) # d
      else (k', v') # dict_set k v d)"

definition dict_del :: "bytes \<Rightarrow> 'v dict \<Rightarrow> 'v dict" where
  "dict_del k d = filter (\<lambda>kv. fst kv \<noteq> k) d"

definition dict_keys :: "'v dict \<Rightarrow> bytes list" where
  "dict_keys d = map fst d"

definition dict_wf :: "'v dict \<Rightarrow> bool" where
  "dict_wf d \<longleftrightarrow> sorted_wrt (<) (map fst d)"

section \<open>The interface\<close>

locale go_map =
  fixes empty :: "'m"
    and get :: "'m \<Rightarrow> 'k \<Rightarrow> 'v option"
    and set_key :: "'k \<Rightarrow> 'v \<Rightarrow> 'm \<Rightarrow> 'm"
    and keys :: "'m \<Rightarrow> 'k list"
    and inv :: "'m \<Rightarrow> bool"
  assumes inv_empty: "inv empty"
    and inv_set: "inv m \<Longrightarrow> inv (set_key k v m)"
    and get_empty: "get empty k = None"
    and get_set: "inv m \<Longrightarrow> get (set_key k v m) k' = (if k' = k then Some v else get m k')"
    and keys_dom: "inv m \<Longrightarrow> set (keys m) = {k. get m k \<noteq> None}"
    and keys_distinct: "inv m \<Longrightarrow> distinct (keys m)"
    and ext_eq: "inv m \<Longrightarrow> inv m' \<Longrightarrow> (\<And>k. get m k = get m' k) \<Longrightarrow> m = m'"
begin

lemma inv_fold: "inv m \<Longrightarrow> inv (fold (\<lambda>(k, v). set_key k v) kvs m)"
  by (induction kvs arbitrary: m) (auto simp: inv_set)

lemma get_fold:
  "inv m \<Longrightarrow> distinct (map fst kvs) \<Longrightarrow>
     get (fold (\<lambda>(k, v). set_key k v) kvs m) k =
       (case map_of kvs k of None \<Rightarrow> get m k | Some v \<Rightarrow> Some v)"
proof (induction kvs arbitrary: m)
  case Nil
  then show ?case by simp
next
  case (Cons kv kvs)
  obtain k' v where kv: "kv = (k', v)" by force
  have "map_of kvs k' = None" using Cons.prems(2) kv by (simp add: map_of_eq_None_iff)
  with Cons kv show ?case by (simp add: inv_set get_set split: option.split)
qed

lemma set_commute:
  "inv m \<Longrightarrow> k \<noteq> k' \<Longrightarrow> set_key k v (set_key k' v' m) = set_key k' v' (set_key k v m)"
  by (rule ext_eq) (auto simp: inv_set get_set)

lemma rebuild:
  assumes "inv m" and "distinct (map fst kvs)" and "\<And>k. map_of kvs k = get m k"
  shows "fold (\<lambda>(k, v). set_key k v) kvs empty = m"
  by (rule ext_eq) (use assms in \<open>auto simp: inv_fold inv_empty get_fold get_empty split: option.split\<close>)

end

section \<open>The interpretation on sorted association lists\<close>

lemma dict_get_map_of: "dict_get d k = map_of d k"
  by (induction d) auto

lemma fst_set_dict_set: "fst ` set (dict_set k v d) = insert k (fst ` set d)"
  by (induction k v d rule: dict_set.induct) auto

lemma dict_wf_Nil [simp]: "dict_wf []"
  by (simp add: dict_wf_def)

lemma dict_wf_Cons: "dict_wf ((k, v) # d) \<longleftrightarrow> (\<forall>k' \<in> fst ` set d. k < k') \<and> dict_wf d"
  by (simp add: dict_wf_def)

lemma dict_wf_set: "dict_wf d \<Longrightarrow> dict_wf (dict_set k v d)"
  by (induction k v d rule: dict_set.induct) (auto simp: dict_wf_Cons fst_set_dict_set)

lemma dict_get_notin: "k \<notin> fst ` set d \<Longrightarrow> dict_get d k = None"
  by (induction d) auto

lemma dict_get_set: "dict_get (dict_set k v d) k' = (if k' = k then Some v else dict_get d k')"
  by (induction k v d rule: dict_set.induct) auto

lemma dict_get_del: "dict_get (dict_del k d) k' = (if k' = k then None else dict_get d k')"
  by (induction d) (auto simp: dict_del_def)

lemma set_dict_set: "set (dict_set k v d) \<subseteq> insert (k, v) (set d)"
  by (induction k v d rule: dict_set.induct) auto

lemma dict_wf_distinct: "dict_wf d \<Longrightarrow> distinct (map fst d)"
  unfolding dict_wf_def using strict_sorted_iff by blast

lemma dict_wf_sorted: "dict_wf d \<Longrightarrow> sorted (map fst d)"
  unfolding dict_wf_def using strict_sorted_iff by blast

lemma dict_get_SomeD: "dict_get d k = Some v \<Longrightarrow> (k, v) \<in> set d"
  by (induction d) (auto split: if_splits)

lemma dict_set_iff_get: "dict_wf d \<Longrightarrow> (k, v) \<in> set d \<longleftrightarrow> dict_get d k = Some v"
  by (simp add: dict_get_map_of dict_wf_distinct)

lemma dict_ext:
  assumes "dict_wf d" and "dict_wf d'" and eq: "\<And>k. dict_get d k = dict_get d' k"
  shows "d = d'"
proof (rule map_sorted_distinct_set_unique [of fst])
  show set_eq: "set d = set d'"
    using assms by (auto simp: dict_set_iff_get)
  show "inj_on fst (set d \<union> set d')"
    using assms(1) by (auto simp: set_eq [symmetric] dict_set_iff_get inj_on_def)
  show "sorted (map fst d)" "distinct (map fst d)" "sorted (map fst d')" "distinct (map fst d')"
    using assms by (auto simp: dict_wf_sorted dict_wf_distinct)
qed

interpretation string_map: go_map "[]" dict_get dict_set dict_keys dict_wf
proof
  fix m :: "(bytes \<times> 'a) list" and k
  show "set (dict_keys m) = {k. dict_get m k \<noteq> None}"
    by (auto simp: dict_keys_def dict_get_map_of map_of_eq_None_iff image_iff)
qed (auto simp: dict_wf_set dict_get_set dict_wf_distinct dict_keys_def intro: dict_ext)

lemma sort_dict_keys [simp]: "dict_wf d \<Longrightarrow> sort (dict_keys d) = dict_keys d"
  by (simp add: dict_keys_def sorted_sort_id dict_wf_sorted)

lemma map_snd_dict_get:
  assumes "dict_wf d"
  shows "map (\<lambda>k. f k (the (dict_get d k))) (dict_keys d) = map (\<lambda>(k, v). f k v) d"
  using dict_wf_distinct [OF assms] by (auto simp: dict_keys_def dict_get_map_of)

lemma dict_wf_map_values: "dict_wf (map (\<lambda>(k, v). (k, f v)) d) \<longleftrightarrow> dict_wf d"
  by (simp add: dict_wf_def case_prod_beta comp_def)

end
