(* ===== verification/Bencoding.thy ===== *)
theory Bencoding
  imports Dict
begin

text \<open>
  Package \<^verbatim>\<open>bencoding\<close>: values, their literals and the decoders.

  \<^item> \<open>Value\<close> is the interface \<^verbatim>\<open>Value\<close> with its four implementations; \<open>Literal\<close> and
    \<open>value_type\<close> are its methods.
  \<^item> The decoders read a Go slice at a position and return the decoded value with the position of
    its last byte. \<open>Decode\<close> is the dynamic dispatch of \<^verbatim>\<open>Decoder.Decode\<close> on the receiver,
    \<open>List_loop\<close> and \<open>Dict_loop\<close> are the loops of \<^verbatim>\<open>List.Decode\<close> and
    \<^verbatim>\<open>Dictionary.Decode\<close>. The recursion is not bounded by fuel: the termination proof shows that
    every decoder ends at or after the position it starts from.
  \<^item> \<open>DecodeAll\<close> is the package's entry point \<^verbatim>\<open>Decode\<close>, which trims white space first.

  Shown: decoding the literal of a well-formed value returns that value and the end of the
  literal, wherever the literal stands and whatever the slice holds after it; every decoded value is
  well-formed; the decoders only move forward.
\<close>

section \<open>Values\<close>

datatype Value =
    ByteString bytes
  | Integer int64
  | VList "Value list"
  | Dictionary "(bytes \<times> Value) list"

datatype Type = ByteStringType | IntegerType | ListType | DictionaryType

fun value_type :: "Value \<Rightarrow> Type" where
  "value_type (ByteString s) = ByteStringType"
| "value_type (Integer i) = IntegerType"
| "value_type (VList l) = ListType"
| "value_type (Dictionary d) = DictionaryType"

abbreviation "valueDelimiter \<equiv> (58 :: byte)"
abbreviation "integerBegin \<equiv> (105 :: byte)"
abbreviation "listBegin \<equiv> (108 :: byte)"
abbreviation "dictionaryBegin \<equiv> (100 :: byte)"
abbreviation "valueEnd \<equiv> (101 :: byte)"

definition string_literal :: "bytes \<Rightarrow> bytes" where
  "string_literal s = show_nat (length s) @ valueDelimiter # s"

definition dict_literal :: "(bytes \<times> bytes) list \<Rightarrow> bytes" where
  "dict_literal m =
     concat (map (\<lambda>k. string_literal k @ the (dict_get m k)) (sort (dict_keys m)))"

fun Literal :: "Value \<Rightarrow> bytes" where
  "Literal (ByteString s) = string_literal s"
| "Literal (Integer i) = integerBegin # FormatInt i @ [valueEnd]"
| "Literal (VList l) = listBegin # concat (map Literal l) @ [valueEnd]"
| "Literal (Dictionary d) =
     dictionaryBegin # dict_literal (map (\<lambda>(k, v). (k, Literal v)) d) @ [valueEnd]"

section \<open>Decoders\<close>

function advanceUntil :: "goslice \<Rightarrow> nat \<Rightarrow> byte \<Rightarrow> nat outcome" where
  "advanceUntil src cur tok =
     (if cur < slen src \<and> arr src ! cur \<noteq> tok then advanceUntil src (Suc cur) tok
      else if cur = slen src then Err EndOfInput
      else Ok cur)"
  by pat_completeness auto
termination
  by (relation "measure (\<lambda>(src, cur, tok). slen src - cur)") auto

declare advanceUntil.simps [simp del]

definition nextValue :: "byte \<Rightarrow> Value option" where
  "nextValue tok =
     (if tok = listBegin then Some (VList [])
      else if tok = dictionaryBegin then Some (Dictionary [])
      else if tok = integerBegin then Some (Integer 0)
      else if is_digit tok then Some (ByteString [])
      else None)"

definition ByteString_Decode :: "goslice \<Rightarrow> nat \<Rightarrow> (bytes \<times> nat) outcome" where
  "ByteString_Decode src position =
     obind (oerr (\<lambda>_. DecodingError ''bencoding.ByteString''
              ''expected separator ':' while parsing string, but did not found'' None)
              (advanceUntil src position valueDelimiter)) (\<lambda>delim.
     obind (reslice src (int position) (int delim)) (\<lambda>digits.
     obind (oerr (\<lambda>e. DecodingError ''bencoding.ByteString''
              ''failed to decode length of the string: '' (Some e)) (ParseInt digits)) (\<lambda>l.
     let start = int delim + 1; stop = i64 (start + l) in
     obind (reslice src start stop) (\<lambda>s. Ok (s, nat (stop - 1))))))"

definition Integer_Decode :: "goslice \<Rightarrow> nat \<Rightarrow> (int64 \<times> nat) outcome" where
  "Integer_Decode src position =
     obind (index_at src position) (\<lambda>c.
     if c \<noteq> integerBegin
     then Err (DecodingError ''bencoding.Integer'' ''failed to parse integer, 'i' not found'' None)
     else
       let start = position + 1 in
       obind (oerr (\<lambda>_. DecodingError ''bencoding.Integer''
                ''failed to parse integer, 'e' not found'' None)
                (advanceUntil src start valueEnd)) (\<lambda>stop.
       if 1 < int stop - int start \<and> arr src ! start = 48
       then Err (DecodingError ''bencoding.Integer''
              ''invalid integer, cannot have an integer format prefixed with 0 (i0xxxxx...e)'' None)
       else
         obind (reslice src (int start) (int stop)) (\<lambda>text.
         obind (oerr (\<lambda>e. DecodingError ''bencoding.Integer''
                  ''failed to parse integer: '' (Some e)) (ParseInt text)) (\<lambda>ii.
         Ok (ii, stop)))))"

lemma advanceUntil_ge: "advanceUntil src cur tok = Ok p \<Longrightarrow> cur \<le> p"
proof (induction src cur tok rule: advanceUntil.induct)
  case (1 src cur tok)
  then show ?case by (auto simp: advanceUntil.simps [of src cur tok] split: if_splits)
qed

lemma ByteString_Decode_ge: "ByteString_Decode src position = Ok (s, p) \<Longrightarrow> position \<le> p"
  by (auto simp: ByteString_Decode_def outcome_simps Let_def dest!: advanceUntil_ge)

lemma Integer_Decode_ge: "Integer_Decode src position = Ok (i, p) \<Longrightarrow> position \<le> p"
  by (auto simp: Integer_Decode_def outcome_simps Let_def dest!: advanceUntil_ge split: if_splits)

lemma ByteString_Decode_ge_snd: "ByteString_Decode src n = Ok r \<Longrightarrow> n \<le> snd r"
  using ByteString_Decode_ge by (cases r) auto

function (domintros) Decode :: "Value \<Rightarrow> goslice \<Rightarrow> nat \<Rightarrow> (Value \<times> nat) outcome"
  and List_loop :: "Value list \<Rightarrow> goslice \<Rightarrow> nat \<Rightarrow> (Value \<times> nat) outcome"
  and Dict_loop :: "Value dict \<Rightarrow> goslice \<Rightarrow> nat \<Rightarrow> (Value \<times> nat) outcome"
where
  "Decode (ByteString s0) src position =
     obind (ByteString_Decode src position) (\<lambda>(s, p). Ok (ByteString s, p))"
| "Decode (Integer i0) src position =
     obind (Integer_Decode src position) (\<lambda>(i, p). Ok (Integer i, p))"
| "Decode (VList l) src position =
     obind (index_at src position) (\<lambda>c.
     if c \<noteq> listBegin
     then Err (DecodingError ''bencoding.List''
            ''failed to decode list, missing 'l' indicating start of list'' None)
     else List_loop l src position)"
| "Decode (Dictionary d) src position =
     obind (index_at src position) (\<lambda>c.
     if c \<noteq> dictionaryBegin
     then Err (DecodingError ''bencoding.Dictionary''
            ''failed to decode dictionary, missing 'd' indicating start of dictionary'' None)
     else Dict_loop d src position)"
| "List_loop l src position =
     (if position + 1 = slen src
      then Err (DecodingError ''bencoding.List'' ''un-proper formatted list'' None)
      else
        obind (index_at src (position + 1)) (\<lambda>c.
        if c = valueEnd then Ok (VList l, position + 1)
        else case nextValue c of
          None \<Rightarrow> Err (DecodingError ''bencoding.List'' ''unrecognized token: '' None)
        | Some d \<Rightarrow>
            obind (oerr (\<lambda>e. DecodingError ''bencoding.List''
                     ''failed to decode list item of type'' (Some e))
                     (Decode d src (position + 1))) (\<lambda>r.
            List_loop (l @ [fst r]) src (snd r))))"
| "Dict_loop d src position =
     (if position + 1 = slen src
      then Err (DecodingError ''bencoding.Dictionary'' ''un-proper formatted dictionary'' None)
      else
        obind (index_at src (position + 1)) (\<lambda>c.
        if c = valueEnd then Ok (Dictionary d, position + 1)
        else
          obind (oerr (\<lambda>e. DecodingError ''bencoding.Dictionary''
                   ''failed to decode dictionary Key: '' (Some e))
                   (ByteString_Decode src (position + 1))) (\<lambda>k.
          obind (index_at src (snd k + 1)) (\<lambda>c'.
          case nextValue c' of
            None \<Rightarrow> Err (DecodingError ''bencoding.Dictionary''
                      ''expected value, found unrecognized token: '' None)
          | Some v \<Rightarrow>
              obind (oerr (\<lambda>e. DecodingError ''bencoding.Dictionary''
                       ''failed to decode list item of type'' (Some e))
                       (Decode v src (snd k + 1))) (\<lambda>r.
              Dict_loop (dict_set (fst k) (fst r) d) src (snd r))))))"
  by pat_completeness auto
termination
proof -
  let ?dom = "Decode_List_loop_Dict_loop_dom"
  have "?dom (Inl (v, src, n)) \<Longrightarrow> Decode v src n = Ok (w, p) \<Longrightarrow> n \<le> p"
    and "?dom (Inr (Inl (l, src, n))) \<Longrightarrow> List_loop l src n = Ok (w, p) \<Longrightarrow> n \<le> p"
    and "?dom (Inr (Inr (d, src, n))) \<Longrightarrow> Dict_loop d src n = Ok (w, p) \<Longrightarrow> n \<le> p"
    for v l d src n w p
  proof (induction v src n and l src n and d src n arbitrary: w p and w p and w p
      rule: Decode_List_loop_Dict_loop.pinduct)
    case (5 l src n)
    show ?case
    proof (cases "index_at src (n + 1) = Ok valueEnd")
      case True
      with 5(4) show ?thesis by (auto simp: List_loop.psimps [OF 5(1)] split: if_splits)
    next
      case False
      with 5(4) obtain c e r where *: "n + 1 \<noteq> slen src" "index_at src (n + 1) = Ok c" "c \<noteq> valueEnd"
        "nextValue c = Some e" "Decode e src (n + 1) = Ok r" "List_loop (l @ [fst r]) src (snd r) = Ok (w, p)"
        by (auto simp: List_loop.psimps [OF 5(1)] obind_eq_Ok oerr_eq_Ok
            split: if_splits option.splits)
      have "n + 1 \<le> snd r" using 5(2) [of c e "fst r" "snd r"] * by simp
      moreover have "snd r \<le> p" using 5(3) [of c e r] * by (simp add: oerr_eq_Ok)
      ultimately show ?thesis by simp
    qed
  next
    case (6 d src n)
    show ?case
    proof (cases "index_at src (n + 1) = Ok valueEnd")
      case True
      with 6(4) show ?thesis by (auto simp: Dict_loop.psimps [OF 6(1)] split: if_splits)
    next
      case False
      with 6(4) obtain c k c' e r where *: "n + 1 \<noteq> slen src" "index_at src (n + 1) = Ok c"
        "c \<noteq> valueEnd" "ByteString_Decode src (n + 1) = Ok k" "index_at src (snd k + 1) = Ok c'"
        "nextValue c' = Some e" "Decode e src (snd k + 1) = Ok r"
        "Dict_loop (dict_set (fst k) (fst r) d) src (snd r) = Ok (w, p)"
        by (auto simp: Dict_loop.psimps [OF 6(1)] obind_eq_Ok oerr_eq_Ok
            split: if_splits option.splits)
      have "n + 1 \<le> snd k" using ByteString_Decode_ge [of src "n + 1" "fst k" "snd k"] * by simp
      moreover have "snd k + 1 \<le> snd r"
        using 6(2) [of c k c' e "fst r" "snd r"] * by (simp add: oerr_eq_Ok)
      moreover have "snd r \<le> p" using 6(3) [of c k c' e r] * by (simp add: oerr_eq_Ok)
      ultimately show ?thesis by simp
    qed
  qed (auto simp: Decode.psimps outcome_simps dest: ByteString_Decode_ge Integer_Decode_ge split: if_splits)
  then have ge: "?dom (Inl (v, src, n)) \<Longrightarrow> Decode v src n = Ok r \<Longrightarrow> n \<le> snd r" for v src n r
    by (cases r) auto
  show ?thesis
    by (relation "measure (\<lambda>x. case x of Inl (_, src, n) \<Rightarrow> 2 * (slen src - n) + 1
          | Inr (Inl (_, src, n)) \<Rightarrow> 2 * (slen src - n)
          | Inr (Inr (_, src, n)) \<Rightarrow> 2 * (slen src - n))")
      (fastforce simp: outcome_simps dest!: ge ByteString_Decode_ge_snd)+
qed

declare List_loop.simps [simp del] and Dict_loop.simps [simp del]

text \<open>
  \<^verbatim>\<open>bytes.TrimSpace\<close>: the white space of \<^verbatim>\<open>unicode.IsSpace\<close> in UTF-8 is cut off both ends of the
  window. The result is a window on the same array, so bytes cut off the right end are still there
  up to the capacity.
\<close>

definition space_runes :: "bytes list" where
  "space_runes =
     [[9], [10], [11], [12], [13], [32], [0xC2, 0x85], [0xC2, 0xA0], [0xE1, 0x9A, 0x80]]
       @ map (\<lambda>b. [0xE2, 0x80, b])
           [0x80, 0x81, 0x82, 0x83, 0x84, 0x85, 0x86, 0x87, 0x88, 0x89, 0x8A, 0xA8, 0xA9, 0xAF]
       @ [[0xE2, 0x81, 0x9F], [0xE3, 0x80, 0x80]]"

function trim_with :: "bytes list \<Rightarrow> bytes \<Rightarrow> bytes" where
  "trim_with rs xs =
     (case find (\<lambda>r. r \<noteq> [] \<and> take (length r) xs = r) rs of
        None \<Rightarrow> xs
      | Some r \<Rightarrow> trim_with rs (drop (length r) xs))"
  by pat_completeness auto
termination
proof (relation "measure (\<lambda>(rs, xs). length xs)")
  fix rs xs r
  assume "find (\<lambda>r. r \<noteq> [] \<and> take (length r) xs = r) rs = Some r"
  then have "r \<noteq> []" and "take (length r) xs = r" by (auto simp: find_Some_iff)
  then have "0 < length r" and "xs \<noteq> []" by auto
  then show "((rs, drop (length r) xs), rs, xs) \<in> measure (\<lambda>(rs, xs). length xs)" by simp
qed simp

declare trim_with.simps [simp del]

definition TrimSpace :: "goslice \<Rightarrow> goslice" where
  "TrimSpace s =
     (let w = window s;
          l = trim_with space_runes w;
          r = rev (trim_with (map rev space_runes) (rev l))
      in \<lparr>arr = drop (length w - length l) (arr s), slen = length r\<rparr>)"

definition DecodeAll :: "goslice outcome \<Rightarrow> Value outcome" where
  "DecodeAll src =
     obind src (\<lambda>b0.
     let b = TrimSpace b0 in
     if slen b = 0 then Err (ErrorMsg ''no bencoded value in input'')
     else obind (index_at b 0) (\<lambda>c.
       case nextValue c of
         None \<Rightarrow> Err (ErrorMsg ''no bencoded value in input'')
       | Some v \<Rightarrow> obind (Decode v b 0) (\<lambda>r. Ok (fst r))))"

fun Value_wf :: "Value \<Rightarrow> bool" where
  "Value_wf (ByteString s) = True"
| "Value_wf (Integer i) = in_i64 i"
| "Value_wf (VList l) = list_all Value_wf l"
| "Value_wf (Dictionary d) = (dict_wf d \<and> list_all (\<lambda>(k, v). Value_wf v) d)"

section \<open>Literals standing in a slice\<close>

definition holds_at :: "goslice \<Rightarrow> nat \<Rightarrow> bytes \<Rightarrow> bool" where
  "holds_at src p w \<longleftrightarrow> slen src \<le> length (arr src) \<and> p + length w \<le> slen src
     \<and> take (length w) (drop p (arr src)) = w"

lemma holds_at_append:
  "holds_at src p (u @ w) \<longleftrightarrow> holds_at src p u \<and> holds_at src (p + length u) w"
proof -
  have "length (take (length u) (drop p (arr src))) = length u"
    if "slen src \<le> length (arr src)" "p + length u + length w \<le> slen src"
    using that by simp
  then show ?thesis by (auto simp: holds_at_def take_add add.assoc add.commute)
qed

lemma holds_at_single: "slen src \<le> length (arr src) \<Longrightarrow> holds_at src p [c] \<longleftrightarrow> index_at src p = Ok c"
  by (auto simp: holds_at_def outcome_simps take_Suc hd_drop_conv_nth)

lemma holds_at_Cons:
  "slice_wf src \<Longrightarrow>
     holds_at src p (c # w) \<longleftrightarrow> index_at src p = Ok c \<and> holds_at src (p + 1) w"
  using holds_at_append [of src p "[c]" w] by (simp add: holds_at_single slice_wf_def)

lemma advanceUntil_found:
  "slice_wf src \<Longrightarrow> holds_at src p (xs @ [tok]) \<Longrightarrow> tok \<notin> set xs \<Longrightarrow>
     advanceUntil src p tok = Ok (p + length xs)"
proof (induction xs arbitrary: p)
  case Nil
  then show ?case by (simp add: holds_at_Cons outcome_simps advanceUntil.simps)
next
  case (Cons x xs)
  then have "advanceUntil src p tok = advanceUntil src (p + 1) tok"
    by (auto simp: holds_at_Cons outcome_simps advanceUntil.simps [of src p])
  with Cons show ?case by (simp add: holds_at_Cons)
qed

lemma reslice_holds_at: "holds_at src p w \<Longrightarrow> reslice src (int p) (int (p + length w)) = Ok w"
  by (auto simp: holds_at_def reslice_def nat_add_distrib)

lemma ByteString_Decode_stored:
  assumes "slice_wf src" and hdr: "holds_at src p (show_nat (length s) @ [valueDelimiter])"
    and cap: "p + length (string_literal s) \<le> length (arr src)"
    and body: "take (length s) (drop (p + length (show_nat (length s)) + 1) (arr src)) = s"
  shows "ByteString_Decode src p = Ok (s, p + length (string_literal s) - 1)"
proof -
  let ?n = "length (show_nat (length s))"
  have "valueDelimiter \<notin> set (show_nat (length s))"
    by (auto dest: show_nat_digits simp: is_digit_def)
  with assms have "advanceUntil src p valueDelimiter = Ok (p + ?n)"
    by (intro advanceUntil_found)
  moreover have "reslice src (int p) (int (p + ?n)) = Ok (show_nat (length s))"
    using hdr by (intro reslice_holds_at) (simp add: holds_at_append)
  moreover have "ParseInt (show_nat (length s)) = Ok (int (length s))"
    using assms(1) cap by (intro ParseInt_show_nat) (simp add: slice_wf_def string_literal_def)
  moreover have "i64 (int (p + ?n) + 1 + int (length s)) = int (p + ?n) + 1 + int (length s)"
    using assms(1) cap by (intro i64_id) (simp add: in_i64_def slice_wf_def string_literal_def)
  moreover have "reslice src (int (p + ?n) + 1) (int (p + ?n) + 1 + int (length s)) = Ok s"
    using cap body by (auto simp: reslice_def string_literal_def nat_add_distrib)
  ultimately show ?thesis
    by (simp add: ByteString_Decode_def Let_def string_literal_def nat_add_distrib)
qed

lemma ByteString_Decode_literal:
  assumes "slice_wf src" and "holds_at src p (string_literal s)"
  shows "ByteString_Decode src p = Ok (s, p + length (string_literal s) - 1)"
proof (rule ByteString_Decode_stored)
  have *: "holds_at src p ((show_nat (length s) @ [valueDelimiter]) @ s)"
    using assms(2) by (simp add: string_literal_def)
  then show "holds_at src p (show_nat (length s) @ [valueDelimiter])"
    by (simp only: holds_at_append)
  from * have "holds_at src (p + length (show_nat (length s)) + 1) s"
    by (simp only: holds_at_append) simp
  then show "take (length s) (drop (p + length (show_nat (length s)) + 1) (arr src)) = s"
    by (simp add: holds_at_def)
  show "p + length (string_literal s) \<le> length (arr src)"
    using assms by (simp add: holds_at_def slice_wf_def)
qed fact

lemma show_nat_no_leading_zero: "hd (show_nat n) = 48 \<Longrightarrow> n = 0"
proof (induction n rule: show_nat.induct)
  case (1 n)
  have *: "digit d = 48 \<Longrightarrow> d < 10 \<Longrightarrow> d = 0" for d
    using unat_digit [of d] by simp
  show ?case
  proof (cases "n < 10")
    case True
    with 1(2) * show ?thesis by (simp add: show_nat.simps [of n])
  next
    case False
    with 1(2) have "hd (show_nat (n div 10)) = 48" by (simp add: show_nat.simps [of n])
    with 1(1) False have "n div 10 = 0" by blast
    with False show ?thesis by simp
  qed
qed

lemma FormatInt_no_leading_zero:
  "hd (FormatInt i) = 48 \<Longrightarrow> length (FormatInt i) = 1"
  using show_nat_no_leading_zero [of "nat i"]
  by (auto simp: FormatInt_def show_nat.simps [of 0] split: if_splits)

lemma FormatInt_bytes: "valueEnd \<notin> set (FormatInt i)" "FormatInt i \<noteq> []"
  by (auto simp: FormatInt_def is_digit_def dest: show_nat_digits)

lemma Integer_Decode_literal:
  assumes "slice_wf src" and "in_i64 i" and lit: "holds_at src p (Literal (Integer i))"
  shows "Integer_Decode src p = Ok (i, p + length (Literal (Integer i)) - 1)"
proof -
  let ?t = "FormatInt i"
  from assms have first: "index_at src p = Ok integerBegin"
    and rest: "holds_at src (p + 1) (?t @ [valueEnd])"
    by (auto simp: holds_at_Cons)
  then have adv: "advanceUntil src (p + 1) valueEnd = Ok (p + 1 + length ?t)"
    using assms(1) FormatInt_bytes(1) by (intro advanceUntil_found)
  from rest have t: "holds_at src (p + 1) ?t" by (simp add: holds_at_append)
  then have res: "reslice src (int (p + 1)) (int (p + 1 + length ?t)) = Ok ?t"
    by (rule reslice_holds_at)
  have "hd ?t = arr src ! (p + 1)"
    using t FormatInt_bytes(2) [of i] assms(1)
    by (cases ?t) (auto simp: holds_at_Cons outcome_simps)
  then have "\<not> (1 < int (p + 1 + length ?t) - int (p + 1) \<and> arr src ! (p + 1) = 48)"
    using FormatInt_no_leading_zero [of i] by auto
  with first adv res assms(2) show ?thesis
    by (simp add: Integer_Decode_def Let_def ParseInt_FormatInt)
qed

section \<open>Round trip\<close>

fun zero_value :: "Value \<Rightarrow> Value" where
  "zero_value (ByteString s) = ByteString []"
| "zero_value (Integer i) = Integer 0"
| "zero_value (VList l) = VList []"
| "zero_value (Dictionary d) = Dictionary []"

lemma string_literal_first: "\<exists>c w. string_literal s = c # w \<and> is_digit c"
  using show_nat_digits [of _ "length s"]
  by (cases "show_nat (length s)") (auto simp: string_literal_def)

lemma Literal_first:
  "\<exists>c w. Literal v = c # w \<and> nextValue c = Some (zero_value v) \<and> c \<noteq> valueEnd"
  using string_literal_first
  by (cases v) (fastforce simp: nextValue_def is_digit_def)+

lemma Literal_nonempty [simp]: "0 < length (Literal v)"
  using Literal_first [of v] by auto

lemma Literal_Dictionary_wf:
  assumes "dict_wf d"
  shows "Literal (Dictionary d) =
     dictionaryBegin # concat (map (\<lambda>(k, v). string_literal k @ Literal v) d) @ [valueEnd]"
proof -
  let ?m = "map (\<lambda>(k, v). (k, Literal v)) d"
  have wf: "dict_wf ?m" using assms by (simp add: dict_wf_map_values)
  have "dict_literal ?m = concat (map (\<lambda>(k, x). string_literal k @ x) ?m)"
    by (simp only: dict_literal_def sort_dict_keys [OF wf]
        map_snd_dict_get [OF wf, of "\<lambda>k x. string_literal k @ x"])
  then show ?thesis by (simp add: comp_def case_prod_unfold)
qed

definition decodes :: "Value \<Rightarrow> bool" where
  "decodes v \<longleftrightarrow> (\<forall>src p. slice_wf src \<longrightarrow> holds_at src p (Literal v) \<longrightarrow>
     Decode (zero_value v) src p = Ok (v, p + length (Literal v) - 1))"

lemma decodesD:
  "decodes v \<Longrightarrow> slice_wf src \<Longrightarrow> holds_at src p (Literal v) \<Longrightarrow>
     \<exists>c. index_at src p = Ok c \<and> c \<noteq> valueEnd \<and> nextValue c = Some (zero_value v)
       \<and> Decode (zero_value v) src p = Ok (v, p + length (Literal v) - 1)"
  using Literal_first [of v] by (auto simp: decodes_def holds_at_Cons)

lemma List_loop_literals:
  assumes "slice_wf src"
  shows "list_all decodes vs \<Longrightarrow> holds_at src (p + 1) (concat (map Literal vs) @ [valueEnd]) \<Longrightarrow>
    List_loop l src p = Ok (VList (l @ vs), p + length (concat (map Literal vs)) + 1)"
proof (induction vs arbitrary: l p)
  case Nil
  with assms have "index_at src (p + 1) = Ok valueEnd" by (simp add: holds_at_Cons)
  then have "index_at src (Suc p) = Ok valueEnd" and "Suc p \<noteq> slen src"
    by (auto simp: outcome_simps)
  then show ?case by (subst List_loop.simps) simp
next
  case (Cons v vs)
  then have v: "holds_at src (p + 1) (Literal v)"
    and vs: "holds_at src (p + length (Literal v) + 1) (concat (map Literal vs) @ [valueEnd])"
    by (auto simp: holds_at_append add_ac)
  from Cons.prems(1) decodesD [OF _ assms v] obtain c where c: "index_at src (p + 1) = Ok c"
    "c \<noteq> valueEnd" "nextValue c = Some (zero_value v)"
    "Decode (zero_value v) src (p + 1) = Ok (v, p + length (Literal v))"
    by auto
  then have "p + 1 \<noteq> slen src" by (auto simp: outcome_simps)
  with c have "List_loop l src p = List_loop (l @ [v]) src (p + length (Literal v))"
    by (subst List_loop.simps) simp
  also have "\<dots> = Ok (VList (l @ v # vs), p + length (Literal v) + length (concat (map Literal vs)) + 1)"
    using Cons.IH [OF _ vs] Cons.prems(1) by simp
  finally show ?case by (simp add: add_ac)
qed

lemma Dict_loop_literals:
  assumes "slice_wf src"
  shows "list_all (\<lambda>(k, v). decodes v) kvs \<Longrightarrow>
    holds_at src (p + 1) (concat (map (\<lambda>(k, v). string_literal k @ Literal v) kvs) @ [valueEnd]) \<Longrightarrow>
    Dict_loop d src p = Ok (Dictionary (fold (\<lambda>(k, v). dict_set k v) kvs d),
      p + length (concat (map (\<lambda>(k, v). string_literal k @ Literal v) kvs)) + 1)"
proof (induction kvs arbitrary: d p)
  case Nil
  with assms have "index_at src (p + 1) = Ok valueEnd" by (simp add: holds_at_Cons)
  then have "index_at src (Suc p) = Ok valueEnd" and "Suc p \<noteq> slen src"
    by (auto simp: outcome_simps)
  then show ?case by (subst Dict_loop.simps) simp
next
  case (Cons kv kvs)
  obtain k v where kv: "kv = (k, v)" by force
  let ?sk = "length (string_literal k)" and ?sv = "length (Literal v)"
  have pos: "0 < ?sk" by (simp add: string_literal_def)
  from Cons.prems(2) kv have k: "holds_at src (p + 1) (string_literal k)"
    and v: "holds_at src (p + ?sk + 1) (Literal v)"
    and kvs: "holds_at src (p + ?sk + ?sv + 1)
      (concat (map (\<lambda>(k, v). string_literal k @ Literal v) kvs) @ [valueEnd])"
    by (auto simp: holds_at_append add_ac)
  have key: "ByteString_Decode src (p + 1) = Ok (k, p + ?sk)"
    using ByteString_Decode_literal [OF assms k] pos by simp
  obtain b w where b: "string_literal k = b # w" "is_digit b" using string_literal_first by blast
  with k assms have c: "index_at src (p + 1) = Ok b" "b \<noteq> valueEnd"
    by (auto simp: holds_at_Cons is_digit_def)
  from Cons.prems(1) kv decodesD [OF _ assms v] obtain c' where c': "index_at src (p + ?sk + 1) = Ok c'"
    "nextValue c' = Some (zero_value v)"
    "Decode (zero_value v) src (p + ?sk + 1) = Ok (v, p + ?sk + ?sv)"
    by auto
  from c have "p + 1 \<noteq> slen src" by (auto simp: outcome_simps)
  with c key c' have "Dict_loop d src p = Dict_loop (dict_set k v d) src (p + ?sk + ?sv)"
    by (subst Dict_loop.simps) simp
  also have "\<dots> = Ok (Dictionary (fold (\<lambda>(k, v). dict_set k v) kvs (dict_set k v d)),
      p + ?sk + ?sv + length (concat (map (\<lambda>(k, v). string_literal k @ Literal v) kvs)) + 1)"
    using Cons.IH [OF _ kvs] Cons.prems(1) by simp
  finally show ?case by (simp add: kv add_ac)
qed

lemma Value_wf_decodes: "Value_wf v \<Longrightarrow> decodes v"
proof (induction v)
  case (ByteString s)
  then show ?case by (auto simp: decodes_def ByteString_Decode_literal)
next
  case (Integer i)
  then show ?case
    using Integer_Decode_literal by (auto simp: decodes_def simp del: Literal.simps)
next
  case (VList l)
  then have l: "list_all decodes l" by (auto simp: list_all_iff)
  show ?case
    unfolding decodes_def
  proof (intro allI impI)
    fix src p
    assume wf: "slice_wf src" and lit: "holds_at src p (Literal (VList l))"
    then have "index_at src p = Ok listBegin"
      and "holds_at src (p + 1) (concat (map Literal l) @ [valueEnd])"
      by (auto simp: holds_at_Cons)
    with List_loop_literals [OF wf l, of p "[]"]
    show "Decode (zero_value (VList l)) src p = Ok (VList l, p + length (Literal (VList l)) - 1)"
      by simp
  qed
next
  case (Dictionary d)
  then have d: "list_all (\<lambda>(k, v). decodes v) d" and wfd: "dict_wf d"
    by (fastforce simp: list_all_iff)+
  show ?case
    unfolding decodes_def
  proof (intro allI impI)
    fix src p
    assume wf: "slice_wf src" and "holds_at src p (Literal (Dictionary d))"
    then have "index_at src p = Ok dictionaryBegin" and "holds_at src (p + 1)
        (concat (map (\<lambda>(k, v). string_literal k @ Literal v) d) @ [valueEnd])"
      by (auto simp: holds_at_Cons Literal_Dictionary_wf [OF wfd] simp del: Literal.simps)
    moreover have "fold (\<lambda>(k, v). dict_set k v) d [] = d"
      using wfd by (intro string_map.rebuild) (auto simp: dict_wf_distinct dict_get_map_of)
    ultimately show "Decode (zero_value (Dictionary d)) src p
        = Ok (Dictionary d, p + length (Literal (Dictionary d)) - 1)"
      using Dict_loop_literals [OF wf d, of p "[]"]
      by (simp add: Literal_Dictionary_wf [OF wfd] del: Literal.simps)
  qed
qed

lemma Decode_Literal:
  "Value_wf v \<Longrightarrow> slice_wf src \<Longrightarrow> holds_at src p (Literal v) \<Longrightarrow>
     Decode (zero_value v) src p = Ok (v, p + length (Literal v) - 1)"
  using Value_wf_decodes by (simp add: decodes_def)

section \<open>White space around a literal\<close>

lemma trim_with_stop: "\<forall>r \<in> set rs. c \<notin> set r \<Longrightarrow> trim_with rs (c # w) = c # w"
proof -
  assume "\<forall>r \<in> set rs. c \<notin> set r"
  then have "find (\<lambda>r. r \<noteq> [] \<and> take (length r) (c # w) = r) rs = None"
    by (force simp: find_None_iff take_Cons' neq_Nil_conv)
  then show ?thesis by (simp add: trim_with.simps)
qed

lemma trim_with_keeps:
  "\<forall>r \<in> set rs. c \<notin> set r \<Longrightarrow> \<exists>ys'. trim_with rs (ys @ c # w) = ys' @ c # w"
proof (induction rs "ys @ c # w" arbitrary: ys rule: trim_with.induct)
  case (1 rs)
  show ?case
  proof (cases "find (\<lambda>r. r \<noteq> [] \<and> take (length r) (ys @ c # w) = r) rs")
    case None
    then show ?thesis by (simp add: trim_with.simps [of rs "ys @ c # w"])
  next
    case (Some r)
    then have r: "take (length r) (ys @ c # w) = r" "c \<notin> set r"
      using 1(2) by (auto simp: find_Some_iff)
    have le: "length r \<le> length ys"
    proof (rule ccontr)
      assume "\<not> length r \<le> length ys"
      then have "c \<in> set (take (length r) (ys @ c # w))" by (simp add: take_Cons')
      with r show False by simp
    qed
    then have "drop (length r) (ys @ c # w) = drop (length r) ys @ c # w" by simp
    with 1 Some show ?thesis by (simp add: trim_with.simps [of rs "ys @ c # w"])
  qed
qed

lemma trim_with_length: "length (trim_with rs w) \<le> length w"
proof (induction rs w rule: trim_with.induct)
  case (1 rs xs)
  then show ?case
    by (subst trim_with.simps) (fastforce split: option.split)
qed

definition ascii_space :: "byte \<Rightarrow> bool" where
  "ascii_space c \<longleftrightarrow> c \<in> {9, 10, 11, 12, 13, 32}"

definition not_space :: "byte \<Rightarrow> bool" where
  "not_space c \<longleftrightarrow> (\<forall>r \<in> set space_runes. c \<notin> set r)"

lemma not_space_tokens [simp]:
  "not_space valueEnd" "not_space valueDelimiter" "not_space integerBegin" "not_space listBegin"
  "not_space dictionaryBegin" "is_digit c \<Longrightarrow> not_space c"
  by (auto simp: not_space_def space_runes_def is_digit_def)

lemma find_unique:
  assumes "x \<in> set xs" and "P x" and "\<And>y. y \<in> set xs \<Longrightarrow> P y \<Longrightarrow> y = x"
  shows "find P xs = Some x"
proof (cases "find P xs")
  case None
  with assms(1,2) show ?thesis by (auto simp: find_None_iff)
next
  case (Some y)
  then have "y \<in> set xs" and "P y" by (auto simp: find_Some_iff)
  with assms(3) Some show ?thesis by simp
qed

lemma space_runes_shape: "r \<in> set space_runes \<Longrightarrow> r = [hd r] \<or> 0xC2 \<le> hd r"
  by (auto simp: space_runes_def)

lemma ascii_space_rune: "ascii_space c \<Longrightarrow> [c] \<in> set space_runes \<and> \<not> 0xC2 \<le> c"
  by (auto simp: ascii_space_def space_runes_def)

lemma trim_with_ascii_space: "ascii_space c \<Longrightarrow> trim_with space_runes (c # w) = trim_with space_runes w"
proof -
  assume "ascii_space c"
  then have "find (\<lambda>r. r \<noteq> [] \<and> take (length r) (c # w) = r) space_runes = Some [c]"
  proof (intro find_unique)
    fix r
    assume r: "r \<in> set space_runes" "r \<noteq> [] \<and> take (length r) (c # w) = r"
    then have "hd r = c" by (metis hd_take length_greater_0_conv list.sel(1))
    with r(1) \<open>ascii_space c\<close> show "r = [c]"
      using space_runes_shape [of r] ascii_space_rune [of c] by auto
  qed (use \<open>ascii_space c\<close> in \<open>auto simp: ascii_space_rune\<close>)
  then show ?thesis by (simp add: trim_with.simps [of space_runes "c # w"])
qed

lemma trim_with_ascii_spaces:
  "list_all ascii_space pre \<Longrightarrow> trim_with space_runes (pre @ w) = trim_with space_runes w"
  by (induction pre) (auto simp: trim_with_ascii_space)

lemma TrimSpace_keeps:
  assumes w: "window s = pre @ u @ c # ys" and pre: "list_all ascii_space pre"
    and c: "not_space c" and h: "not_space (hd (u @ [c]))"
  shows "\<exists>n. TrimSpace s = \<lparr>arr = drop (length pre) (arr s), slen = n\<rparr>
    \<and> length u < n \<and> n \<le> length (u @ c # ys)"
proof -
  let ?w = "u @ c # ys"
  have l: "trim_with space_runes (window s) = ?w"
    using h trim_with_stop [of space_runes]
    by (cases u) (auto simp: w trim_with_ascii_spaces [OF pre] not_space_def)
  obtain ys' where r: "trim_with (map rev space_runes) (rev ?w) = ys' @ c # rev u"
    using trim_with_keeps [of "map rev space_runes" c "rev ys" "rev u"] c
    by (auto simp: not_space_def)
  have "length (ys' @ c # rev u) \<le> length ?w"
    using trim_with_length [of "map rev space_runes" "rev ?w"] by (simp only: r length_rev)
  with l r show ?thesis by (auto simp: TrimSpace_def Let_def w)
qed

lemma Literal_split:
  assumes "Value_wf v"
  shows "\<exists>u c ys. Literal v = u @ c # ys \<and> not_space c \<and> not_space (hd (u @ [c]))
    \<and> (\<forall>src. slice_wf src \<longrightarrow> length (Literal v) \<le> length (arr src) \<longrightarrow>
         take (length (Literal v)) (arr src) = Literal v \<longrightarrow> length u < slen src \<longrightarrow>
         Decode (zero_value v) src 0 = Ok (v, length (Literal v) - 1))"
proof (cases "\<exists>s. v = ByteString s")
  case True
  then obtain s where v: "v = ByteString s" by blast
  let ?u = "show_nat (length s)"
  have "Decode (zero_value v) src 0 = Ok (v, length (Literal v) - 1)"
    if "slice_wf src" "length (Literal v) \<le> length (arr src)"
      "take (length (Literal v)) (arr src) = Literal v" "length ?u < slen src" for src
  proof -
    have eq: "take (length ?u + 1 + length s) (arr src) = ?u @ valueDelimiter # s"
      using that(3) by (simp add: v string_literal_def)
    have "take (length ?u + 1) (arr src) = take (length ?u + 1) (?u @ valueDelimiter # s)"
      unfolding eq [symmetric] by simp
    then have "take (length ?u + 1) (arr src) = ?u @ [valueDelimiter]" by simp
    moreover have "take (length s) (drop (length ?u + 1) (arr src))
        = drop (length ?u + 1) (?u @ valueDelimiter # s)"
      unfolding eq [symmetric] by (simp add: drop_take)
    ultimately show ?thesis
      using ByteString_Decode_stored [of src 0 s] that
      by (simp add: v holds_at_def slice_wf_def string_literal_def)
  qed
  moreover have "not_space (hd (?u @ [valueDelimiter]))"
    by (simp add: not_space_tokens(6) [OF show_nat_digits [OF hd_in_set]])
  ultimately show ?thesis
    by (intro exI [of _ ?u] exI [of _ valueDelimiter] exI [of _ s] conjI allI impI)
      (simp_all add: v string_literal_def del: Decode.simps)
next
  case False
  obtain u where u: "Literal v = u @ [valueEnd]" and h: "not_space (hd (u @ [valueEnd]))"
    using False by (cases v) auto
  have "Decode (zero_value v) src 0 = Ok (v, length (Literal v) - 1)"
    if "slice_wf src" "take (length (Literal v)) (arr src) = Literal v" "length u < slen src" for src
    using Decode_Literal [OF assms that(1), of 0] that by (simp add: holds_at_def slice_wf_def u)
  with u h show ?thesis by (intro exI [of _ u] exI [of _ valueEnd] exI [of _ "[]"]) auto
qed

lemma DecodeAll_literal:
  assumes "Value_wf v" and "slice_wf b" and w: "window b = pre @ Literal v @ post"
    and pre: "list_all ascii_space pre"
  shows "DecodeAll (Ok b) = Ok v"
proof -
  from Literal_split [OF assms(1)] obtain u c ys where split: "Literal v = u @ c # ys" "not_space c"
    "not_space (hd (u @ [c]))" and dec: "\<And>src. slice_wf src \<Longrightarrow>
      length (Literal v) \<le> length (arr src) \<Longrightarrow> take (length (Literal v)) (arr src) = Literal v \<Longrightarrow>
      length u < slen src \<Longrightarrow> Decode (zero_value v) src 0 = Ok (v, length (Literal v) - 1)"
    by blast
  from w split have "window b = pre @ u @ c # (ys @ post)" by simp
  from TrimSpace_keeps [OF this pre split(2,3)] obtain n where
    b: "TrimSpace b = \<lparr>arr = drop (length pre) (arr b), slen = n\<rparr>" and n: "length u < n"
      "n \<le> length (Literal v @ post)"
    by (auto simp: split(1))
  have len: "length pre + length (Literal v @ post) \<le> length (arr b)"
    using arg_cong [OF w, of length] by (simp add: window_def)
  have "take (length (Literal v)) (drop (length pre) (window b)) = Literal v" by (simp add: w)
  moreover have "length pre + length (Literal v) \<le> slen b"
    using arg_cong [OF w, of length] by (simp add: window_def)
  then have "min (length (Literal v)) (slen b - length pre) = length (Literal v)" by simp
  ultimately have lit: "take (length (Literal v)) (drop (length pre) (arr b)) = Literal v"
    by (simp add: window_def drop_take)
  have wf: "slice_wf (TrimSpace b)" using assms(2) n(2) len by (simp add: slice_wf_def b)
  have d: "Decode (zero_value v) (TrimSpace b) 0 = Ok (v, length (Literal v) - 1)"
    using wf lit len n by (intro dec) (auto simp: b)
  obtain c0 w0 where first: "Literal v = c0 # w0" "nextValue c0 = Some (zero_value v)"
    using Literal_first by blast
  have "index_at (TrimSpace b) 0 = Ok c0"
    using lit n len by (cases "drop (length pre) (arr b)") (auto simp: b index_at_def first)
  with first d n show ?thesis by (simp add: DecodeAll_def Let_def b)
qed

section \<open>What the decoders return\<close>

lemma nextValue_wf: "nextValue c = Some v \<Longrightarrow> Value_wf v"
  by (auto simp: nextValue_def in_i64_def split: if_splits)

lemma list_all_dict_set:
  "list_all (\<lambda>(k, v). P v) d \<Longrightarrow> P w \<Longrightarrow> list_all (\<lambda>(k, v). P v) (dict_set k w d)"
  by (induction k w d rule: dict_set.induct) auto

lemma Integer_Decode_range: "Integer_Decode src n = Ok (i, p) \<Longrightarrow> in_i64 i"
  by (auto simp: Integer_Decode_def Let_def outcome_simps dest: ParseInt_range split: if_splits)

lemma advanceUntil_bound: "advanceUntil src cur tok = Ok p \<Longrightarrow> cur \<le> slen src \<Longrightarrow> p < slen src"
proof (induction src cur tok rule: advanceUntil.induct)
  case (1 src cur tok)
  then show ?case by (auto simp: advanceUntil.simps [of src cur tok] split: if_splits)
qed

lemma ByteString_Decode_bound: "ByteString_Decode src n = Ok r \<Longrightarrow> snd r < length (arr src)"
  by (auto simp: ByteString_Decode_def Let_def outcome_simps)

lemma Integer_Decode_bound: "Integer_Decode src n = Ok r \<Longrightarrow> snd r < slen src"
  by (auto simp: Integer_Decode_def Let_def outcome_simps dest!: advanceUntil_bound split: if_splits)

lemma List_loop_Ok_cases:
  assumes "List_loop l src n = Ok r"
  obtains (stop) "index_at src (n + 1) = Ok valueEnd" "r = (VList l, n + 1)"
  | (item) c e q where "n + 1 \<noteq> slen src" "index_at src (n + 1) = Ok c" "c \<noteq> valueEnd"
      "nextValue c = Some e" "Decode e src (n + 1) = Ok q"
      "List_loop (l @ [fst q]) src (snd q) = Ok r"
  using assms
  by (subst (asm) List_loop.simps)
    (auto simp: obind_eq_Ok oerr_eq_Ok split: if_splits option.splits)

lemma Dict_loop_Ok_cases:
  assumes "Dict_loop d src n = Ok r"
  obtains (stop) "index_at src (n + 1) = Ok valueEnd" "r = (Dictionary d, n + 1)"
  | (item) c k c' e q where "n + 1 \<noteq> slen src" "index_at src (n + 1) = Ok c" "c \<noteq> valueEnd"
      "ByteString_Decode src (n + 1) = Ok k" "index_at src (snd k + 1) = Ok c'"
      "nextValue c' = Some e" "Decode e src (snd k + 1) = Ok q"
      "Dict_loop (dict_set (fst k) (fst q) d) src (snd q) = Ok r"
  using assms
  by (subst (asm) Dict_loop.simps)
    (auto simp: obind_eq_Ok oerr_eq_Ok split: if_splits option.splits)

lemma Decode_wf:
  "Decode v src n = Ok r \<Longrightarrow> Value_wf v \<Longrightarrow> Value_wf (fst r) \<and> n \<le> snd r"
  "List_loop l src n = Ok r \<Longrightarrow> list_all Value_wf l \<Longrightarrow> Value_wf (fst r) \<and> n \<le> snd r"
  "Dict_loop d src n = Ok r \<Longrightarrow> dict_wf d \<Longrightarrow> list_all (\<lambda>(k, v). Value_wf v) d \<Longrightarrow>
     Value_wf (fst r) \<and> n \<le> snd r"
proof (induction v src n and l src n and d src n arbitrary: r and r and r
    rule: Decode_List_loop_Dict_loop.induct)
  case (5 l src n)
  from 5(3) show ?case
  proof (cases rule: List_loop_Ok_cases)
    case (item c e q)
    have "Value_wf (fst q) \<and> n + 1 \<le> snd q"
      using 5(1) [of c e q] item nextValue_wf by auto
    with 5(2) [of c e q r] item 5(4) show ?thesis by (auto simp: oerr_eq_Ok)
  qed (use 5(4) in auto)
next
  case (6 d src n)
  from 6(3) show ?case
  proof (cases rule: Dict_loop_Ok_cases)
    case (item c k c' e q)
    have "Value_wf (fst q) \<and> snd k + 1 \<le> snd q"
      using 6(1) [of c k c' e q] item nextValue_wf by (auto simp: oerr_eq_Ok)
    moreover have "n + 1 \<le> snd k" using item(4) by (rule ByteString_Decode_ge_snd)
    ultimately show ?thesis
      using 6(2) [of c k c' e q r] item 6(4,5)
      by (auto simp: oerr_eq_Ok dict_wf_set list_all_dict_set)
  qed (use 6(4,5) in auto)
qed (auto simp: outcome_simps split: if_splits
    dest: ByteString_Decode_ge Integer_Decode_ge Integer_Decode_range)

lemma Decode_bound:
  "Decode v src n = Ok r \<Longrightarrow> slen src \<le> length (arr src) \<Longrightarrow> snd r < length (arr src)"
  "List_loop l src n = Ok r \<Longrightarrow> slen src \<le> length (arr src) \<Longrightarrow> snd r < slen src"
  "Dict_loop d src n = Ok r \<Longrightarrow> slen src \<le> length (arr src) \<Longrightarrow> snd r < slen src"
proof (induction v src n and l src n and d src n arbitrary: r and r and r
    rule: Decode_List_loop_Dict_loop.induct)
  case (5 l src n)
  from 5(3) show ?case
  proof (cases rule: List_loop_Ok_cases)
    case (item c e q)
    with 5(2) [of c e q r] 5(4) show ?thesis by (simp add: oerr_eq_Ok)
  qed (auto simp: outcome_simps)
next
  case (6 d src n)
  from 6(3) show ?case
  proof (cases rule: Dict_loop_Ok_cases)
    case (item c k c' e q)
    with 6(2) [of c k c' e q r] 6(4) show ?thesis by (simp add: oerr_eq_Ok)
  qed (auto simp: outcome_simps)
qed (fastforce simp: outcome_simps split: if_splits
    dest: ByteString_Decode_bound Integer_Decode_bound)+

lemma DecodeAll_wf: "DecodeAll b = Ok v \<Longrightarrow> Value_wf v"
  by (auto simp: DecodeAll_def Let_def obind_eq_Ok split: if_splits option.splits
      dest!: Decode_wf(1) dest: nextValue_wf)

lemma ByteString_Decode_declared:
  assumes "slice_wf src" and hdr: "holds_at src p (show_nat n @ [valueDelimiter])" and n: "n < 2 ^ 62"
    and "int (length (arr src)) < 2 ^ 62"
  shows "ByteString_Decode src p =
    (let start = p + length (show_nat n) + 1 in
     if start + n \<le> length (arr src)
     then Ok (take n (drop start (arr src)), start + n - 1)
     else Panic ''slice bounds out of range'')"
proof -
  let ?k = "length (show_nat n)"
  have "valueDelimiter \<notin> set (show_nat n)"
    by (auto dest: show_nat_digits simp: is_digit_def)
  with assms have "advanceUntil src p valueDelimiter = Ok (p + ?k)"
    by (intro advanceUntil_found)
  moreover have "reslice src (int p) (int (p + ?k)) = Ok (show_nat n)"
    using hdr by (intro reslice_holds_at) (simp add: holds_at_append)
  moreover have "ParseInt (show_nat n) = Ok (int n)" using n by (intro ParseInt_show_nat) simp
  moreover have "p + ?k + 1 \<le> slen src" "slen src \<le> length (arr src)"
    using hdr by (auto simp: holds_at_def)
  then have "i64 (int (p + ?k) + 1 + int n) = int (p + ?k + 1 + n)"
    using n assms(4) by (subst i64_id) (auto simp: in_i64_def)
  moreover have "reslice src (int (p + ?k) + 1) (int (p + ?k + 1 + n)) =
    (if p + ?k + 1 + n \<le> length (arr src) then Ok (take n (drop (p + ?k + 1) (arr src)))
     else Panic ''slice bounds out of range'')"
    by (auto simp: reslice_def nat_add_distrib)
  moreover have "nat (int (p + ?k + 1 + n) - 1) = p + ?k + n" by simp
  ultimately show ?thesis
    by (simp only: ByteString_Decode_def Let_def obind.simps oerr.simps split: if_split) simp
qed

section \<open>Properties\<close>

text \<open>
  C11. Decoding inverts printing: the entry point \<open>DecodeAll\<close>, given any slice whose window
  holds white space, then the literal of a well-formed value, then anything at all, returns
  exactly that value.
\<close>

theorem bencoding_roundtrip:
  assumes "Value_wf v" and "slice_wf b" and "window b = pre @ Literal v @ post"
    and "list_all ascii_space pre"
  shows "DecodeAll (Ok b) = Ok v"
  using assms by (rule DecodeAll_literal)

theorem bencoding_roundtrip_witness:
  "DecodeAll (Ok (of_bytes (str '' d1:ai-7e1:bl2:xyee '')))
     = Ok (Dictionary [(str ''a'', Integer (- 7)), (str ''b'', VList [ByteString (str ''xy'')])])"
proof (rule bencoding_roundtrip [of _ _ "str '' ''" "str '' ''"])
  show "window (of_bytes (str '' d1:ai-7e1:bl2:xyee '')) = str '' '' @ Literal (Dictionary
      [(str ''a'', Integer (- 7)), (str ''b'', VList [ByteString (str ''xy'')])]) @ str '' ''"
    by (simp add: of_bytes_def window_def str_def dict_literal_def dict_keys_def string_literal_def
        FormatInt_def show_nat.simps digit_def)
qed (simp_all add: str_def in_i64_def dict_wf_def slice_wf_def of_bytes_def ascii_space_def)

text \<open>
  A nested decoder finds the end of its value: standing at the literal of a well-formed value
  anywhere in a slice, \<open>Decode\<close> on the fresh receiver returns the value and the position of the
  literal's last byte.
\<close>

theorem decode_at_literal:
  assumes "Value_wf v" and "slice_wf src" and "holds_at src p (Literal v)"
  shows "Decode (zero_value v) src p = Ok (v, p + length (Literal v) - 1)"
  using assms by (rule Decode_Literal)

theorem decode_at_literal_witness:
  "Decode (Integer 0) (of_bytes (str ''xi42ez'')) 1 = Ok (Integer 42, 4)"
  using decode_at_literal [of "Integer 42" "of_bytes (str ''xi42ez'')" 1]
  by (simp add: in_i64_def slice_wf_def of_bytes_def str_def holds_at_def FormatInt_def
      show_nat.simps digit_def del: Decode.simps)

text \<open>
  C19. Whatever the input, a decoder that succeeds on a well-formed receiver returns a well-formed
  value (integers of 64 bits, dictionaries with strictly sorted keys), never moves backwards, and
  never reports a position outside the slice's capacity.
\<close>

theorem decode_sound:
  assumes "Decode v src n = Ok (w, p)" and "Value_wf v" and "slen src \<le> length (arr src)"
  shows "Value_wf w \<and> n \<le> p \<and> p < length (arr src)"
  using Decode_wf(1) [OF assms(1,2)] Decode_bound(1) [OF assms(1,3)] by simp

theorem decode_sound_witness:
  "Decode (Integer 0) (of_bytes (str ''i-03e'')) 0 = Ok (Integer (- 3), 4) \<and>
     Value_wf (Integer (- 3)) \<and> (4::nat) < length (str ''i-03e'')"
proof -
  have d: "Decode (Integer 0) (of_bytes (str ''i-03e'')) 0 = Ok (Integer (- 3), 4)"
    by (simp add: Integer_Decode_def index_at_def of_bytes_def str_def advanceUntil.simps
        reslice_def ParseInt_def parse_signed_def ParseUint_def is_digit_def digit_val_def)
  show ?thesis using d decode_sound [OF d] by (simp add: in_i64_def of_bytes_def)
qed

text \<open>
  C24. The declared length of a string is checked against the capacity of the slice, not against
  its length: with a header that declares \<open>n\<close> bytes the decoder returns \<open>n\<close> bytes of the backing
  array, even those past the end of the input, and panics when the array is too short.
\<close>

theorem byte_string_overread:
  assumes "slice_wf src" and "holds_at src p (show_nat n @ [valueDelimiter])" and "n < 2 ^ 62"
    and "int (length (arr src)) < 2 ^ 62"
  shows "ByteString_Decode src p =
    (let start = p + length (show_nat n) + 1 in
     if start + n \<le> length (arr src)
     then Ok (take n (drop start (arr src)), start + n - 1)
     else Panic ''slice bounds out of range'')"
  using assms by (rule ByteString_Decode_declared)

theorem byte_string_overread_witness:
  "ByteString_Decode \<lparr>arr = str ''5:ab'' @ [0, 0, 0], slen = 4\<rparr> 0 = Ok (str ''ab'' @ [0, 0, 0], 6)
   \<and> ByteString_Decode \<lparr>arr = str ''5:ab'', slen = 4\<rparr> 0 = Panic ''slice bounds out of range''"
  using byte_string_overread [of "\<lparr>arr = str ''5:ab'' @ [0, 0, 0], slen = 4\<rparr>" 0 5]
    byte_string_overread [of "\<lparr>arr = str ''5:ab'', slen = 4\<rparr>" 0 5]
  by (simp add: slice_wf_def holds_at_def str_def show_nat.simps digit_def)

end
