(* ===== verification/Bitfield.thy ===== *)
theory Bitfield
  imports Prelude
begin

text \<open>
  Package \<^verbatim>\<open>p2p/peer/bitfield\<close>: the set of pieces a peer or the client has, one bit per piece,
  the high bit of byte 0 first. Every method holds the mutex for its whole body, so a method is one
  atomic step on the record.

  \<open>have_set\<close> is the set of piece numbers a field stands for. The locale \<open>piece_set\<close> is what
  the rest of the program relies on: a store is visible to later checks and changes no other piece,
  and the two listings enumerate the pieces in increasing order. \<open>bf\<close> is its interpretation on
  the bit operations of the source, under the invariant \<open>bf_wf\<close>.
\<close>

unbundle bit_operations_syntax

section \<open>The bit field and its methods\<close>

record BitField =
  bits :: bytes
  numPieces :: int64

text \<open>
  \<^verbatim>\<open>math.Ceil(float64(numPieces) / 8.0)\<close> is exact as long as \<open>numPieces\<close> has at most 53 bits: the
  conversion is exact there and the division by 8 only changes the exponent.
\<close>

definition NewBitfield :: "int64 \<Rightarrow> BitField outcome" where
  "NewBitfield n =
     (let blocks = - ((- n) div 8) in
      if blocks < 0 then Panic ''makeslice: len out of range''
      else Ok \<lparr>bits = replicate (nat blocks) 0, numPieces = n\<rparr>)"

definition byteOffset :: "u32 \<Rightarrow> u32" where
  "byteOffset idx = idx div 8"

definition bitOffset :: "u32 \<Rightarrow> u32" where
  "bitOffset idx = idx mod 8"

definition piece_mask :: "u32 \<Rightarrow> byte" where
  "piece_mask idx = push_bit (unat (7 - bitOffset idx)) 1"

definition byte_of :: "bytes \<Rightarrow> u32 \<Rightarrow> byte outcome" where
  "byte_of bs idx = index_at (of_bytes bs) (unat (byteOffset idx))"

definition Check :: "BitField \<Rightarrow> u32 \<Rightarrow> bool outcome" where
  "Check b idx = obind (byte_of (bits b) idx) (\<lambda>x. Ok ((x AND piece_mask idx) \<noteq> 0))"

definition Set_piece :: "BitField \<Rightarrow> u32 \<Rightarrow> BitField outcome" where
  "Set_piece b idx =
     obind (byte_of (bits b) idx) (\<lambda>x.
     Ok (b\<lparr>bits := (bits b)[unat (byteOffset idx) := x OR piece_mask idx]\<rparr>))"

definition SetWithCheck :: "BitField \<Rightarrow> u32 \<Rightarrow> BitField outcome" where
  "SetWithCheck b idx =
     (if numPieces b \<le> int (unat idx)
      then Err (ErrorMsg ''trying to set bits that do not belong to the torrent'')
      else if int (length (bits b)) - 1 < int (unat (byteOffset idx))
      then Err (ErrorMsg ''%v is out of range for bitfield'')
      else Set_piece b idx)"

text \<open>The loop shared by \<^verbatim>\<open>MissingPieces\<close> and \<^verbatim>\<open>ExistingPieces\<close>: \<open>i\<close> is the loop variable,
  \<open>n\<close> the number of rounds left, \<open>want\<close> the state of the bit that is collected.\<close>

fun pieces_loop :: "bool \<Rightarrow> BitField \<Rightarrow> nat \<Rightarrow> nat \<Rightarrow> u32 list \<Rightarrow> u32 list outcome" where
  "pieces_loop want b i 0 pieces = Ok pieces"
| "pieces_loop want b i (Suc n) pieces =
     obind (Check b (of_nat i)) (\<lambda>x.
     pieces_loop want b (Suc i) n (if x = want then pieces @ [of_nat i] else pieces))"

definition MissingPieces :: "BitField \<Rightarrow> u32 list outcome" where
  "MissingPieces b = pieces_loop False b 0 (nat (numPieces b)) []"

definition ExistingPieces :: "BitField \<Rightarrow> u32 list outcome" where
  "ExistingPieces b = pieces_loop True b 0 (nat (numPieces b)) []"

definition Clone :: "BitField \<Rightarrow> bytes" where
  "Clone b = bits b"

definition Len :: "BitField \<Rightarrow> nat" where
  "Len b = length (bits b)"

definition Overwrite :: "BitField \<Rightarrow> bytes \<Rightarrow> BitField outcome" where
  "Overwrite b other =
     (if length (bits b) \<noteq> length other then Panic ''invalid bitfield overwrite''
      else Ok (b\<lparr>bits := other\<rparr>))"

section \<open>Invariant and abstraction\<close>

definition bf_wf :: "BitField \<Rightarrow> bool" where
  "bf_wf b \<longleftrightarrow> 0 \<le> numPieces b \<and> numPieces b \<le> 2 ^ 32
     \<and> int (length (bits b)) = (numPieces b + 7) div 8"

definition bf_count :: "BitField \<Rightarrow> nat" where
  "bf_count b = nat (numPieces b)"

definition have_set :: "BitField \<Rightarrow> nat set" where
  "have_set b = {i. i < bf_count b \<and> Check b (of_nat i) = Ok True}"

section \<open>The interface\<close>

lemma unat_of_nat_u32: "n < 2 ^ 32 \<Longrightarrow> unat (of_nat n :: u32) = n"
  by (simp add: unat_of_nat)

lemma of_nat_unat_u32: "of_nat (unat (w :: u32)) = w"
  by simp

locale piece_set =
  fixes check :: "'s \<Rightarrow> u32 \<Rightarrow> bool outcome"
    and store :: "'s \<Rightarrow> u32 \<Rightarrow> 's outcome"
    and missing :: "'s \<Rightarrow> u32 list outcome"
    and existing :: "'s \<Rightarrow> u32 list outcome"
    and count :: "'s \<Rightarrow> nat"
    and wf :: "'s \<Rightarrow> bool"
  assumes count_bound: "wf s \<Longrightarrow> count s \<le> 2 ^ 32"
    and check_total: "wf s \<Longrightarrow> unat i < count s \<Longrightarrow> \<exists>x. check s i = Ok x"
    and store_total: "wf s \<Longrightarrow> unat i < count s \<Longrightarrow> \<exists>s'. store s i = Ok s'"
    and store_wf: "wf s \<Longrightarrow> store s i = Ok s' \<Longrightarrow> wf s' \<and> count s' = count s"
    and check_store: "wf s \<Longrightarrow> store s i = Ok s' \<Longrightarrow> unat j < count s \<Longrightarrow>
      check s' j = (if j = i then Ok True else check s j)"
    and missing_eq: "wf s \<Longrightarrow>
      missing s = Ok (filter (\<lambda>i. check s i = Ok False) (map of_nat [0..<count s]))"
    and existing_eq: "wf s \<Longrightarrow>
      existing s = Ok (filter (\<lambda>i. check s i = Ok True) (map of_nat [0..<count s]))"
begin

lemma piece_numbers: "wf s \<Longrightarrow> set (map of_nat [0..<count s]) = {i :: u32. unat i < count s}"
proof -
  assume "wf s"
  then have "count s \<le> 2 ^ 32" by (rule count_bound)
  then have "unat (of_nat n :: u32) < count s" if "n < count s" for n
    using that by (simp add: unat_of_nat_u32)
  moreover have "i \<in> of_nat ` {0..<count s}" if "unat i < count s" for i :: u32
    using that of_nat_unat_u32 [of i] by (metis atLeastLessThan_iff imageI le0)
  ultimately show ?thesis by auto
qed

lemma listings_partition:
  assumes "wf s" and "missing s = Ok ms" and "existing s = Ok es"
  shows "set ms \<union> set es = {i. unat i < count s} \<and> set ms \<inter> set es = {}"
proof -
  have "check s i = Ok True \<longleftrightarrow> check s i \<noteq> Ok False" if "unat i < count s" for i
    using check_total [OF assms(1) that] by auto
  then show ?thesis
    using assms piece_numbers [OF assms(1)] by (auto simp: missing_eq existing_eq)
qed

lemma distinct_piece_numbers: "wf s \<Longrightarrow> distinct (map of_nat [0..<count s] :: u32 list)"
proof -
  assume "wf s"
  then have "count s \<le> 2 ^ 32" by (rule count_bound)
  then have "inj_on (of_nat :: nat \<Rightarrow> u32) {0..<count s}"
    by (intro inj_on_inverseI [where g = unat]) (simp add: unat_of_nat_u32)
  then show ?thesis by (simp add: distinct_map)
qed

lemma missing_after_store:
  assumes "wf s" and "store s i = Ok s'" and "missing s = Ok ms"
  shows "missing s' = Ok (filter (\<lambda>j. j \<noteq> i) ms)"
proof -
  have "filter (\<lambda>j. check s' j = Ok False) (map of_nat [0..<count s])
      = filter (\<lambda>j. j \<noteq> i \<and> check s j = Ok False) (map of_nat [0..<count s])"
    using assms(1,2) piece_numbers [OF assms(1)]
    by (intro filter_cong refl) (auto simp: check_store)
  then show ?thesis
    using assms store_wf [OF assms(1,2)] by (auto simp: missing_eq conj_commute)
qed

lemma existing_after_store:
  assumes "wf s" and "store s i = Ok s'" and "existing s = Ok es" and "unat i < count s"
  shows "\<exists>es'. existing s' = Ok es' \<and> set es' = insert i (set es)"
  using assms store_wf [OF assms(1,2)] piece_numbers [OF assms(1)] 
  by (auto simp: existing_eq check_store [OF assms(1,2)] split: if_splits)

end

section \<open>The interpretation on the bit operations\<close>

lemma unat_byteOffset: "unat (byteOffset i) = unat i div 8"
  by (simp add: byteOffset_def unat_div)

lemma piece_mask_shift: "unat (7 - bitOffset i) = 7 - unat i mod 8"
proof -
  have "unat (bitOffset i) = unat i mod 8" by (simp add: bitOffset_def unat_mod)
  then have "bitOffset i \<le> 7" by (simp add: word_le_nat_alt)
  then show ?thesis using \<open>unat (bitOffset i) = unat i mod 8\<close> by (simp add: unat_sub)
qed

lemma Check_eq:
  "Check b i = (if unat i div 8 < length (bits b)
     then Ok (bit (bits b ! (unat i div 8)) (7 - unat i mod 8)) else Panic ''index out of range'')"
  by (simp add: Check_def byte_of_def index_at_def of_bytes_def unat_byteOffset piece_mask_def
      piece_mask_shift bit_iff_and_push_bit_not_eq_0)

lemma Set_piece_eq:
  "Set_piece b i = (if unat i div 8 < length (bits b)
     then Ok (b\<lparr>bits := (bits b)[unat i div 8 :=
       bits b ! (unat i div 8) OR push_bit (7 - unat i mod 8) 1]\<rparr>)
     else Panic ''index out of range'')"
  by (simp add: Set_piece_def byte_of_def index_at_def of_bytes_def unat_byteOffset piece_mask_def
      piece_mask_shift)

lemma bf_wf_index: "bf_wf b \<Longrightarrow> unat i < bf_count b \<Longrightarrow> unat i div 8 < length (bits b)"
  by (auto simp: bf_wf_def bf_count_def)

lemma Check_Set_piece:
  assumes "Set_piece b i = Ok b'" and "unat j div 8 < length (bits b)"
  shows "Check b' j = (if j = i then Ok True else Check b j)"
proof -
  from assms have b': "b' = b\<lparr>bits := (bits b)[unat i div 8 :=
      bits b ! (unat i div 8) OR push_bit (7 - unat i mod 8) 1]\<rparr>"
    and i: "unat i div 8 < length (bits b)"
    by (auto simp: Set_piece_eq split: if_splits)
  have "j = i \<longleftrightarrow> unat j div 8 = unat i div 8 \<and> 7 - unat j mod 8 = 7 - unat i mod 8"
  proof
    assume h: "unat j div 8 = unat i div 8 \<and> 7 - unat j mod 8 = 7 - unat i mod 8"
    have "unat j mod 8 < 8" "unat i mod 8 < 8" by simp_all
    with h have "unat j mod 8 = unat i mod 8" by linarith
    with h have "unat j = unat i" by (metis div_mult_mod_eq)
    then show "j = i" by (simp add: word_unat_eq_iff)
  qed simp
  then show ?thesis
    using assms(2) i by (auto simp: Check_eq b' nth_list_update bit_or_iff bit_exp_iff)
qed

lemma pieces_loop_eq:
  assumes "\<And>k. k < m \<Longrightarrow> \<exists>x. Check b (of_nat k) = Ok x"
  shows "i + n \<le> m \<Longrightarrow> pieces_loop want b i n acc
    = Ok (acc @ filter (\<lambda>k. Check b k = Ok want) (map of_nat [i..<i + n]))"
proof (induction n arbitrary: i acc)
  case 0
  then show ?case by simp
next
  case (Suc n)
  then obtain x where "Check b (of_nat i) = Ok x" using assms [of i] by auto
  moreover have "[i..<i + Suc n] = i # [Suc i..<Suc i + n]" by (simp add: upt_conv_Cons)
  ultimately show ?case using Suc by (cases "x = want") auto
qed

lemma Check_total_nat:
  assumes "bf_wf b" and "k < bf_count b"
  shows "\<exists>x. Check b (of_nat k) = Ok x"
proof -
  have "k < 2 ^ 32" using assms by (auto simp: bf_wf_def bf_count_def)
  then have "unat (of_nat k :: u32) < bf_count b" using assms(2) by (simp add: unat_of_nat_u32)
  with bf_wf_index [OF assms(1)] show ?thesis by (simp add: Check_eq)
qed

interpretation bf: piece_set Check Set_piece MissingPieces ExistingPieces bf_count bf_wf
proof
  fix s :: BitField and i j s'
  assume wf: "bf_wf s"
  show "bf_count s \<le> 2 ^ 32" using wf by (simp add: bf_wf_def bf_count_def nat_le_iff)
  show "unat i < bf_count s \<Longrightarrow> \<exists>x. Check s i = Ok x"
    using bf_wf_index [OF wf] by (simp add: Check_eq)
  show "unat i < bf_count s \<Longrightarrow> \<exists>s'. Set_piece s i = Ok s'"
    using bf_wf_index [OF wf] by (simp add: Set_piece_eq)
  show "Set_piece s i = Ok s' \<Longrightarrow> bf_wf s' \<and> bf_count s' = bf_count s"
    using wf by (auto simp: Set_piece_eq bf_wf_def bf_count_def split: if_splits)
  show "Set_piece s i = Ok s' \<Longrightarrow> unat j < bf_count s \<Longrightarrow>
      Check s' j = (if j = i then Ok True else Check s j)"
    using bf_wf_index [OF wf] by (intro Check_Set_piece)
  show "MissingPieces s = Ok (filter (\<lambda>i. Check s i = Ok False) (map of_nat [0..<bf_count s]))"
    using pieces_loop_eq [of "bf_count s" s 0 "bf_count s"] Check_total_nat [OF wf]
    by (simp add: MissingPieces_def bf_count_def)
  show "ExistingPieces s = Ok (filter (\<lambda>i. Check s i = Ok True) (map of_nat [0..<bf_count s]))"
    using pieces_loop_eq [of "bf_count s" s 0 "bf_count s"] Check_total_nat [OF wf]
    by (simp add: ExistingPieces_def bf_count_def)
qed

lemma NewBitfield_wf:
  assumes "0 \<le> n" and "n \<le> 2 ^ 32" and "NewBitfield n = Ok b"
  shows "bf_wf b \<and> numPieces b = n"
  using assms by (auto simp: NewBitfield_def Let_def bf_wf_def split: if_splits)

lemma NewBitfield_total: "0 \<le> n \<Longrightarrow> \<exists>b. NewBitfield n = Ok b"
  by (simp add: NewBitfield_def Let_def)

lemma NewBitfield_empty:
  assumes "0 \<le> n" and "n \<le> 2 ^ 32" and b: "NewBitfield n = Ok b" and "unat i < bf_count b"
  shows "Check b i = Ok False"
proof -
  have "unat i div 8 < length (bits b)"
    using NewBitfield_wf [OF assms(1-3)] assms(4) bf_wf_index by blast
  with b show ?thesis by (auto simp: Check_eq NewBitfield_def Let_def split: if_splits)
qed

lemma Overwrite_wf: "bf_wf b \<Longrightarrow> Overwrite b other = Ok b' \<Longrightarrow> bf_wf b' \<and> numPieces b' = numPieces b"
  by (auto simp: Overwrite_def bf_wf_def split: if_splits)

lemma SetWithCheck_wf:
  assumes "bf_wf b"
  shows "SetWithCheck b i = (if unat i < bf_count b then Set_piece b i
    else Err (ErrorMsg ''trying to set bits that do not belong to the torrent''))"
proof -
  have "numPieces b \<le> int (unat i) \<longleftrightarrow> \<not> unat i < bf_count b"
    unfolding bf_count_def by linarith
  moreover have "int (length (bits b)) - 1 < int (unat (byteOffset i)) \<longleftrightarrow> \<not> unat i div 8 < length (bits b)"
    unfolding unat_byteOffset by linarith
  ultimately show ?thesis
    using bf_wf_index [OF assms, of i] unfolding SetWithCheck_def by simp
qed

lemma have_set_Set_piece:
  assumes "bf_wf b" and "Set_piece b i = Ok b'" and "unat i < bf_count b"
  shows "have_set b' = insert (unat i) (have_set b)"
proof -
  have bound: "k < 2 ^ 32" if "k < bf_count b" for k
    using that bf.count_bound [OF assms(1)] by simp
  have eq: "(of_nat k = i) \<longleftrightarrow> k = unat i" if "k < bf_count b" for k
    using unat_of_nat_u32 [OF bound [OF that]] by auto
  have chk: "Check b' (of_nat k) = (if of_nat k = i then Ok True else Check b (of_nat k))"
    if "k < bf_count b" for k
    using that unat_of_nat_u32 [OF bound [OF that]] by (intro bf.check_store [OF assms(1,2)]) simp
  show ?thesis
    using bf.store_wf [OF assms(1,2)] chk chk [of "unat i"] eq assms(3) by (auto simp: have_set_def)
qed

lemma listing_have_set:
  assumes "bf_wf b"
  shows "filter (\<lambda>i. Check b i = Ok True) (map of_nat [0..<bf_count b])
    = map of_nat (sorted_list_of_set (have_set b))"
proof -
  have "sorted_list_of_set (have_set b) = filter (\<lambda>i. Check b (of_nat i) = Ok True) [0..<bf_count b]"
    by (rule sorted_distinct_set_unique) (auto simp: have_set_def intro: sorted_wrt_filter)
  then show ?thesis by (simp add: filter_map comp_def)
qed

lemma check_piece:
  assumes "bf_wf b" and "unat i < bf_count b"
  shows "Check b i = Ok (unat i \<in> have_set b)"
  using bf.check_total [OF assms] assms(2) by (auto simp: have_set_def)

lemma listing_missing:
  assumes "bf_wf b"
  shows "filter (\<lambda>i. Check b i = Ok False) (map of_nat [0..<bf_count b])
    = map of_nat (sorted_list_of_set ({..<bf_count b} - have_set b))"
proof -
  have "Check b (of_nat i) = Ok False \<longleftrightarrow> Check b (of_nat i) \<noteq> Ok True" if "i < bf_count b" for i
    using that check_piece [OF assms, of "of_nat i"] bf.count_bound [OF assms] by (simp add: unat_of_nat_u32)
  then have "sorted_list_of_set ({..<bf_count b} - have_set b) = filter (\<lambda>i. Check b (of_nat i) = Ok False) [0..<bf_count b]"
    by (intro sorted_distinct_set_unique) (auto simp: have_set_def intro: sorted_wrt_filter)
  then show ?thesis by (simp add: filter_map comp_def)
qed

lemma existing_pieces:
  assumes "bf_wf b"
  shows "\<exists>es. ExistingPieces b = Ok es \<and> distinct es \<and> unat ` set es = have_set b"
proof -
  let ?es = "filter (\<lambda>i. Check b i = Ok True) (map of_nat [0..<bf_count b])"
  have "set ?es = {i. unat i < bf_count b \<and> unat i \<in> have_set b}"
    using bf.piece_numbers [OF assms] check_piece [OF assms] by auto
  moreover have "x = unat (of_nat x :: u32)" "x < bf_count b" if "x \<in> have_set b" for x
    using that bf.count_bound [OF assms] by (auto simp: have_set_def unat_of_nat_u32)
  ultimately have "unat ` set ?es = have_set b" by (force simp: image_iff)
  with bf.existing_eq [OF assms] bf.distinct_piece_numbers [OF assms] show ?thesis by auto
qed

lemma missing_pieces:
  assumes "bf_wf b"
  shows "\<exists>ms. MissingPieces b = Ok ms \<and> distinct ms \<and> unat ` set ms = {..<bf_count b} - have_set b"
proof -
  let ?ms = "filter (\<lambda>i. Check b i = Ok False) (map of_nat [0..<bf_count b])"
  have "set ?ms = {i. unat i < bf_count b \<and> unat i \<notin> have_set b}"
    using bf.piece_numbers [OF assms] check_piece [OF assms] by auto
  moreover have "x = unat (of_nat x :: u32)" if "x < bf_count b" for x
    using that bf.count_bound [OF assms] by (auto simp: unat_of_nat_u32)
  ultimately have "unat ` set ?ms = {..<bf_count b} - have_set b" by (force simp: image_iff)
  with bf.missing_eq [OF assms] bf.distinct_piece_numbers [OF assms] show ?thesis by auto
qed

section \<open>Properties\<close>

text \<open>
  C17. \<open>Set_piece\<close> implements insertion into a set: for a piece of the torrent it succeeds, keeps
  the invariant, and the field then stands for the old set with that piece added, no other piece
  changed.
\<close>

theorem bitfield_set_refines_insert:
  assumes "bf_wf b" and "unat i < bf_count b"
  shows "\<exists>b'. Set_piece b i = Ok b' \<and> bf_wf b' \<and> bf_count b' = bf_count b
    \<and> have_set b' = insert (unat i) (have_set b)"
proof -
  from bf.store_total [OF assms] obtain b' where b': "Set_piece b i = Ok b'" by blast
  with bf.store_wf [OF assms(1)] have_set_Set_piece [OF assms(1)] assms(2) show ?thesis by blast
qed

theorem bitfield_set_refines_insert_witness:
  "\<exists>b'. Set_piece \<lparr>bits = [0, 0], numPieces = 9\<rparr> 8 = Ok b' \<and> 8 \<in> have_set b'"
  using bitfield_set_refines_insert [of "\<lparr>bits = [0, 0], numPieces = 9\<rparr>" 8]
  by (auto simp: bf_wf_def bf_count_def)

text \<open>
  C21. The two listings enumerate the set and its complement in increasing order, each piece once,
  and neither panics: a piece of the torrent is in exactly one of them.
\<close>

theorem bitfield_listings:
  assumes "bf_wf b"
  shows "ExistingPieces b = Ok (map of_nat (sorted_list_of_set (have_set b)))
    \<and> MissingPieces b = Ok (map of_nat (sorted_list_of_set ({..<bf_count b} - have_set b)))
    \<and> (\<exists>ms es. MissingPieces b = Ok ms \<and> ExistingPieces b = Ok es \<and> sorted ms \<and> sorted es \<and> distinct (ms @ es)
        \<and> set ms \<union> set es = {i. unat i < bf_count b})"
proof -
  have "sorted (map of_nat [0..<bf_count b] :: u32 list)"
    using bf.count_bound [OF assms] by (simp add: sorted_iff_nth_mono word_le_nat_alt unat_of_nat_u32)
  then have sorted: "sorted (filter P (map of_nat [0..<bf_count b]) :: u32 list)" for P
    by (rule sorted_wrt_filter)
  from bf.missing_eq [OF assms] bf.existing_eq [OF assms] obtain ms es where
    l: "MissingPieces b = Ok ms" "ExistingPieces b = Ok es" by blast
  have "distinct ms \<and> distinct es" "sorted ms \<and> sorted es"
    using l bf.distinct_piece_numbers [OF assms] sorted by (auto simp: bf.missing_eq [OF assms] bf.existing_eq [OF assms])
  with bf.listings_partition [OF assms l] l show ?thesis
    using listing_have_set [OF assms] listing_missing [OF assms] bf.existing_eq [OF assms] bf.missing_eq [OF assms] by auto
qed

theorem bitfield_listings_witness:
  "ExistingPieces \<lparr>bits = [129, 64], numPieces = 10\<rparr> = Ok [0, 7, 9]
    \<and> (\<exists>ms. MissingPieces \<lparr>bits = [129, 64], numPieces = 10\<rparr> = Ok ms \<and> ms = [1, 2, 3, 4, 5, 6, 8] \<and> sorted ms)"
proof -
  let ?b = "\<lparr>bits = [129, 64], numPieces = 10\<rparr>"
  have wf: "bf_wf ?b" by (simp add: bf_wf_def)
  have "ExistingPieces ?b = Ok [0, 7, 9]" "MissingPieces ?b = Ok [1, 2, 3, 4, 5, 6, 8]" by code_simp+
  with bitfield_listings [OF wf] show ?thesis by auto
qed

text \<open>
  C22. Bounds: \<open>SetWithCheck\<close> never panics on a well-formed field, whatever index a peer sends,
  and refuses exactly the indices that are no pieces of the torrent; \<open>Check\<close> and \<open>Set_piece\<close>
  have no such guard and panic exactly when the index lies past the last byte.
\<close>

theorem bitfield_bounds:
  assumes "bf_wf b"
  shows "((\<exists>b'. SetWithCheck b i = Ok b' \<and> bf_wf b' \<and> unat i < bf_count b)
      \<or> (\<exists>e. SetWithCheck b i = Err e \<and> bf_count b \<le> unat i))
    \<and> (is_panic (Check b i) \<longleftrightarrow> 8 * length (bits b) \<le> unat i)
    \<and> (is_panic (Set_piece b i) \<longleftrightarrow> 8 * length (bits b) \<le> unat i)"
proof -
  have "(\<exists>b'. SetWithCheck b i = Ok b' \<and> bf_wf b' \<and> unat i < bf_count b)
      \<or> (\<exists>e. SetWithCheck b i = Err e \<and> bf_count b \<le> unat i)"
    using bf.store_total [OF assms, of i] bf.store_wf [OF assms, of i] SetWithCheck_wf [OF assms, of i]
    by (cases "unat i < bf_count b") auto
  moreover have "unat i div 8 < length (bits b) \<longleftrightarrow> unat i < 8 * length (bits b)" by linarith
  then have "is_panic (Check b i) \<longleftrightarrow> 8 * length (bits b) \<le> unat i"
    and "is_panic (Set_piece b i) \<longleftrightarrow> 8 * length (bits b) \<le> unat i"
    by (auto simp: Check_eq Set_piece_eq)
  ultimately show ?thesis by blast
qed

theorem bitfield_bounds_witness:
  "is_panic (Check \<lparr>bits = [0], numPieces = 3\<rparr> 8)"
  using bitfield_bounds [of "\<lparr>bits = [0], numPieces = 3\<rparr>" 8] by (simp add: bf_wf_def)

end
