(* ===== verification/Messages.thy ===== *)
theory Messages
  imports Prelude
begin

text \<open>
  Package \<^verbatim>\<open>p2p/messagesv1\<close>: the handshake and the length-prefixed messages of the BitTorrent v1
  wire protocol, and \<open>Identify\<close>, which cuts the next message off a byte stream.

  A connection is read as \<open>reader\<close>: the bytes that will still arrive and the error that a read
  returns once they are used up. \<open>frame\<close> is the wire format; the locale \<open>wire_message\<close> states
  what the reading side needs of a message kind (its encoder writes a frame of its type, its decoder
  inverts the payload) and derives that \<open>Identify\<close> followed by the decoder reads the message back
  and leaves the stream at the next frame. It is interpreted on all six kinds that have a payload.
\<close>

section \<open>Types\<close>

datatype MessageType =
    KeepAliveType | ChokeType | UnChokeType | InterestType | NotInterestType | HaveType
  | BitfieldType | RequestType | PieceType | CancelType | PortType

fun type_byte :: "MessageType \<Rightarrow> byte" where
  "type_byte KeepAliveType = 255"
| "type_byte ChokeType = 0"
| "type_byte UnChokeType = 1"
| "type_byte InterestType = 2"
| "type_byte NotInterestType = 3"
| "type_byte HaveType = 4"
| "type_byte BitfieldType = 5"
| "type_byte RequestType = 6"
| "type_byte PieceType = 7"
| "type_byte CancelType = 8"
| "type_byte PortType = 9"

record Message =
  msg_type :: MessageType
  msg_payload :: bytes

record Have =
  have_index :: u32

record Bitfield_msg =
  bitfield_bits :: bytes

record Port =
  port_number :: u16

record Request =
  req_index :: u32
  req_begin :: u32
  req_length :: u32

record Cancel =
  cnc_index :: u32
  cnc_begin :: u32
  cnc_length :: u32

record Piece =
  pc_index :: u32
  pc_begin :: u32
  pc_block :: bytes

record Handshake =
  hs_pstr :: bytes
  hs_reserved :: bytes
  hs_info_hash :: bytes
  hs_peer_id :: bytes

section \<open>base_messages.go\<close>

definition KeepAlive_Serialize :: bytes where
  "KeepAlive_Serialize = [0, 0, 0, 0]"

definition Choke_Serialize :: bytes where
  "Choke_Serialize = PutUint32 1 @ [type_byte ChokeType]"

definition Unchoke_Serialize :: bytes where
  "Unchoke_Serialize = PutUint32 1 @ [type_byte UnChokeType]"

definition Interest_Serialize :: bytes where
  "Interest_Serialize = PutUint32 1 @ [type_byte InterestType]"

definition NotInterest_Serialize :: bytes where
  "NotInterest_Serialize = PutUint32 1 @ [type_byte NotInterestType]"

definition Have_Serialize :: "Have \<Rightarrow> bytes" where
  "Have_Serialize h = PutUint32 (1 + 4) @ [type_byte HaveType] @ PutUint32 (have_index h)"

definition Have_Deserialize :: "bytes \<Rightarrow> Have outcome" where
  "Have_Deserialize b =
     (if length b \<noteq> 4 then Err (ErrorMsg ''invalid payload length'')
      else Ok \<lparr>have_index = Uint32 b\<rparr>)"

definition Bitfield_Serialize :: "Bitfield_msg \<Rightarrow> bytes" where
  "Bitfield_Serialize b =
     PutUint32 (1 + of_nat (length (bitfield_bits b))) @ [type_byte BitfieldType] @ bitfield_bits b"

definition Bitfield_Deserialize :: "bytes \<Rightarrow> Bitfield_msg outcome" where
  "Bitfield_Deserialize payload = Ok \<lparr>bitfield_bits = payload\<rparr>"

definition Port_Serialize :: "Port \<Rightarrow> bytes" where
  "Port_Serialize p = PutUint32 (1 + 2) @ [type_byte PortType] @ PutUint16 (port_number p)"

definition Port_Deserialize :: "bytes \<Rightarrow> Port outcome" where
  "Port_Deserialize msg =
     (if length msg \<noteq> 2 then Err (ErrorMsg ''invalid payload length'')
      else Ok \<lparr>port_number = Uint16 (take 2 msg)\<rparr>)"

section \<open>request.go, cancel.go, piece.go\<close>

definition RequestSize :: int where
  "RequestSize = 1024 * 16"

definition Request_Serialize :: "Request \<Rightarrow> bytes" where
  "Request_Serialize r =
     PutUint32 (1 + 4 + 4 + 4) @ [type_byte RequestType] @ PutUint32 (req_index r)
       @ PutUint32 (req_begin r) @ PutUint32 (req_length r)"

definition Request_Validate :: "Request \<Rightarrow> unit outcome" where
  "Request_Validate r =
     (if 16 * 1024 < req_length r then Err (ErrorMsg ''length is not 2^14kb'') else Ok ())"

definition Request_Deserialize :: "bytes \<Rightarrow> Request outcome" where
  "Request_Deserialize data =
     (if length data \<noteq> 12 then Err (ErrorMsg ''wrong length'')
      else
        let r = \<lparr>req_index = Uint32 (take 4 data), req_begin = Uint32 (take 4 (drop 4 data)),
                 req_length = Uint32 (take 4 (drop 8 data))\<rparr>
        in obind (Request_Validate r) (\<lambda>_. Ok r))"

definition Cancel_Serialize :: "Cancel \<Rightarrow> bytes" where
  "Cancel_Serialize r =
     PutUint32 (1 + 4 + 4 + 4) @ [type_byte CancelType] @ PutUint32 (cnc_index r)
       @ PutUint32 (cnc_begin r) @ PutUint32 (cnc_length r)"

definition Cancel_Validate :: "Cancel \<Rightarrow> unit outcome" where
  "Cancel_Validate r =
     (if 16 * 1024 < cnc_length r then Err (ErrorMsg ''length is not 2^14kb'') else Ok ())"

definition Cancel_Deserialize :: "bytes \<Rightarrow> Cancel outcome" where
  "Cancel_Deserialize data =
     (if length data \<noteq> 12 then Err (ErrorMsg ''wrong length'')
      else
        let r = \<lparr>cnc_index = Uint32 (take 4 data), cnc_begin = Uint32 (take 4 (drop 4 data)),
                 cnc_length = Uint32 (take 4 (drop 8 data))\<rparr>
        in obind (Cancel_Validate r) (\<lambda>_. Ok r))"

definition Piece_Serialize :: "Piece \<Rightarrow> bytes" where
  "Piece_Serialize p =
     PutUint32 (of_nat (1 + 4 + 4 + length (pc_block p))) @ [type_byte PieceType]
       @ PutUint32 (pc_index p) @ PutUint32 (pc_begin p) @ pc_block p"

definition Piece_Deserialize :: "bytes \<Rightarrow> Piece outcome" where
  "Piece_Deserialize msg =
     (if length msg < 9 then Err (ErrorMsg ''message too short'')
      else Ok \<lparr>pc_index = Uint32 (take 4 msg), pc_begin = Uint32 (take 4 (drop 4 msg)),
               pc_block = drop 8 msg\<rparr>)"

section \<open>handshake.go\<close>

definition ProtocolV1 :: bytes where
  "ProtocolV1 = str ''BitTorrent protocol''"

definition HandshakeLength :: nat where
  "HandshakeLength = 49 + length ProtocolV1"

definition Handshake_Serialize :: "Handshake \<Rightarrow> bytes outcome" where
  "Handshake_Serialize h =
     (let msg = of_nat (length (hs_pstr h)) # hs_pstr h @ hs_reserved h @ hs_info_hash h
                  @ hs_peer_id h
      in if length msg \<noteq> HandshakeLength
         then Panic ''invalid BitTorrent V1 handshake message.''
         else Ok msg)"

definition Handshake_Validate :: "Handshake \<Rightarrow> unit outcome" where
  "Handshake_Validate h =
     (if hs_pstr h \<noteq> ProtocolV1
      then Err (ErrorMsg ''invalid BitTorrent V1 handshake message, unsupported pstr'')
      else if length (hs_info_hash h) \<noteq> 20
      then Err (ErrorMsg ''invalid BitTorrent V1 handshake message, invalid info_hash length'')
      else if length (hs_peer_id h) \<noteq> 20
      then Err (ErrorMsg ''invalid BitTorrent V1 handshake message, invalid peer_id length'')
      else Ok ())"

text \<open>Both callers pass a slice of an array of \<open>HandshakeLength\<close> bytes, so its capacity is its
  length.\<close>

definition Handshake_Deserialize :: "bytes \<Rightarrow> Handshake outcome" where
  "Handshake_Deserialize data =
     (if length data \<noteq> HandshakeLength then Err (ErrorMsg ''invalid handshake message length'')
      else
        let d = of_bytes data; rs = 1 + int (unat (data ! 0)); re = rs + 8; he = re + 20;
            pe = he + 20
        in obind (reslice d 1 rs) (\<lambda>pstr.
           obind (reslice d rs re) (\<lambda>reserved.
           obind (reslice d re he) (\<lambda>hash.
           obind (reslice d he pe) (\<lambda>peer.
           let h = \<lparr>hs_pstr = pstr, hs_reserved = reserved, hs_info_hash = hash, hs_peer_id = peer\<rparr>
           in obind (Handshake_Validate h) (\<lambda>_. Ok h))))))"

section \<open>decode.go\<close>

record reader =
  rdata :: bytes
  rerr :: error

definition ReadFull :: "nat \<Rightarrow> reader \<Rightarrow> bytes outcome \<times> reader" where
  "ReadFull n r =
     (if n \<le> length (rdata r) then (Ok (take n (rdata r)), r\<lparr>rdata := drop n (rdata r)\<rparr>)
      else (Err (if rdata r \<noteq> [] \<and> rerr r = IoEOF then UnexpectedEOF else rerr r),
            r\<lparr>rdata := []\<rparr>))"

definition payload_type :: "byte \<Rightarrow> (MessageType \<times> bool) option" where
  "payload_type mid =
     (if mid = 0 then Some (ChokeType, False)
      else if mid = 1 then Some (UnChokeType, False)
      else if mid = 2 then Some (InterestType, False)
      else if mid = 3 then Some (NotInterestType, False)
      else if mid = 4 then Some (HaveType, True)
      else if mid = 5 then Some (BitfieldType, True)
      else if mid = 6 then Some (RequestType, True)
      else if mid = 7 then Some (PieceType, True)
      else if mid = 8 then Some (CancelType, True)
      else if mid = 9 then Some (PortType, True)
      else None)"

definition Identify :: "reader \<Rightarrow> Message outcome \<times> reader" where
  "Identify r0 =
     (case ReadFull 4 r0 of
        (Err e, r) \<Rightarrow> (Err (Wrapped ''failed to read message length: '' e), r)
      | (Panic p, r) \<Rightarrow> (Panic p, r)
      | (Ok len, r) \<Rightarrow>
          if length len \<noteq> 4 then (Err (ErrorMsg ''failed to fully read message length''), r)
          else if Uint32 len = 0 then (Ok \<lparr>msg_type = KeepAliveType, msg_payload = []\<rparr>, r)
          else (case ReadFull 1 r of
            (Err e, r) \<Rightarrow> (Err (Wrapped ''failed to read message ID: '' e), r)
          | (Panic p, r) \<Rightarrow> (Panic p, r)
          | (Ok mid, r) \<Rightarrow>
              if length mid \<noteq> 1 then (Err (ErrorMsg ''failed to fully read message ID''), r)
              else
                let l = Uint32 len - 1 in
                (case ReadFull (unat l) r of
                  (Err e, r) \<Rightarrow> (Err (Wrapped ''failed to read message payload: '' e), r)
                | (Panic p, r) \<Rightarrow> (Panic p, r)
                | (Ok payload, r) \<Rightarrow>
                    if length payload \<noteq> unat l
                    then (Err (ErrorMsg ''failed to fully read message payload''), r)
                    else (case payload_type (mid ! 0) of
                      Some (typ, False) \<Rightarrow> (Ok \<lparr>msg_type = typ, msg_payload = []\<rparr>, r)
                    | Some (typ, True) \<Rightarrow> (Ok \<lparr>msg_type = typ, msg_payload = payload\<rparr>, r)
                    | None \<Rightarrow> (Err (ErrorMsg ''unknown message id: %v''), r)))))"

section \<open>Frames\<close>

definition frame :: "byte \<Rightarrow> bytes \<Rightarrow> bytes" where
  "frame mid payload = PutUint32 (of_nat (1 + length payload)) @ mid # payload"

definition frame_fits :: "bytes \<Rightarrow> bool" where
  "frame_fits payload \<longleftrightarrow> 1 + length payload < 2 ^ 32"

lemma ReadFull_append [simp]:
  "length xs = n \<Longrightarrow> ReadFull n \<lparr>rdata = xs @ ys, rerr = e\<rparr> = (Ok xs, \<lparr>rdata = ys, rerr = e\<rparr>)"
  by (simp add: ReadFull_def)

lemma ReadFull_Cons [simp]:
  "ReadFull (Suc 0) \<lparr>rdata = x # ys, rerr = e\<rparr> = (Ok [x], \<lparr>rdata = ys, rerr = e\<rparr>)"
  by (simp add: ReadFull_def)

lemma frame_length_word:
  assumes "frame_fits payload"
  shows "(of_nat (1 + length payload) :: u32) \<noteq> 0"
    and "unat ((of_nat (1 + length payload) :: u32) - 1) = length payload"
proof -
  have u: "unat (of_nat (1 + length payload) :: u32) = 1 + length payload"
    using assms by (simp only: unat_of_nat frame_fits_def) simp
  then show "(of_nat (1 + length payload) :: u32) \<noteq> 0" by (metis add_is_0 one_neq_zero unsigned_0)
  have "(of_nat (1 + length payload) :: u32) - 1 = of_nat (length payload)" by simp
  then show "unat ((of_nat (1 + length payload) :: u32) - 1) = length payload"
    using assms by (simp only: unat_of_nat frame_fits_def) simp
qed

lemma Identify_frame:
  assumes "frame_fits payload"
  shows "Identify \<lparr>rdata = frame mid payload @ rest, rerr = e\<rparr> =
    (case payload_type mid of
       None \<Rightarrow> Err (ErrorMsg ''unknown message id: %v'')
     | Some (typ, has) \<Rightarrow> Ok \<lparr>msg_type = typ, msg_payload = (if has then payload else [])\<rparr>,
     \<lparr>rdata = rest, rerr = e\<rparr>)"
  using frame_length_word [OF assms]
  by (simp add: Identify_def frame_def Uint32_PutUint32 split: option.split bool.split)

lemma payload_type_byte:
  "payload_type (type_byte t) =
     (case t of KeepAliveType \<Rightarrow> None | ChokeType \<Rightarrow> Some (t, False) | UnChokeType \<Rightarrow> Some (t, False)
      | InterestType \<Rightarrow> Some (t, False) | NotInterestType \<Rightarrow> Some (t, False) | _ \<Rightarrow> Some (t, True))"
  by (cases t) (simp_all add: payload_type_def)

definition has_payload :: "MessageType \<Rightarrow> bool" where
  "has_payload t \<longleftrightarrow>
     t \<in> {HaveType, BitfieldType, RequestType, PieceType, CancelType, PortType}"

lemma payload_type_has: "has_payload t \<Longrightarrow> payload_type (type_byte t) = Some (t, True)"
  by (auto simp: has_payload_def payload_type_def)

section \<open>The interface of a message kind\<close>

locale wire_message =
  fixes serialize :: "'m \<Rightarrow> bytes"
    and deserialize :: "bytes \<Rightarrow> 'm outcome"
    and payload :: "'m \<Rightarrow> bytes"
    and mtyp :: MessageType
    and valid :: "'m \<Rightarrow> bool"
  assumes mtyp_payload: "has_payload mtyp"
    and serialize_frame: "valid m \<Longrightarrow> serialize m = frame (type_byte mtyp) (payload m)"
    and fits: "valid m \<Longrightarrow> frame_fits (payload m)"
    and inverse: "valid m \<Longrightarrow> deserialize (payload m) = Ok m"
begin

lemma identify:
  assumes "valid m"
  shows "Identify \<lparr>rdata = serialize m @ rest, rerr = e\<rparr>
    = (Ok \<lparr>msg_type = mtyp, msg_payload = payload m\<rparr>, \<lparr>rdata = rest, rerr = e\<rparr>)"
  using Identify_frame [OF fits [OF assms]] payload_type_has [OF mtyp_payload]
  by (simp add: serialize_frame [OF assms])

lemma read_back:
  assumes "valid m"
  shows "\<exists>msg. Identify \<lparr>rdata = serialize m @ rest, rerr = e\<rparr> = (Ok msg, \<lparr>rdata = rest, rerr = e\<rparr>)
    \<and> msg_type msg = mtyp \<and> deserialize (msg_payload msg) = Ok m"
  using identify [OF assms] inverse [OF assms] by simp

lemma serialize_inj:
  assumes "valid m" and "valid m'" and "serialize m = serialize m'"
  shows "m = m'"
proof -
  have "payload m = payload m'"
    using identify [OF assms(1), of "[]" IoEOF] identify [OF assms(2), of "[]" IoEOF]
    by (simp add: assms(3))
  then show ?thesis using inverse [OF assms(1)] inverse [OF assms(2)] by (metis outcome.inject(1))
qed

end

definition request_valid :: "Request \<Rightarrow> bool" where
  "request_valid r \<longleftrightarrow> req_length r \<le> 16 * 1024"

definition cancel_valid :: "Cancel \<Rightarrow> bool" where
  "cancel_valid r \<longleftrightarrow> cnc_length r \<le> 16 * 1024"

definition piece_valid :: "Piece \<Rightarrow> bool" where
  "piece_valid p \<longleftrightarrow> pc_block p \<noteq> [] \<and> 9 + length (pc_block p) < 2 ^ 32"

definition bitfield_valid :: "Bitfield_msg \<Rightarrow> bool" where
  "bitfield_valid b \<longleftrightarrow> 1 + length (bitfield_bits b) < 2 ^ 32"

lemmas three_words = Uint32_PutUint32 Uint32_append

interpretation have_msg: wire_message Have_Serialize Have_Deserialize
  "\<lambda>h. PutUint32 (have_index h)" HaveType "\<lambda>_. True"
  by unfold_locales
    (simp_all add: has_payload_def Have_Serialize_def Have_Deserialize_def frame_def frame_fits_def
      Uint32_PutUint32)

interpretation bitfield_msg: wire_message Bitfield_Serialize Bitfield_Deserialize
  bitfield_bits BitfieldType bitfield_valid
  by unfold_locales
    (simp_all add: has_payload_def Bitfield_Serialize_def Bitfield_Deserialize_def frame_def
      frame_fits_def bitfield_valid_def)

interpretation port_msg: wire_message Port_Serialize Port_Deserialize
  "\<lambda>p. PutUint16 (port_number p)" PortType "\<lambda>_. True"
  by unfold_locales
    (simp_all add: has_payload_def Port_Serialize_def Port_Deserialize_def frame_def frame_fits_def
      Uint16_PutUint16)

interpretation request_msg: wire_message Request_Serialize Request_Deserialize
  "\<lambda>r. PutUint32 (req_index r) @ PutUint32 (req_begin r) @ PutUint32 (req_length r)"
  RequestType request_valid
  by unfold_locales
    (simp_all add: has_payload_def Request_Serialize_def Request_Deserialize_def Request_Validate_def
      frame_def frame_fits_def request_valid_def three_words Let_def linorder_not_less [symmetric])

interpretation cancel_msg: wire_message Cancel_Serialize Cancel_Deserialize
  "\<lambda>r. PutUint32 (cnc_index r) @ PutUint32 (cnc_begin r) @ PutUint32 (cnc_length r)"
  CancelType cancel_valid
  by unfold_locales
    (simp_all add: has_payload_def Cancel_Serialize_def Cancel_Deserialize_def Cancel_Validate_def
      frame_def frame_fits_def cancel_valid_def three_words Let_def linorder_not_less [symmetric])

interpretation piece_msg: wire_message Piece_Serialize Piece_Deserialize
  "\<lambda>p. PutUint32 (pc_index p) @ PutUint32 (pc_begin p) @ pc_block p" PieceType piece_valid
  by unfold_locales
    (simp_all add: has_payload_def Piece_Serialize_def Piece_Deserialize_def frame_def frame_fits_def
      piece_valid_def three_words Suc_le_eq)

section \<open>All messages of the protocol\<close>

text \<open>The messages a peer can send, their encoding and the decoder that the type of an identified
  message selects.\<close>

datatype WireMsg =
    KeepAliveMsg | ChokeMsg | UnchokeMsg | InterestMsg | NotInterestMsg
  | HaveMsg Have | BitfieldMsg Bitfield_msg | RequestMsg Request | PieceMsg Piece
  | CancelMsg Cancel | PortMsg Port

fun encode :: "WireMsg \<Rightarrow> bytes" where
  "encode KeepAliveMsg = KeepAlive_Serialize"
| "encode ChokeMsg = Choke_Serialize"
| "encode UnchokeMsg = Unchoke_Serialize"
| "encode InterestMsg = Interest_Serialize"
| "encode NotInterestMsg = NotInterest_Serialize"
| "encode (HaveMsg h) = Have_Serialize h"
| "encode (BitfieldMsg b) = Bitfield_Serialize b"
| "encode (RequestMsg r) = Request_Serialize r"
| "encode (PieceMsg p) = Piece_Serialize p"
| "encode (CancelMsg c) = Cancel_Serialize c"
| "encode (PortMsg p) = Port_Serialize p"

fun wire_valid :: "WireMsg \<Rightarrow> bool" where
  "wire_valid (BitfieldMsg b) = bitfield_valid b"
| "wire_valid (RequestMsg r) = request_valid r"
| "wire_valid (PieceMsg p) = piece_valid p"
| "wire_valid (CancelMsg c) = cancel_valid c"
| "wire_valid _ = True"

definition understand :: "Message \<Rightarrow> WireMsg outcome" where
  "understand m =
     (case msg_type m of
        KeepAliveType \<Rightarrow> Ok KeepAliveMsg
      | ChokeType \<Rightarrow> Ok ChokeMsg
      | UnChokeType \<Rightarrow> Ok UnchokeMsg
      | InterestType \<Rightarrow> Ok InterestMsg
      | NotInterestType \<Rightarrow> Ok NotInterestMsg
      | HaveType \<Rightarrow> obind (Have_Deserialize (msg_payload m)) (\<lambda>h. Ok (HaveMsg h))
      | BitfieldType \<Rightarrow> obind (Bitfield_Deserialize (msg_payload m)) (\<lambda>b. Ok (BitfieldMsg b))
      | RequestType \<Rightarrow> obind (Request_Deserialize (msg_payload m)) (\<lambda>r. Ok (RequestMsg r))
      | PieceType \<Rightarrow> obind (Piece_Deserialize (msg_payload m)) (\<lambda>p. Ok (PieceMsg p))
      | CancelType \<Rightarrow> obind (Cancel_Deserialize (msg_payload m)) (\<lambda>c. Ok (CancelMsg c))
      | PortType \<Rightarrow> obind (Port_Deserialize (msg_payload m)) (\<lambda>p. Ok (PortMsg p)))"

fun read_msgs :: "nat \<Rightarrow> reader \<Rightarrow> WireMsg outcome list \<times> reader" where
  "read_msgs 0 r = ([], r)"
| "read_msgs (Suc n) r =
     (case Identify r of (res, r') \<Rightarrow>
      case read_msgs n r' of (ms, r'') \<Rightarrow> (obind res understand # ms, r''))"

lemma no_payload_frames:
  "Choke_Serialize = frame (type_byte ChokeType) []"
  "Unchoke_Serialize = frame (type_byte UnChokeType) []"
  "Interest_Serialize = frame (type_byte InterestType) []"
  "NotInterest_Serialize = frame (type_byte NotInterestType) []"
  by (simp_all add: frame_def Choke_Serialize_def Unchoke_Serialize_def Interest_Serialize_def
      NotInterest_Serialize_def)

lemma frame_fits_Nil [simp]: "frame_fits []"
  by (simp add: frame_fits_def)

lemma Identify_KeepAlive:
  "Identify \<lparr>rdata = KeepAlive_Serialize @ rest, rerr = e\<rparr>
     = (Ok \<lparr>msg_type = KeepAliveType, msg_payload = []\<rparr>, \<lparr>rdata = rest, rerr = e\<rparr>)"
  by (simp add: Identify_def KeepAlive_Serialize_def ReadFull_def Uint32_def)

lemma Identify_encode:
  assumes "wire_valid m"
  shows "\<exists>msg. Identify \<lparr>rdata = encode m @ rest, rerr = e\<rparr> = (Ok msg, \<lparr>rdata = rest, rerr = e\<rparr>)
    \<and> understand msg = Ok m"
proof (cases m)
  case (HaveMsg h)
  then show ?thesis using have_msg.read_back [of h rest e] by (auto simp: understand_def)
next
  case (BitfieldMsg b)
  then show ?thesis using assms bitfield_msg.read_back [of b rest e] by (auto simp: understand_def)
next
  case (RequestMsg r)
  then show ?thesis using assms request_msg.read_back [of r rest e] by (auto simp: understand_def)
next
  case (PieceMsg p)
  then show ?thesis using assms piece_msg.read_back [of p rest e] by (auto simp: understand_def)
next
  case (CancelMsg c)
  then show ?thesis using assms cancel_msg.read_back [of c rest e] by (auto simp: understand_def)
next
  case (PortMsg p)
  then show ?thesis using port_msg.read_back [of p rest e] by (auto simp: understand_def)
qed (simp_all add: no_payload_frames Identify_KeepAlive Identify_frame payload_type_byte
    understand_def del: type_byte.simps)

lemma read_msgs_encode:
  "list_all wire_valid ms \<Longrightarrow>
     read_msgs (length ms) \<lparr>rdata = concat (map encode ms) @ rest, rerr = e\<rparr>
       = (map Ok ms, \<lparr>rdata = rest, rerr = e\<rparr>)"
proof (induction ms)
  case Nil
  then show ?case by simp
next
  case (Cons m ms)
  then obtain msg where "Identify \<lparr>rdata = encode m @ concat (map encode ms) @ rest, rerr = e\<rparr>
      = (Ok msg, \<lparr>rdata = concat (map encode ms) @ rest, rerr = e\<rparr>)" "understand msg = Ok m"
    using Identify_encode [of m "concat (map encode ms) @ rest" e] by auto
  with Cons show ?case by simp
qed

section \<open>Reading from a stream that ends or carries garbage\<close>

lemma ReadFull_cases:
  obtains (full) "n \<le> length (rdata r)"
      "ReadFull n r = (Ok (take n (rdata r)), r\<lparr>rdata := drop n (rdata r)\<rparr>)"
  | (short) e where "length (rdata r) < n" "ReadFull n r = (Err e, r\<lparr>rdata := []\<rparr>)"
      "rdata r = [] \<Longrightarrow> e = rerr r"
  by (cases "n \<le> length (rdata r)") (auto simp: ReadFull_def)

lemma Identify_empty:
  "rdata r = [] \<Longrightarrow> Identify r = (Err (Wrapped ''failed to read message length: '' (rerr r)), r)"
  by (cases r) (auto simp: Identify_def ReadFull_def)

text \<open>What one call leaves of the stream: it never panics, keeps the final error, and cuts off a
  prefix of the data, which is not empty unless there were no data.\<close>

definition consumes :: "reader \<Rightarrow> reader \<Rightarrow> bool" where
  "consumes r r' \<longleftrightarrow> rerr r' = rerr r \<and> (\<exists>k. rdata r' = drop k (rdata r) \<and> 0 < k)"

lemma consumes_trans: "consumes r r' \<Longrightarrow> consumes r' r'' \<Longrightarrow> consumes r r''"
  unfolding consumes_def by (metis add_gr_0 drop_drop)

lemma consumes_less: "consumes r r' \<Longrightarrow> rdata r \<noteq> [] \<Longrightarrow> length (rdata r') < length (rdata r)"
  by (auto simp: consumes_def)

lemma ReadFull_consumes:
  assumes "0 < n" and "ReadFull n r = (res, r')"
  shows "consumes r r'"
proof (cases rule: ReadFull_cases [of n r])
  case full
  with assms show ?thesis by (auto simp: consumes_def)
next
  case (short e)
  then have "rerr r' = rerr r" and "rdata r' = drop (Suc (length (rdata r))) (rdata r)"
    using assms(2) by auto
  then show ?thesis unfolding consumes_def by blast
qed

lemma ReadFull_consumes_any:
  assumes "consumes r0 r" and "ReadFull n r = (res, r')"
  shows "consumes r0 r'"
proof (cases "n = 0")
  case True
  with assms show ?thesis by (simp add: ReadFull_def)
next
  case False
  with ReadFull_consumes assms consumes_trans show ?thesis by blast
qed

lemma ReadFull_not_panic: "ReadFull n r \<noteq> (Panic p, r')"
  by (simp add: ReadFull_def)

lemma Identify_consumes:
  assumes "Identify r = (res, r')"
  shows "consumes r r' \<and> \<not> is_panic res"
proof -
  obtain res1 r1 where r1: "ReadFull 4 r = (res1, r1)" by force
  then have c1: "consumes r r1" by (intro ReadFull_consumes) auto
  obtain res2 r2 where r2: "ReadFull 1 r1 = (res2, r2)" by force
  with c1 have c2: "consumes r r2" by (rule ReadFull_consumes_any)
  have c3: "consumes r r3" if "ReadFull n r2 = (res3, r3)" for n res3 r3
    using c2 that by (rule ReadFull_consumes_any)
  show ?thesis
    using assms c1 c2 c3 r1 r2 ReadFull_not_panic
    by (auto simp: Identify_def Let_def split: prod.splits outcome.splits if_splits option.splits
        bool.splits)
qed

section \<open>Handshakes\<close>

definition handshake_wf :: "Handshake \<Rightarrow> bool" where
  "handshake_wf h \<longleftrightarrow> hs_pstr h = ProtocolV1 \<and> length (hs_reserved h) = 8
     \<and> length (hs_info_hash h) = 20 \<and> length (hs_peer_id h) = 20"

lemma length_ProtocolV1: "length ProtocolV1 = 19"
  by (simp add: ProtocolV1_def str_def)

lemma HandshakeLength_68 [simp]: "HandshakeLength = 68"
  by (simp add: HandshakeLength_def length_ProtocolV1)

lemma Handshake_Serialize_wf:
  "handshake_wf h \<Longrightarrow> Handshake_Serialize h =
     Ok (19 # ProtocolV1 @ hs_reserved h @ hs_info_hash h @ hs_peer_id h)"
  by (simp add: handshake_wf_def Handshake_Serialize_def Let_def length_ProtocolV1)

lemma Handshake_Deserialize_long:
  assumes "length data = 68" and "19 < unat (data ! 0)"
  shows "is_panic (Handshake_Deserialize data)"
proof -
  obtain n where n: "unat (data ! 0) = n" and "19 < n" using assms(2) by blast
  with assms(1) show ?thesis
    by (auto simp: Handshake_Deserialize_def Let_def reslice_def of_bytes_def n)
qed

lemma Handshake_Deserialize_short:
  assumes "length data = 68" and "unat (data ! 0) = n" and "n \<le> 19"
  shows "Handshake_Deserialize data =
    (let h = \<lparr>hs_pstr = take n (drop 1 data), hs_reserved = take 8 (drop (1 + n) data),
              hs_info_hash = take 20 (drop (9 + n) data),
              hs_peer_id = take 20 (drop (29 + n) data)\<rparr>
     in obind (Handshake_Validate h) (\<lambda>_. Ok h))"
  using assms
  by (simp add: Handshake_Deserialize_def Let_def reslice_def of_bytes_def nat_add_distrib)

lemma handshake_fields:
  assumes "length data = 68"
  shows "data = data ! 0 # take 19 (drop 1 data) @ take 8 (drop 20 data) @ take 20 (drop 28 data)
    @ take 20 (drop 48 data)"
proof -
  have "data = data ! 0 # drop 1 data" using assms by (cases data) auto
  also have "drop 1 data = take 19 (drop 1 data) @ drop 20 data"
    using append_take_drop_id [of 19 "drop 1 data"] by simp
  also have "drop 20 data = take 8 (drop 20 data) @ drop 28 data"
    using append_take_drop_id [of 8 "drop 20 data"] by simp
  also have "drop 28 data = take 20 (drop 28 data) @ drop 48 data"
    using append_take_drop_id [of 20 "drop 28 data"] by simp
  also have "drop 48 data = take 20 (drop 48 data)" using assms by simp
  finally show ?thesis by simp
qed

lemma Handshake_Deserialize_Ok:
  "Handshake_Deserialize data = Ok h \<longleftrightarrow> handshake_wf h \<and> Handshake_Serialize h = Ok data"
proof
  assume ok: "Handshake_Deserialize data = Ok h"
  then have len: "length data = 68" by (simp add: Handshake_Deserialize_def split: if_splits)
  define n where "n = unat (data ! 0)"
  have "n \<le> 19" using Handshake_Deserialize_long [OF len] ok n_def by force
  note h = ok [unfolded Handshake_Deserialize_short [OF len n_def [symmetric] this] Let_def]
  have pstr: "take n (drop 1 data) = ProtocolV1"
    using h by (auto simp: outcome_simps Handshake_Validate_def split: if_splits)
  with arg_cong [OF this, of length] len \<open>n \<le> 19\<close> have n: "n = 19"
    by (simp add: length_ProtocolV1)
  then have first: "data ! 0 = 19" using n_def by (simp add: word_unat_eq_iff)
  from h pstr n have heq: "h = \<lparr>hs_pstr = ProtocolV1, hs_reserved = take 8 (drop 20 data),
      hs_info_hash = take 20 (drop 28 data), hs_peer_id = take 20 (drop 48 data)\<rparr>"
    by (auto simp: outcome_simps)
  then have wf: "handshake_wf h" using len by (simp add: handshake_wf_def)
  have "19 # ProtocolV1 @ hs_reserved h @ hs_info_hash h @ hs_peer_id h = data"
    using handshake_fields [OF len] pstr n first by (simp add: heq)
  then have "Handshake_Serialize h = Ok data" by (simp add: Handshake_Serialize_wf [OF wf])
  with wf show "handshake_wf h \<and> Handshake_Serialize h = Ok data" ..
next
  assume "handshake_wf h \<and> Handshake_Serialize h = Ok data"
  then have wf: "handshake_wf h"
    and d: "data = 19 # ProtocolV1 @ hs_reserved h @ hs_info_hash h @ hs_peer_id h"
    using Handshake_Serialize_wf [of h] by auto
  have len: "length data = 68" using wf by (simp add: d handshake_wf_def length_ProtocolV1)
  have first: "unat (data ! 0) = 19" by (simp add: d)
  show "Handshake_Deserialize data = Ok h"
    unfolding Handshake_Deserialize_short [OF len first order_refl]
    using wf by (simp add: Let_def d length_ProtocolV1 handshake_wf_def Handshake_Validate_def)
qed

section \<open>Properties\<close>

text \<open>
  C12. The wire format is read back: any sequence of valid messages written one after the other is
  cut into the same messages, in order, by \<open>Identify\<close> and the decoders, and the stream is left
  exactly at what follows.
\<close>

theorem message_stream_roundtrip:
  assumes "list_all wire_valid ms"
  shows "read_msgs (length ms) \<lparr>rdata = concat (map encode ms) @ rest, rerr = e\<rparr>
    = (map Ok ms, \<lparr>rdata = rest, rerr = e\<rparr>)"
  using assms by (rule read_msgs_encode)

theorem message_stream_roundtrip_witness:
  "fst (read_msgs 3 \<lparr>rdata = encode KeepAliveMsg
      @ encode (RequestMsg \<lparr>req_index = 7, req_begin = 16384, req_length = 16384\<rparr>)
      @ encode (PieceMsg \<lparr>pc_index = 7, pc_begin = 0, pc_block = [1, 2, 3]\<rparr>) @ [], rerr = IoEOF\<rparr>)
   = [Ok KeepAliveMsg, Ok (RequestMsg \<lparr>req_index = 7, req_begin = 16384, req_length = 16384\<rparr>),
      Ok (PieceMsg \<lparr>pc_index = 7, pc_begin = 0, pc_block = [1, 2, 3]\<rparr>)]"
  using message_stream_roundtrip [of "[KeepAliveMsg,
      RequestMsg \<lparr>req_index = 7, req_begin = 16384, req_length = 16384\<rparr>,
      PieceMsg \<lparr>pc_index = 7, pc_begin = 0, pc_block = [1, 2, 3]\<rparr>]" "[]" IoEOF]
  by (simp add: request_valid_def piece_valid_def numeral_3_eq_3 del: encode.simps read_msgs.simps)

text \<open>
  C20. \<open>Identify\<close> never panics and always makes progress: it leaves a proper suffix of the data
  (unless there were none, when it reports the error of the connection), and a frame with an unknown
  message id is skipped exactly, so the stream stays in step.
\<close>

theorem identify_progress:
  "\<not> is_panic (fst (Identify r))
   \<and> (rdata r \<noteq> [] \<longrightarrow> length (rdata (snd (Identify r))) < length (rdata r))
   \<and> (rdata r = [] \<longrightarrow>
        Identify r = (Err (Wrapped ''failed to read message length: '' (rerr r)), r))
   \<and> (frame_fits payload \<longrightarrow> payload_type mid = None \<longrightarrow>
        Identify \<lparr>rdata = frame mid payload @ rest, rerr = e\<rparr>
          = (Err (ErrorMsg ''unknown message id: %v''), \<lparr>rdata = rest, rerr = e\<rparr>))"
  using Identify_consumes [of r "fst (Identify r)" "snd (Identify r)"]
  by (auto simp: Identify_empty Identify_frame dest: consumes_less)

theorem identify_progress_witness:
  "fst (Identify \<lparr>rdata = [0, 0, 0, 2, 20, 99, 5], rerr = IoEOF\<rparr>)
     = Err (ErrorMsg ''unknown message id: %v'')
   \<and> rdata (snd (Identify \<lparr>rdata = [0, 0, 0, 2, 20, 99, 5], rerr = IoEOF\<rparr>)) = [5]"
proof -
  have f: "frame 20 [99] @ [5] = [0, 0, 0, 2, 20, 99, 5]"
    by (simp add: frame_def PutUint32_def)
  have "frame_fits [99]" and "payload_type 20 = None"
    by (simp_all add: frame_fits_def payload_type_def)
  with identify_progress [of undefined "[99]" 20 "[5]" IoEOF] show ?thesis by (simp add: f)
qed

text \<open>
  C18. The handshake: what \<open>Handshake_Deserialize\<close> accepts are exactly the serialisations of
  well-formed version 1 handshakes, and it returns the handshake that was serialised.
\<close>

theorem handshake_accepts_exactly:
  "Handshake_Deserialize data = Ok h \<longleftrightarrow> handshake_wf h \<and> Handshake_Serialize h = Ok data"
  by (rule Handshake_Deserialize_Ok)

text \<open>
  C23. The length byte of a handshake is not checked before it is used: a peer that sends 68 bytes
  whose first byte is over 19 makes \<open>Handshake_Deserialize\<close> panic, and these are the only inputs of
  that length that do.
\<close>

theorem handshake_length_byte_panics:
  assumes "length data = HandshakeLength"
  shows "is_panic (Handshake_Deserialize data) \<longleftrightarrow> 19 < unat (data ! 0)"
proof
  assume p: "is_panic (Handshake_Deserialize data)"
  show "19 < unat (data ! 0)"
  proof (rule ccontr)
    assume "\<not> 19 < unat (data ! 0)"
    with assms p show False
      by (simp add: Handshake_Deserialize_short Let_def Handshake_Validate_def split: if_splits)
  qed
qed (use assms Handshake_Deserialize_long in simp)

theorem handshake_length_byte_panics_witness:
  "is_panic (Handshake_Deserialize (20 # replicate 67 0))"
  using handshake_length_byte_panics [of "20 # replicate 67 0"] by simp

text \<open>
  Bounds on what a remote peer can ask for or send: a request that is accepted asks for at most
  16 KiB, and a piece message that is accepted carries a block of at least one byte; every other
  payload is refused with an error and none panics.
\<close>

theorem request_piece_bounds:
  "(Request_Deserialize d = Ok r \<longrightarrow> unat (req_length r) \<le> 16384 \<and> length d = 12)
   \<and> (Cancel_Deserialize d = Ok c \<longrightarrow> unat (cnc_length c) \<le> 16384 \<and> length d = 12)
   \<and> (Piece_Deserialize d = Ok p \<longrightarrow> pc_block p \<noteq> [] \<and> length d = 8 + length (pc_block p))
   \<and> \<not> is_panic (Request_Deserialize d) \<and> \<not> is_panic (Cancel_Deserialize d)
   \<and> \<not> is_panic (Piece_Deserialize d)"
  by (auto simp: Request_Deserialize_def Request_Validate_def Cancel_Deserialize_def
      Cancel_Validate_def Piece_Deserialize_def Let_def outcome_simps word_le_nat_alt
      word_less_nat_alt not_less split: if_splits)

theorem request_piece_bounds_witness:
  "Request_Deserialize (PutUint32 1 @ PutUint32 0 @ PutUint32 16384)
     = Ok \<lparr>req_index = 1, req_begin = 0, req_length = 16384\<rparr> \<and> unat (16384 :: u32) \<le> 16384"
proof -
  have ok: "Request_Deserialize (PutUint32 1 @ PutUint32 0 @ PutUint32 16384)
      = Ok \<lparr>req_index = 1, req_begin = 0, req_length = 16384\<rparr>"
    by (simp add: Request_Deserialize_def Request_Validate_def three_words Let_def)
  with request_piece_bounds [of "PutUint32 1 @ PutUint32 0 @ PutUint32 16384"
      "\<lparr>req_index = 1, req_begin = 0, req_length = 16384\<rparr>"]
  show ?thesis by simp
qed

end
