(* ===== verification/Sha1.thy ===== *)
theory Sha1
  imports Prelude
begin

text \<open>
  \<^verbatim>\<open>crypto/sha1\<close>: the digest that names a torrent and verifies a piece, after FIPS 180-4. The
  rest of the development uses of it only that it is a function and that a digest has 20 bytes; the
  locale \<open>digest\<close> states this and is interpreted on \<open>sha1\<close>.
\<close>

unbundle bit_operations_syntax

definition PutUint64 :: "64 word \<Rightarrow> bytes" where
  "PutUint64 v = PutUint32 (ucast (drop_bit 32 v)) @ PutUint32 (ucast v)"

definition sha1_pad :: "bytes \<Rightarrow> bytes" where
  "sha1_pad m =
     m @ [0x80] @ replicate (nat ((55 - int (length m)) mod 64)) 0
       @ PutUint64 (of_nat (8 * length m))"

fun sha1_words :: "bytes \<Rightarrow> u32 list" where
  "sha1_words (a # b # c # d # bs) = Uint32 [a, b, c, d] # sha1_words bs"
| "sha1_words _ = []"

fun sha1_schedule :: "nat \<Rightarrow> u32 list \<Rightarrow> u32 list" where
  "sha1_schedule 0 w = w"
| "sha1_schedule (Suc n) w =
     (let t = length w in
      sha1_schedule n
        (w @ [word_rotl 1 (w ! (t - 3) XOR w ! (t - 8) XOR w ! (t - 14) XOR w ! (t - 16))]))"

type_synonym sha1_state = "u32 \<times> u32 \<times> u32 \<times> u32 \<times> u32"

definition sha1_f :: "nat \<Rightarrow> u32 \<Rightarrow> u32 \<Rightarrow> u32 \<Rightarrow> u32" where
  "sha1_f t b c d =
     (if t < 20 then (b AND c) OR (NOT b AND d)
      else if t < 40 then b XOR c XOR d
      else if t < 60 then (b AND c) OR (b AND d) OR (c AND d)
      else b XOR c XOR d)"

definition sha1_k :: "nat \<Rightarrow> u32" where
  "sha1_k t =
     (if t < 20 then 0x5A827999 else if t < 40 then 0x6ED9EBA1
      else if t < 60 then 0x8F1BBCDC else 0xCA62C1D6)"

fun sha1_rounds :: "nat \<Rightarrow> u32 list \<Rightarrow> sha1_state \<Rightarrow> sha1_state" where
  "sha1_rounds t [] s = s"
| "sha1_rounds t (w # ws) (a, b, c, d, e) =
     sha1_rounds (Suc t) ws
       (word_rotl 5 a + sha1_f t b c d + e + sha1_k t + w, a, word_rotl 30 b, c, d)"

fun sha1_block :: "sha1_state \<Rightarrow> u32 list \<Rightarrow> sha1_state" where
  "sha1_block (a, b, c, d, e) w =
     (case sha1_rounds 0 (sha1_schedule 64 w) (a, b, c, d, e) of
        (a', b', c', d', e') \<Rightarrow> (a + a', b + b', c + c', d + d', e + e'))"

function sha1_blocks :: "sha1_state \<Rightarrow> u32 list \<Rightarrow> sha1_state" where
  "sha1_blocks s ws =
     (if ws = [] then s else sha1_blocks (sha1_block s (take 16 ws)) (drop 16 ws))"
  by pat_completeness auto
termination
  by (relation "measure (\<lambda>(s, ws). length ws)") auto

declare sha1_blocks.simps [simp del]

definition sha1 :: "bytes \<Rightarrow> bytes" where
  "sha1 m =
     (case sha1_blocks (0x67452301, 0xEFCDAB89, 0x98BADCFE, 0x10325476, 0xC3D2E1F0)
             (sha1_words (sha1_pad m)) of
        (a, b, c, d, e) \<Rightarrow>
          PutUint32 a @ PutUint32 b @ PutUint32 c @ PutUint32 d @ PutUint32 e)"

locale digest =
  fixes sum :: "bytes \<Rightarrow> bytes"
    and size :: nat
  assumes length_sum: "length (sum m) = size"
begin

lemma mismatch_if_length: "length h \<noteq> size \<Longrightarrow> sum m \<noteq> h"
  using length_sum by auto

lemma distinguishes: "sum m = h \<Longrightarrow> sum m' \<noteq> h \<Longrightarrow> m \<noteq> m'"
  by auto

end

interpretation sha1: digest sha1 20
  by unfold_locales (simp add: sha1_def split: prod.split)

end
