(* ===== verification/Metainfo.thy ===== *)
theory Metainfo
  imports Bencoding Sha1 "HOL-Library.Multiset"
begin

text \<open>
  Package \<^verbatim>\<open>torrent\<close>: the metainfo (.torrent) file.

  \<^item> \<open>Info\<close> and \<open>MetaInfoFile\<close> are the structs of \<^verbatim>\<open>metainfo.go\<close>; a nil pointer is \<open>None\<close>, the
    embedded \<^verbatim>\<open>Info\<close> is the field \<open>mInfo\<close>, and \<^verbatim>\<open>*time.Time\<close> is the number of seconds it
    was made from.
  \<^item> \<open>apply_key\<close>, \<open>infoCommon\<close>, \<open>validate\<close> and \<open>From\<close> are the functions of the same
    names (\<^verbatim>\<open>apply\<close> is a keyword here). The order in which Go ranges over a map is unspecified: it
    is the argument \<open>range_map\<close> of \<open>From\<close>, any enumeration of the entries.
  \<^item> \<open>Join\<close> and \<open>Clean\<close> are \<^verbatim>\<open>filepath.Join\<close> and \<^verbatim>\<open>filepath.Clean\<close> on Unix.

  Shown: the result of \<open>From\<close> does not depend on the order of the range; what a returned file
  satisfies; which file a torrent's literal is parsed to; which bytes \<open>PieceHash\<close> returns.
\<close>

section \<open>Data\<close>

record InfoSingleFile =
  sName :: bytes
  sLength :: int64
  sMd5sum :: "bytes option"

record FileInfo =
  fLength :: int64
  fPath :: bytes
  fMd5Sum :: "bytes option"

record InfoMultiFile =
  mName :: bytes
  mFiles :: "FileInfo list"

record Info =
  SingleFile :: "InfoSingleFile option"
  MultiFile :: "InfoMultiFile option"
  Hash :: bytes
  PieceLength :: int64
  Pieces :: bytes
  Private :: "int64 option"

record MetaInfoFile =
  mInfo :: Info
  Announce :: bytes
  UrlList :: "bytes list"
  AnnounceList :: "bytes list"
  CreationDate :: "int64 option"
  Comment :: "bytes option"
  CreatedBy :: "bytes option"
  Encoding :: "bytes option"

definition zero_single :: InfoSingleFile where
  "zero_single = \<lparr>sName = [], sLength = 0, sMd5sum = None\<rparr>"

definition zero_file :: FileInfo where
  "zero_file = \<lparr>fLength = 0, fPath = [], fMd5Sum = None\<rparr>"

definition zero_multi :: InfoMultiFile where
  "zero_multi = \<lparr>mName = [], mFiles = []\<rparr>"

definition zero_info :: Info where
  "zero_info = \<lparr>SingleFile = None, MultiFile = None, Hash = replicate 20 0, PieceLength = 0,
     Pieces = [], Private = None\<rparr>"

definition zero_metainfo :: MetaInfoFile where
  "zero_metainfo = \<lparr>mInfo = zero_info, Announce = [], UrlList = [], AnnounceList = [],
     CreationDate = None, Comment = None, CreatedBy = None, Encoding = None\<rparr>"

section \<open>filepath\<close>

abbreviation "slash \<equiv> (47 :: byte)"

fun split_slash :: "bytes \<Rightarrow> bytes \<Rightarrow> bytes list" where
  "split_slash acc [] = [acc]"
| "split_slash acc (c # cs) =
     (if c = slash then acc # split_slash [] cs else split_slash (acc @ [c]) cs)"

fun clean_elems :: "bool \<Rightarrow> bytes list \<Rightarrow> bytes list \<Rightarrow> bytes list" where
  "clean_elems rooted out [] = out"
| "clean_elems rooted out (e # es) =
     (if e = [] \<or> e = str ''.'' then clean_elems rooted out es
      else if e = str ''..'' then
        (if out \<noteq> [] \<and> last out \<noteq> str ''..'' then clean_elems rooted (butlast out) es
         else if rooted then clean_elems rooted out es
         else clean_elems rooted (out @ [e]) es)
      else clean_elems rooted (out @ [e]) es)"

fun join_slash :: "bytes list \<Rightarrow> bytes" where
  "join_slash [] = []"
| "join_slash [e] = e"
| "join_slash (e # es) = e @ slash # join_slash es"

definition Clean :: "bytes \<Rightarrow> bytes" where
  "Clean path =
     (if path = [] then str ''.''
      else
        let rooted = (hd path = slash);
            out = join_slash (clean_elems rooted [] (split_slash [] path))
        in if rooted then slash # out else if out = [] then str ''.'' else out)"

fun Join :: "bytes list \<Rightarrow> bytes" where
  "Join [] = []"
| "Join (e # es) = (if e = [] then Join es else Clean (join_slash (e # es)))"

section \<open>The info dictionary\<close>

definition as_string :: "string \<Rightarrow> Value \<Rightarrow> bytes outcome" where
  "as_string msg v = (case v of ByteString s \<Rightarrow> Ok s | _ \<Rightarrow> Err (ErrorMsg msg))"

definition as_int :: "string \<Rightarrow> Value \<Rightarrow> int64 outcome" where
  "as_int msg v = (case v of Integer i \<Rightarrow> Ok i | _ \<Rightarrow> Err (ErrorMsg msg))"

definition as_list :: "string \<Rightarrow> Value \<Rightarrow> Value list outcome" where
  "as_list msg v = (case v of VList l \<Rightarrow> Ok l | _ \<Rightarrow> Err (ErrorMsg msg))"

definition as_dict :: "string \<Rightarrow> Value \<Rightarrow> Value dict outcome" where
  "as_dict msg v = (case v of Dictionary d \<Rightarrow> Ok d | _ \<Rightarrow> Err (ErrorMsg msg))"

fun path_loop :: "bytes \<Rightarrow> Value list \<Rightarrow> bytes outcome" where
  "path_loop path [] = Ok path"
| "path_loop path (v # vs) =
     obind (as_string ''expected item inside list 'Path' inside of 'Files' to be of type ByteString'' v)
       (\<lambda>p. path_loop (Join [path, p]) vs)"

definition file_length :: "Value dict \<Rightarrow> FileInfo \<Rightarrow> FileInfo outcome" where
  "file_length d fi =
     (case dict_get d (str ''length'') of
        None \<Rightarrow> Ok fi
      | Some v \<Rightarrow>
          obind (as_int ''expected 'Length' inside of 'Files' to be of type Integer'' v)
            (\<lambda>l. Ok (fi\<lparr>fLength := l\<rparr>)))"

definition file_md5sum :: "Value dict \<Rightarrow> FileInfo \<Rightarrow> FileInfo outcome" where
  "file_md5sum d fi =
     (case dict_get d (str ''md5sum'') of
        None \<Rightarrow> Ok fi
      | Some v \<Rightarrow>
          obind (as_string ''expected 'Md5Sum' inside of 'Files' to be of type ByteString'' v)
            (\<lambda>s. Ok (fi\<lparr>fMd5Sum := Some s\<rparr>)))"

definition file_path :: "Value dict \<Rightarrow> FileInfo \<Rightarrow> FileInfo outcome" where
  "file_path d fi =
     (case dict_get d (str ''path'') of
        None \<Rightarrow> Ok fi
      | Some v \<Rightarrow>
          obind (as_list ''expected 'Path' inside of 'Files' to be of type List'' v) (\<lambda>p.
          obind (path_loop [] p) (\<lambda>path. Ok (fi\<lparr>fPath := path\<rparr>))))"

definition file_entry :: "Value \<Rightarrow> FileInfo outcome" where
  "file_entry v =
     obind (as_dict ''expected item inside files to be of type Dictionary'' v) (\<lambda>d.
     obind (file_length d zero_file) (\<lambda>fi.
     obind (file_md5sum d fi) (file_path d)))"

definition append_file :: "FileInfo \<Rightarrow> Info \<Rightarrow> Info outcome" where
  "append_file fi info =
     (case MultiFile info of
        None \<Rightarrow> nil_deref
      | Some mf \<Rightarrow> Ok (info\<lparr>MultiFile := Some (mf\<lparr>mFiles := mFiles mf @ [fi]\<rparr>)\<rparr>))"

fun files_loop :: "Value list \<Rightarrow> Info \<Rightarrow> Info outcome" where
  "files_loop [] info = Ok info"
| "files_loop (v # vs) info =
     obind (file_entry v) (\<lambda>fi. obind (append_file fi info) (files_loop vs))"

definition single_or_new :: "Info \<Rightarrow> InfoSingleFile" where
  "single_or_new info = (case SingleFile info of None \<Rightarrow> zero_single | Some s \<Rightarrow> s)"

definition set_name :: "bool \<Rightarrow> bytes \<Rightarrow> Info \<Rightarrow> Info outcome" where
  "set_name isMultiFile s info =
     (if isMultiFile then
        (case MultiFile info of
           None \<Rightarrow> nil_deref
         | Some mf \<Rightarrow> Ok (info\<lparr>MultiFile := Some (mf\<lparr>mName := s\<rparr>)\<rparr>))
      else
        (case SingleFile info of
           None \<Rightarrow> nil_deref
         | Some sf \<Rightarrow> Ok (info\<lparr>SingleFile := Some (sf\<lparr>sName := s\<rparr>)\<rparr>)))"

definition infoCommon :: "bool \<Rightarrow> bytes \<times> Value \<Rightarrow> Info \<Rightarrow> Info outcome" where
  "infoCommon isMultiFile kv info =
     (case kv of (key, v) \<Rightarrow>
      if key = str ''name'' then
        obind (as_string ''expected 'Name' to be of type ByteString'' v) (\<lambda>s.
        set_name isMultiFile s info)
      else if key = str ''length'' then
        obind (as_int ''expected 'Length' to be of type Integer'' v) (\<lambda>l.
        Ok (info\<lparr>SingleFile := Some ((single_or_new info)\<lparr>sLength := l\<rparr>)\<rparr>))
      else if key = str ''md5sum'' then
        obind (as_string ''expected 'Md5Sum' to be of type ByteString'' v) (\<lambda>s.
        Ok (info\<lparr>SingleFile := Some ((single_or_new info)\<lparr>sMd5sum := Some s\<rparr>)\<rparr>))
      else if key = str ''files'' then
        obind (as_list ''expected 'Files' to be of type List'' v) (\<lambda>l. files_loop l info)
      else if key = str ''piece length'' then
        obind (as_int ''expected 'Piece Length' to be of type Integer'' v) (\<lambda>l.
        Ok (info\<lparr>PieceLength := l\<rparr>))
      else if key = str ''pieces'' then
        obind (as_string ''expected 'Pieces' to be of type ByteString'' v) (\<lambda>s.
        Ok (info\<lparr>Pieces := EncodeToString s\<rparr>))
      else if key = str ''private'' then
        obind (as_int ''expected 'Private' to be of type Integer'' v) (\<lambda>l.
        Ok (info\<lparr>Private := Some l\<rparr>))
      else Err (ErrorMsg ''unsupported key and its value''))"

section \<open>The metainfo dictionary\<close>

fun range_loop :: "('e \<Rightarrow> 's \<Rightarrow> 's outcome) \<Rightarrow> 'e list \<Rightarrow> 's \<Rightarrow> 's outcome" where
  "range_loop f [] s = Ok s"
| "range_loop f (e # es) s = obind (f e s) (range_loop f es)"

type_synonym map_order = "Value dict \<Rightarrow> (bytes \<times> Value) list"

definition apply_info :: "map_order \<Rightarrow> Value dict \<Rightarrow> Info \<Rightarrow> Info outcome" where
  "apply_info range_map d info =
     (let info1 = info\<lparr>Hash := sha1 (Literal (Dictionary d))\<rparr>;
          isMultiFile = (dict_get d (str ''files'') \<noteq> None);
          info2 = (if isMultiFile then info1\<lparr>MultiFile := Some zero_multi\<rparr>
                   else info1\<lparr>SingleFile := Some zero_single\<rparr>)
      in oerr (Wrapped ''failed to parse 'info' dictionary: '')
           (range_loop (infoCommon isMultiFile) (range_map d) info2))"

fun tier_loop :: "Value list \<Rightarrow> bytes list \<Rightarrow> bytes list outcome" where
  "tier_loop [] urls = Ok urls"
| "tier_loop (v # vs) urls =
     obind (as_string ''expected list item inside announce-list to be of type ByteString'' v)
       (\<lambda>addr. tier_loop vs (urls @ [addr]))"

fun announce_loop :: "Value list \<Rightarrow> bytes list \<Rightarrow> bytes list outcome" where
  "announce_loop [] urls = Ok urls"
| "announce_loop (v # vs) urls =
     (case v of
        ByteString addr \<Rightarrow> announce_loop vs (urls @ [addr])
      | VList l \<Rightarrow> obind (tier_loop l urls) (announce_loop vs)
      | _ \<Rightarrow> Err (ErrorMsg ''un-expected announce-list type''))"

fun url_loop :: "Value list \<Rightarrow> bytes list \<Rightarrow> bytes list outcome" where
  "url_loop [] urls = Ok urls"
| "url_loop (v # vs) urls =
     obind (as_string ''expected address inside url-list to be of type ByteString'' v)
       (\<lambda>addr. url_loop vs (urls @ [addr]))"

definition apply_key :: "map_order \<Rightarrow> bytes \<times> Value \<Rightarrow> MetaInfoFile \<Rightarrow> MetaInfoFile outcome" where
  "apply_key range_map kv m =
     (case kv of (key, v) \<Rightarrow>
      if key = str ''info'' then
        obind (as_dict ''expected 'Info' to be of type Dictionary'' v) (\<lambda>d.
        obind (apply_info range_map d (mInfo m)) (\<lambda>i. Ok (m\<lparr>mInfo := i\<rparr>)))
      else if key = str ''announce'' then
        obind (as_string ''expected announce to be of type string'' v) (\<lambda>s.
        Ok (m\<lparr>Announce := s\<rparr>))
      else if key = str ''announce-list'' then
        obind (as_list ''expected announce-list to be of type []ByteString'' v) (\<lambda>l.
        obind (announce_loop l (AnnounceList m)) (\<lambda>urls. Ok (m\<lparr>AnnounceList := urls\<rparr>)))
      else if key = str ''url-list'' then
        obind (as_list ''expected url-list to be of type []ByteString'' v) (\<lambda>l.
        obind (url_loop l (UrlList m)) (\<lambda>urls. Ok (m\<lparr>UrlList := urls\<rparr>)))
      else if key = str ''creation date'' then
        obind (as_int ''expected 'Creation Date' to be of type Interger'' v) (\<lambda>i.
        Ok (m\<lparr>CreationDate := Some i\<rparr>))
      else if key = str ''comment'' then
        obind (as_string ''expected 'Commment' to be of type ByteString'' v) (\<lambda>s.
        Ok (m\<lparr>Comment := Some s\<rparr>))
      else if key = str ''created by'' then
        obind (as_string ''expected 'Created By' to be of type ByteString'' v) (\<lambda>s.
        Ok (m\<lparr>CreatedBy := Some s\<rparr>))
      else if key = str ''encoding'' then
        obind (as_string ''expected 'Encoding' to be of type ByteString'' v) (\<lambda>s.
        Ok (m\<lparr>Encoding := Some s\<rparr>))
      else Err (ErrorMsg ''unsuported key and its value''))"

fun validate_files :: "FileInfo list \<Rightarrow> unit outcome" where
  "validate_files [] = Ok ()"
| "validate_files (f # fs) =
     (if fLength f = 0 then Err (ErrorMsg ''missing 'length' inside multi file torrent'')
      else if fPath f = [] then Err (ErrorMsg ''missing 'Path' inside multi file torrent'')
      else validate_files fs)"

definition validate_single :: "Info \<Rightarrow> unit outcome" where
  "validate_single info =
     (case SingleFile info of
        None \<Rightarrow> Ok ()
      | Some s \<Rightarrow>
          if sName s = [] then Err (ErrorMsg ''missing 'name' for single file torrent'')
          else if sLength s = 0 then Err (ErrorMsg ''missing 'length' for single file torrent'')
          else Ok ())"

definition validate_multi :: "Info \<Rightarrow> unit outcome" where
  "validate_multi info =
     (case MultiFile info of
        None \<Rightarrow> Ok ()
      | Some mf \<Rightarrow>
          if mName mf = [] then Err (ErrorMsg ''missing directory 'name' for multi file torrent'')
          else validate_files (mFiles mf))"

definition validate :: "MetaInfoFile \<Rightarrow> unit outcome" where
  "validate m =
     (let info = mInfo m in
      if Announce m = [] then Err (ErrorMsg ''unspecified 'announce' in torrent file'')
      else if SingleFile info = None \<and> MultiFile info = None
      then Err (ErrorMsg ''neither single file nor multi file mode specified'')
      else if Pieces info = [] then Err (ErrorMsg ''missing 'pieces' inside torrent file'')
      else
        obind (DecodeString (Pieces info)) (\<lambda>h.
        if length h mod 20 \<noteq> 0
        then Err (ErrorMsg ''invalid 'pieces' value inside torrent file'')
        else obind (validate_single info) (\<lambda>_. validate_multi info)))"

definition From_value :: "map_order \<Rightarrow> Value \<Rightarrow> MetaInfoFile outcome" where
  "From_value range_map v =
     obind (as_dict
              ''passed in bencoded value is not of expected format, expected bencoded dictionary'' v)
       (\<lambda>d. obind (range_loop (apply_key range_map) (range_map d) zero_metainfo) (\<lambda>m.
            obind (oerr (Wrapped ''failed to validate torrent file: '') (validate m)) (\<lambda>_. Ok m)))"

definition From :: "map_order \<Rightarrow> goslice outcome \<Rightarrow> MetaInfoFile outcome" where
  "From range_map bencoded = obind (DecodeAll bencoded) (From_value range_map)"

section \<open>Methods\<close>

definition BytesToDownload :: "MetaInfoFile \<Rightarrow> int64 outcome" where
  "BytesToDownload m =
     (case (SingleFile (mInfo m), MultiFile (mInfo m)) of
        (Some s, _) \<Rightarrow> Ok (sLength s)
      | (None, Some mf) \<Rightarrow> Ok (foldl (\<lambda>total f. i64 (total + fLength f)) 0 (mFiles mf))
      | (None, None) \<Rightarrow> Panic ''malformed meta_info_file state'')"

definition must :: "'a outcome \<Rightarrow> 'a outcome" where
  "must r = (case r of Err e \<Rightarrow> Panic ''panic(err)'' | _ \<Rightarrow> r)"

definition NumPieces :: "MetaInfoFile \<Rightarrow> int64 outcome" where
  "NumPieces m =
     (if SingleFile (mInfo m) \<noteq> None \<or> MultiFile (mInfo m) \<noteq> None
      then obind (must (DecodeString (Pieces (mInfo m)))) (\<lambda>b. Ok (int (length b div 20)))
      else Panic ''malformed meta_info_file state'')"

text \<open>
  \<^verbatim>\<open>hex.DecodeString\<close> returns a slice whose array may be longer than what it decoded; \<open>spare\<close> is
  what the array holds there. The bounds of the slice expression are \<open>uint32\<close> products that wrap.
\<close>

definition PieceHash :: "(bytes \<Rightarrow> bytes) \<Rightarrow> MetaInfoFile \<Rightarrow> u32 \<Rightarrow> bytes outcome" where
  "PieceHash spare m piece =
     obind (must (DecodeString (Pieces (mInfo m)))) (\<lambda>b.
     reslice \<lparr>arr = b @ spare b, slen = length b\<rparr>
       (uint (piece * 20)) (uint (piece * 20 + 20)))"


section \<open>Order of a range over a map\<close>

text \<open>
  What makes a loop over a Go map deterministic: two iterations on different keys can be swapped. The
  locale derives from it that the result of the loop is the same for every enumeration of the map.
\<close>

locale commuting_steps =
  fixes step :: "'k \<times> 'v \<Rightarrow> 's \<Rightarrow> 's outcome"
    and inv :: "'s \<Rightarrow> bool"
  assumes inv_step: "inv s \<Longrightarrow> step a s = Ok s1 \<Longrightarrow> inv s1"
    and swap: "inv s \<Longrightarrow> fst a \<noteq> fst b \<Longrightarrow> step a s = Ok s1 \<Longrightarrow> step b s1 = Ok s2 \<Longrightarrow>
    \<exists>s1'. step b s = Ok s1' \<and> step a s1' = Ok s2"
begin

lemma inv_loop: "inv s \<Longrightarrow> range_loop step xs s = Ok t \<Longrightarrow> inv t"
  by (induction xs arbitrary: s) (auto simp: obind_eq_Ok dest: inv_step)

lemma move_to_front:
  "inv s \<Longrightarrow> distinct (map fst (x # xs)) \<Longrightarrow> range_loop step (xs @ x # ys) s = Ok t \<Longrightarrow>
     range_loop step (x # xs @ ys) s = Ok t"
proof (induction xs arbitrary: s)
  case Nil
  then show ?case by simp
next
  case (Cons a xs)
  then obtain s1 where s1: "step a s = Ok s1" "range_loop step (xs @ x # ys) s1 = Ok t"
    by (auto simp: obind_eq_Ok)
  from Cons.IH [OF inv_step [OF Cons.prems(1) s1(1)] _ s1(2)] Cons.prems(2)
  have "range_loop step (x # xs @ ys) s1 = Ok t" by simp
  then obtain s2 where s2: "step x s1 = Ok s2" "range_loop step (xs @ ys) s2 = Ok t"
    by (auto simp: obind_eq_Ok)
  have "fst a \<noteq> fst x" using Cons.prems(2) by auto
  with swap [OF Cons.prems(1) _ s1(1) s2(1)]
  obtain s1' where "step x s = Ok s1'" "step a s1' = Ok s2" by blast
  with s2 show ?case by simp
qed

lemma order_imp:
  "inv s \<Longrightarrow> mset xs = mset ys \<Longrightarrow> distinct (map fst xs) \<Longrightarrow> range_loop step ys s = Ok t \<Longrightarrow>
     range_loop step xs s = Ok t"
proof (induction xs arbitrary: ys s)
  case Nil
  then show ?case by simp
next
  case (Cons x xs)
  then have "x \<in> set ys" by (metis list.set_intros(1) set_mset_mset)
  then obtain us vs where ys: "ys = us @ x # vs" by (meson split_list)
  have perm: "mset xs = mset (us @ vs)" using Cons.prems(2) ys by simp
  then have "set xs = set (us @ vs)" by (metis set_mset_mset)
  moreover have "distinct (map fst (us @ vs))"
    using Cons.prems(3) perm by (metis distinct.simps(2) list.simps(9) mset_eq_imp_distinct_iff mset_map)
  ultimately have "distinct (map fst (x # us))" using Cons.prems(3) by auto
  with Cons.prems ys have "range_loop step (x # us @ vs) s = Ok t"
    by (intro move_to_front) auto
  then obtain s1 where s1: "step x s = Ok s1" "range_loop step (us @ vs) s1 = Ok t"
    by (auto simp: obind_eq_Ok)
  from Cons.IH [OF inv_step [OF Cons.prems(1) s1(1)] perm _ s1(2)] Cons.prems(3) s1(1)
  show ?case by simp
qed

lemma order_irrelevant:
  assumes "inv s" and "mset xs = mset ys" and "distinct (map fst xs)"
  shows "range_loop step xs s = Ok t \<longleftrightarrow> range_loop step ys s = Ok t"
  using order_imp [OF assms] order_imp [OF assms(1) assms(2) [symmetric]] assms
  by (metis mset_eq_imp_distinct_iff mset_map)

end

lemma as_value_eq_Ok [outcome_simps]:
  "as_string msg v = Ok s \<longleftrightarrow> v = ByteString s"
  "as_int msg v = Ok i \<longleftrightarrow> v = Integer i"
  "as_list msg v = Ok l \<longleftrightarrow> v = VList l"
  "as_dict msg v = Ok d \<longleftrightarrow> v = Dictionary d"
  by (auto simp: as_string_def as_int_def as_list_def as_dict_def split: Value.splits)

fun map_ok :: "('a \<Rightarrow> 'b outcome) \<Rightarrow> 'a list \<Rightarrow> 'b list outcome" where
  "map_ok f [] = Ok []"
| "map_ok f (x # xs) = obind (f x) (\<lambda>y. obind (map_ok f xs) (\<lambda>ys. Ok (y # ys)))"

lemma files_loop_multi:
  "MultiFile info = Some mf \<Longrightarrow>
     files_loop vs info = obind (map_ok file_entry vs)
       (\<lambda>fs. Ok (info\<lparr>MultiFile := Some (mf\<lparr>mFiles := mFiles mf @ fs\<rparr>)\<rparr>))"
proof (induction vs arbitrary: info mf)
  case Nil
  then show ?case by (cases info) simp
next
  case (Cons v vs)
  then show ?case by (cases "file_entry v") (simp_all add: append_file_def obind_assoc)
qed

lemma files_loop_single:
  "MultiFile info = None \<Longrightarrow> files_loop vs info = Ok info' \<longleftrightarrow> vs = [] \<and> info' = info"
  by (cases vs) (auto simp: outcome_simps append_file_def nil_deref_def)

lemma infoCommon_eq_Ok:
  "infoCommon b (k, v) info = Ok info' \<longleftrightarrow>
     k = str ''name'' \<and> (\<exists>s. v = ByteString s \<and> set_name b s info = Ok info')
   \<or> k = str ''length'' \<and> (\<exists>l. v = Integer l
       \<and> info' = info\<lparr>SingleFile := Some ((single_or_new info)\<lparr>sLength := l\<rparr>)\<rparr>)
   \<or> k = str ''md5sum'' \<and> (\<exists>s. v = ByteString s
       \<and> info' = info\<lparr>SingleFile := Some ((single_or_new info)\<lparr>sMd5sum := Some s\<rparr>)\<rparr>)
   \<or> k = str ''files'' \<and> (\<exists>l. v = VList l \<and> files_loop l info = Ok info')
   \<or> k = str ''piece length'' \<and> (\<exists>l. v = Integer l \<and> info' = info\<lparr>PieceLength := l\<rparr>)
   \<or> k = str ''pieces'' \<and> (\<exists>s. v = ByteString s \<and> info' = info\<lparr>Pieces := EncodeToString s\<rparr>)
   \<or> k = str ''private'' \<and> (\<exists>l. v = Integer l \<and> info' = info\<lparr>Private := Some l\<rparr>)"
  by (simp add: infoCommon_def outcome_simps) blast

definition mode_set :: "bool \<Rightarrow> Info \<Rightarrow> bool" where
  "mode_set b info \<longleftrightarrow> (if b then MultiFile info \<noteq> None else SingleFile info \<noteq> None)"

lemma set_name_eq_Ok:
  "set_name True s info = Ok info' \<longleftrightarrow>
     (\<exists>mf. MultiFile info = Some mf \<and> info' = info\<lparr>MultiFile := Some (mf\<lparr>mName := s\<rparr>)\<rparr>)"
  "set_name False s info = Ok info' \<longleftrightarrow>
     (\<exists>sf. SingleFile info = Some sf \<and> info' = info\<lparr>SingleFile := Some (sf\<lparr>sName := s\<rparr>)\<rparr>)"
  by (auto simp: set_name_def nil_deref_def split: option.splits)

lemma files_loop_eq_Ok:
  "files_loop vs info = Ok info' \<longleftrightarrow>
     (case MultiFile info of
        None \<Rightarrow> vs = [] \<and> info' = info
      | Some mf \<Rightarrow> \<exists>fs. map_ok file_entry vs = Ok fs
          \<and> info' = info\<lparr>MultiFile := Some (mf\<lparr>mFiles := mFiles mf @ fs\<rparr>)\<rparr>)"
  by (auto simp: files_loop_multi files_loop_single outcome_simps split: option.splits)

text \<open>
  Under \<open>mode_set\<close> an iteration is an update of one field, which depends on the entry alone.
\<close>

inductive info_effect :: "bool \<Rightarrow> bytes \<Rightarrow> Value \<Rightarrow> (Info \<Rightarrow> Info) \<Rightarrow> bool" where
  multi_name: "info_effect True (str ''name'') (ByteString s)
     (\<lambda>i. i\<lparr>MultiFile := map_option (mName_update (\<lambda>_. s)) (MultiFile i)\<rparr>)"
| single_name: "info_effect False (str ''name'') (ByteString s)
     (\<lambda>i. i\<lparr>SingleFile := map_option (sName_update (\<lambda>_. s)) (SingleFile i)\<rparr>)"
| single_length: "info_effect b (str ''length'') (Integer l)
     (\<lambda>i. i\<lparr>SingleFile := Some ((single_or_new i)\<lparr>sLength := l\<rparr>)\<rparr>)"
| single_md5sum: "info_effect b (str ''md5sum'') (ByteString s)
     (\<lambda>i. i\<lparr>SingleFile := Some ((single_or_new i)\<lparr>sMd5sum := Some s\<rparr>)\<rparr>)"
| multi_files: "map_ok file_entry l = Ok fs \<Longrightarrow> info_effect b (str ''files'') (VList l)
     (\<lambda>i. i\<lparr>MultiFile := map_option (mFiles_update (\<lambda>f. f @ fs)) (MultiFile i)\<rparr>)"
| piece_length: "info_effect b (str ''piece length'') (Integer l) (\<lambda>i. i\<lparr>PieceLength := l\<rparr>)"
| pieces: "info_effect b (str ''pieces'') (ByteString s) (\<lambda>i. i\<lparr>Pieces := EncodeToString s\<rparr>)"
| private_flag: "info_effect b (str ''private'') (Integer l) (\<lambda>i. i\<lparr>Private := Some l\<rparr>)"

lemma infoCommon_effectD:
  assumes "mode_set b s" and "infoCommon b (k, v) s = Ok s'"
  shows "\<exists>u. info_effect b k v u \<and> s' = u s"
  using assms(2) unfolding infoCommon_eq_Ok
proof (elim disjE exE conjE)
  fix n assume "k = str ''name''" "v = ByteString n" "set_name b n s = Ok s'"
  with assms(1) show ?thesis
    by (cases b) (fastforce simp: set_name_eq_Ok mode_set_def intro: info_effect.intros)+
next
  fix l assume *: "k = str ''files''" "v = VList l" "files_loop l s = Ok s'"
  then obtain fs where "map_ok file_entry l = Ok fs"
    "s' = s\<lparr>MultiFile := map_option (mFiles_update (\<lambda>f. f @ fs)) (MultiFile s)\<rparr>"
    by (cases "MultiFile s") (auto simp: files_loop_eq_Ok)
  with * show ?thesis using multi_files by blast
qed (use info_effect.intros in blast)+

lemma infoCommon_effectI:
  assumes "mode_set b s" and "info_effect b k v u"
    and "k = str ''files'' \<longrightarrow> MultiFile s = None \<longrightarrow> v = VList []"
  shows "infoCommon b (k, v) s = Ok (u s)"
  using assms(2,1,3)
  by cases (auto simp: mode_set_def infoCommon_eq_Ok set_name_eq_Ok files_loop_eq_Ok split: option.splits)

lemma info_effect_mode: "info_effect b k v u \<Longrightarrow> mode_set b s \<Longrightarrow> mode_set b (u s)"
  by (erule info_effect.cases) (simp_all add: mode_set_def)

lemma info_effect_multi: "info_effect b k v u \<Longrightarrow> MultiFile (u s) = None \<longleftrightarrow> MultiFile s = None"
  by (erule info_effect.cases) simp_all

lemma info_effect_commute:
  assumes "mode_set b s" and u: "info_effect b k v u" and u': "info_effect b k' v' u'" and "k \<noteq> k'"
  shows "u (u' s) = u' (u s)"
  using u
proof cases
  case (multi_name n)
  show ?thesis using u' assms(1,4) unfolding multi_name
    by (cases; cases "MultiFile s"; simp add: single_or_new_def)
next
  case (single_name n)
  show ?thesis using u' assms(1,4) unfolding single_name
    by cases (auto simp: single_or_new_def mode_set_def)
next
  case (single_length l)
  show ?thesis using u' assms(1,4) unfolding single_length
    by cases (auto simp: single_or_new_def mode_set_def)
next
  case (single_md5sum n)
  show ?thesis using u' assms(1,4) unfolding single_md5sum
    by cases (auto simp: single_or_new_def mode_set_def)
next
  case (multi_files l fs)
  show ?thesis using u' assms(1,4) unfolding multi_files
    by (cases; cases "MultiFile s"; simp add: single_or_new_def)
qed (use u' assms(4) in \<open>cases; simp add: single_or_new_def\<close>)+

lemma infoCommon_mode: "mode_set b s \<Longrightarrow> infoCommon b (k, v) s = Ok s1 \<Longrightarrow> mode_set b s1"
  using infoCommon_effectD info_effect_mode by blast

lemma infoCommon_files:
  "infoCommon b (k, v) s = Ok s' \<Longrightarrow> k = str ''files'' \<longrightarrow> MultiFile s = None \<longrightarrow> v = VList []"
  by (auto simp: infoCommon_eq_Ok files_loop_eq_Ok)

lemma infoCommon_swap:
  assumes "mode_set b s" and "k \<noteq> k'" and *: "infoCommon b (k, v) s = Ok s1"
    and **: "infoCommon b (k', v') s1 = Ok s2"
  shows "\<exists>s1'. infoCommon b (k', v') s = Ok s1' \<and> infoCommon b (k, v) s1' = Ok s2"
proof -
  from infoCommon_effectD [OF assms(1) *] obtain u where u: "info_effect b k v u" "s1 = u s" by blast
  have "mode_set b s1" using infoCommon_mode assms(1) * by blast
  from infoCommon_effectD [OF this **] obtain u' where u': "info_effect b k' v' u'" "s2 = u' s1"
    by blast
  have "infoCommon b (k', v') s = Ok (u' s)"
    using infoCommon_files [OF **] u by (intro infoCommon_effectI assms u') (simp add: info_effect_multi)
  moreover have "infoCommon b (k, v) (u' s) = Ok (u (u' s))"
    using infoCommon_files [OF *] u'
    by (intro infoCommon_effectI info_effect_mode [OF u'(1)] assms u) (simp add: info_effect_multi)
  ultimately show ?thesis
    using info_effect_commute [OF assms(1) u(1) u'(1) assms(2)] u(2) u'(2) by auto
qed

interpretation info_keys: commuting_steps "infoCommon b" "mode_set b" for b
  by unfold_locales (metis infoCommon_mode prod.collapse, metis infoCommon_swap prod.collapse)

lemma apply_key_eq_Ok:
  "apply_key r (k, v) m = Ok m' \<longleftrightarrow>
     k = str ''info'' \<and> (\<exists>d i. v = Dictionary d \<and> apply_info r d (mInfo m) = Ok i \<and> m' = m\<lparr>mInfo := i\<rparr>)
   \<or> k = str ''announce'' \<and> (\<exists>s. v = ByteString s \<and> m' = m\<lparr>Announce := s\<rparr>)
   \<or> k = str ''announce-list'' \<and> (\<exists>l u. v = VList l \<and> announce_loop l (AnnounceList m) = Ok u
       \<and> m' = m\<lparr>AnnounceList := u\<rparr>)
   \<or> k = str ''url-list'' \<and> (\<exists>l u. v = VList l \<and> url_loop l (UrlList m) = Ok u \<and> m' = m\<lparr>UrlList := u\<rparr>)
   \<or> k = str ''creation date'' \<and> (\<exists>i. v = Integer i \<and> m' = m\<lparr>CreationDate := Some i\<rparr>)
   \<or> k = str ''comment'' \<and> (\<exists>s. v = ByteString s \<and> m' = m\<lparr>Comment := Some s\<rparr>)
   \<or> k = str ''created by'' \<and> (\<exists>s. v = ByteString s \<and> m' = m\<lparr>CreatedBy := Some s\<rparr>)
   \<or> k = str ''encoding'' \<and> (\<exists>s. v = ByteString s \<and> m' = m\<lparr>Encoding := Some s\<rparr>)"
  by (simp add: apply_key_def outcome_simps) blast

lemma apply_key_swap:
  "k \<noteq> k' \<Longrightarrow> apply_key r (k, v) s = Ok s1 \<Longrightarrow> apply_key r (k', v') s1 = Ok s2 \<Longrightarrow>
    \<exists>s1'. apply_key r (k', v') s = Ok s1' \<and> apply_key r (k, v) s1' = Ok s2"
  unfolding apply_key_eq_Ok [of r k v s]
  by (elim disjE exE conjE; simp add: apply_key_eq_Ok; elim disjE exE conjE; simp)

interpretation metainfo_keys: commuting_steps "apply_key r" "\<lambda>_. True" for r
  by unfold_locales (simp, metis apply_key_swap prod.collapse)

section \<open>Order independence\<close>

definition map_order_ok :: "map_order \<Rightarrow> bool" where
  "map_order_ok r \<longleftrightarrow> (\<forall>d. mset (r d) = mset d)"

lemma map_order_okD:
  assumes "map_order_ok r"
  shows "mset (r d) = mset d" and "set (r d) = set d"
    and "dict_wf d \<Longrightarrow> distinct (map fst (r d))"
proof -
  show 1: "mset (r d) = mset d" using assms by (simp add: map_order_ok_def)
  then show "set (r d) = set d" by (metis set_mset_mset)
  show "dict_wf d \<Longrightarrow> distinct (map fst (r d))"
    using 1 dict_wf_distinct by (metis mset_eq_imp_distinct_iff mset_map)
qed

lemma map_of_order: "map_order_ok r \<Longrightarrow> dict_wf d \<Longrightarrow> map_of (r d) k = dict_get d k"
  by (metis dict_get_map_of dict_wf_distinct map_of_eqI map_order_okD(2,3) dom_map_of_conv_image_fst
      map_of_inject_set)

lemma mode_set_start:
  "mode_set (dict_get d (str ''files'') \<noteq> None)
     (if dict_get d (str ''files'') \<noteq> None then i\<lparr>MultiFile := Some zero_multi\<rparr>
      else i\<lparr>SingleFile := Some zero_single\<rparr>)"
  by (auto simp: mode_set_def)

lemma apply_info_order:
  assumes "map_order_ok r" and "map_order_ok r'" and "dict_wf d"
  shows "apply_info r d info = Ok i \<longleftrightarrow> apply_info r' d info = Ok i"
  unfolding apply_info_def Let_def oerr_eq_Ok
  by (intro info_keys.order_irrelevant mode_set_start) (simp_all add: assms map_order_okD)

lemma apply_key_order:
  assumes "map_order_ok r" and "map_order_ok r'" and "Value_wf v"
  shows "apply_key r (k, v) m = Ok m' \<longleftrightarrow> apply_key r' (k, v) m = Ok m'"
  using assms(3) apply_info_order [OF assms(1,2)] by (auto simp: apply_key_eq_Ok)

lemma range_loop_cong:
  "(\<And>e s s'. e \<in> set es \<Longrightarrow> f e s = Ok s' \<longleftrightarrow> g e s = Ok s') \<Longrightarrow>
     range_loop f es s = Ok t \<longleftrightarrow> range_loop g es s = Ok t"
  by (induction es arbitrary: s) (auto simp: obind_eq_Ok)

lemma From_value_order:
  assumes "map_order_ok r" and "map_order_ok r'" and "Value_wf v"
  shows "From_value r v = Ok m \<longleftrightarrow> From_value r' v = Ok m"
proof -
  have "range_loop (apply_key r) (r d) s = Ok t \<longleftrightarrow> range_loop (apply_key r') (r' d) s = Ok t"
    if "v = Dictionary d" for d s t
  proof -
    have wf: "dict_wf d" and "\<And>e. e \<in> set (r d) \<Longrightarrow> Value_wf (snd e)"
      using assms that by (auto simp: list_all_iff map_order_okD)
    then have "range_loop (apply_key r) (r d) s = Ok t \<longleftrightarrow> range_loop (apply_key r') (r d) s = Ok t"
      using apply_key_order [OF assms(1,2)] by (intro range_loop_cong) (metis prod.collapse)
    also have "\<dots> \<longleftrightarrow> range_loop (apply_key r') (r' d) s = Ok t"
      using wf by (intro metainfo_keys.order_irrelevant) (auto simp: assms map_order_okD)
    finally show ?thesis .
  qed
  then show ?thesis by (auto simp: From_value_def outcome_simps)
qed

section \<open>Fields and entries\<close>

lemma range_loop_stores:
  assumes frame: "\<And>e s s'. fst e \<noteq> k \<Longrightarrow> step e s = Ok s' \<Longrightarrow> F s' = F s"
    and stores: "\<And>v s s'. step (k, v) s = Ok s' \<Longrightarrow> Q v (F s) (F s')"
    and "range_loop step es s = Ok t" and "distinct (map fst es)"
  shows "case map_of es k of None \<Rightarrow> F t = F s | Some v \<Rightarrow> Q v (F s) (F t)"
  using assms(3,4)
proof (induction es arbitrary: s)
  case Nil
  then show ?case by simp
next
  case (Cons e es)
  then obtain s1 where s1: "step e s = Ok s1" "range_loop step es s1 = Ok t"
    by (auto simp: obind_eq_Ok)
  with Cons have IH: "case map_of es k of None \<Rightarrow> F t = F s1 | Some v \<Rightarrow> Q v (F s1) (F t)" by simp
  show ?case
  proof (cases "fst e = k")
    case True
    then have "map_of es k = None" using Cons.prems(2) by (simp add: map_of_eq_None_iff)
    with True IH s1 stores show ?thesis by (cases e) auto
  next
    case False
    with IH frame [OF False s1(1)] show ?thesis by (cases e) (auto split: option.splits)
  qed
qed

lemma range_loop_frame:
  "(\<And>e s s'. step e s = Ok s' \<Longrightarrow> F s' = F s) \<Longrightarrow> range_loop step es s = Ok t \<Longrightarrow> F t = F s"
  by (induction es arbitrary: s) (auto simp: obind_eq_Ok)

lemma infoCommon_frame:
  assumes "infoCommon b e s = Ok s'"
  shows "Hash s' = Hash s"
    and "fst e \<noteq> str ''pieces'' \<Longrightarrow> Pieces s' = Pieces s"
    and "fst e \<noteq> str ''piece length'' \<Longrightarrow> PieceLength s' = PieceLength s"
    and "fst e \<noteq> str ''private'' \<Longrightarrow> Private s' = Private s"
    and "fst e \<noteq> str ''length'' \<Longrightarrow> sLength (single_or_new s') = sLength (single_or_new s)"
    and "fst e \<noteq> str ''name'' \<or> b \<Longrightarrow> sName (single_or_new s') = sName (single_or_new s)"
    and "fst e \<noteq> str ''name'' \<Longrightarrow> map_option mName (MultiFile s') = map_option mName (MultiFile s)"
    and "fst e \<noteq> str ''files'' \<Longrightarrow> map_option mFiles (MultiFile s') = map_option mFiles (MultiFile s)"
    and "fst e \<noteq> str ''files'' \<Longrightarrow> \<not> b \<Longrightarrow> MultiFile s' = MultiFile s"
  using assms
  by (cases e; cases b; auto simp: infoCommon_eq_Ok set_name_eq_Ok files_loop_eq_Ok single_or_new_def
      split: option.splits)+

lemma infoCommon_stores:
  "infoCommon b (str ''pieces'', v) s = Ok s' \<Longrightarrow> \<exists>ps. v = ByteString ps \<and> Pieces s' = EncodeToString ps"
  "infoCommon b (str ''piece length'', v) s = Ok s' \<Longrightarrow> v = Integer (PieceLength s')"
  "infoCommon b (str ''private'', v) s = Ok s' \<Longrightarrow> \<exists>i. v = Integer i \<and> Private s' = Some i"
  "infoCommon b (str ''length'', v) s = Ok s' \<Longrightarrow> v = Integer (sLength (single_or_new s'))"
  "infoCommon False (str ''name'', v) s = Ok s' \<Longrightarrow> v = ByteString (sName (single_or_new s'))"
  "infoCommon True (str ''name'', v) s = Ok s' \<Longrightarrow> \<exists>n. v = ByteString n \<and> map_option mName (MultiFile s') = Some n"
  "infoCommon b (str ''files'', v) s = Ok s' \<Longrightarrow> map_option mFiles (MultiFile s) = Some fs \<Longrightarrow>
     \<exists>l gs. v = VList l \<and> map_ok file_entry l = Ok gs \<and> map_option mFiles (MultiFile s') = Some (fs @ gs)"
  by (auto simp: infoCommon_eq_Ok set_name_eq_Ok files_loop_eq_Ok single_or_new_def split: option.splits)

lemma validate_eq_Ok:
  "validate m = Ok u \<longleftrightarrow>
     Announce m \<noteq> [] \<and> \<not> (SingleFile (mInfo m) = None \<and> MultiFile (mInfo m) = None)
   \<and> Pieces (mInfo m) \<noteq> [] \<and> (\<exists>h. DecodeString (Pieces (mInfo m)) = Ok h \<and> length h mod 20 = 0)
   \<and> (\<forall>s. SingleFile (mInfo m) = Some s \<longrightarrow> sName s \<noteq> [] \<and> sLength s \<noteq> 0)
   \<and> (\<forall>mf. MultiFile (mInfo m) = Some mf \<longrightarrow> mName mf \<noteq> []
        \<and> (\<forall>f \<in> set (mFiles mf). fLength f \<noteq> 0 \<and> fPath f \<noteq> []))"
proof -
  have files: "validate_files fs = Ok () \<longleftrightarrow> (\<forall>f \<in> set fs. fLength f \<noteq> 0 \<and> fPath f \<noteq> [])" for fs
    by (induction fs) auto
  show ?thesis
    by (cases "DecodeString (Pieces (mInfo m))")
      (auto simp: validate_def Let_def obind_eq_Ok validate_single_def validate_multi_def files
        split: option.splits if_splits)
qed

text \<open>
  What a torrent's info dictionary says, field by field, in single-file and in multi-file mode.
\<close>

definition describes_pieces :: "Value dict \<Rightarrow> Info \<Rightarrow> bytes \<Rightarrow> bool" where
  "describes_pieces d i ps \<longleftrightarrow>
     dict_get d (str ''pieces'') = Some (ByteString ps) \<and> Pieces i = EncodeToString ps
   \<and> ps \<noteq> [] \<and> length ps mod 20 = 0
   \<and> (case dict_get d (str ''piece length'') of
        None \<Rightarrow> PieceLength i = 0 | Some v \<Rightarrow> v = Integer (PieceLength i))"

definition describes_single :: "Value dict \<Rightarrow> Info \<Rightarrow> InfoSingleFile \<Rightarrow> bool" where
  "describes_single d i sf \<longleftrightarrow>
     SingleFile i = Some sf \<and> MultiFile i = None
   \<and> dict_get d (str ''name'') = Some (ByteString (sName sf)) \<and> sName sf \<noteq> []
   \<and> dict_get d (str ''length'') = Some (Integer (sLength sf)) \<and> sLength sf \<noteq> 0"

definition describes_multi :: "Value dict \<Rightarrow> Info \<Rightarrow> InfoMultiFile \<Rightarrow> Value list \<Rightarrow> bool" where
  "describes_multi d i mf l \<longleftrightarrow>
     MultiFile i = Some mf \<and> SingleFile i = None
   \<and> dict_get d (str ''name'') = Some (ByteString (mName mf)) \<and> mName mf \<noteq> []
   \<and> dict_get d (str ''files'') = Some (VList l) \<and> map_ok file_entry l = Ok (mFiles mf)
   \<and> (\<forall>f \<in> set (mFiles mf). fLength f \<noteq> 0 \<and> fPath f \<noteq> [])"

definition info_start :: "Value dict \<Rightarrow> Info \<Rightarrow> Info" where
  "info_start d info =
     (if dict_get d (str ''files'') \<noteq> None
      then info\<lparr>Hash := sha1 (Literal (Dictionary d)), MultiFile := Some zero_multi\<rparr>
      else info\<lparr>Hash := sha1 (Literal (Dictionary d)), SingleFile := Some zero_single\<rparr>)"

lemma apply_info_loop:
  "apply_info r d info = Ok i \<longleftrightarrow>
     range_loop (infoCommon (dict_get d (str ''files'') \<noteq> None)) (r d) (info_start d info) = Ok i"
  unfolding apply_info_def info_start_def Let_def oerr_eq_Ok ..

lemma info_loop_common:
  assumes "range_loop (infoCommon b) es s = Ok t" and "distinct (map fst es)"
  shows "Hash t = Hash s"
    and "case map_of es (str ''pieces'') of None \<Rightarrow> Pieces t = Pieces s
      | Some v \<Rightarrow> \<exists>ps. v = ByteString ps \<and> Pieces t = EncodeToString ps"
    and "case map_of es (str ''piece length'') of None \<Rightarrow> PieceLength t = PieceLength s
      | Some v \<Rightarrow> v = Integer (PieceLength t)"
proof -
  show "Hash t = Hash s"
    by (rule range_loop_frame [OF _ assms(1)]) (rule infoCommon_frame(1))
  show "case map_of es (str ''pieces'') of None \<Rightarrow> Pieces t = Pieces s
      | Some v \<Rightarrow> \<exists>ps. v = ByteString ps \<and> Pieces t = EncodeToString ps"
    by (rule range_loop_stores [where F = "Pieces" and Q = "\<lambda>v _ p. \<exists>ps. v = ByteString ps \<and> p = EncodeToString ps", OF _ _ assms])
      (auto dest: infoCommon_frame(2) infoCommon_stores(1))
  show "case map_of es (str ''piece length'') of None \<Rightarrow> PieceLength t = PieceLength s
      | Some v \<Rightarrow> v = Integer (PieceLength t)"
    by (rule range_loop_stores [where F = "PieceLength" and Q = "\<lambda>v _ l. v = Integer l", OF _ _ assms])
      (auto dest: infoCommon_frame(3) infoCommon_stores(2))
qed

lemma info_loop_single:
  assumes "range_loop (infoCommon False) es s = Ok t" and "distinct (map fst es)"
  shows "case map_of es (str ''length'') of None \<Rightarrow> sLength (single_or_new t) = sLength (single_or_new s)
      | Some v \<Rightarrow> v = Integer (sLength (single_or_new t))"
    and "case map_of es (str ''name'') of None \<Rightarrow> sName (single_or_new t) = sName (single_or_new s)
      | Some v \<Rightarrow> v = ByteString (sName (single_or_new t))"
    and "map_of es (str ''files'') = None \<Longrightarrow> MultiFile t = MultiFile s"
proof -
  show "case map_of es (str ''length'') of None \<Rightarrow> sLength (single_or_new t) = sLength (single_or_new s)
      | Some v \<Rightarrow> v = Integer (sLength (single_or_new t))"
    by (rule range_loop_stores [where F = "\<lambda>i. sLength (single_or_new i)" and Q = "\<lambda>v _ l. v = Integer l", OF _ _ assms])
      (auto dest: infoCommon_frame(5) infoCommon_stores(4))
  show "case map_of es (str ''name'') of None \<Rightarrow> sName (single_or_new t) = sName (single_or_new s)
      | Some v \<Rightarrow> v = ByteString (sName (single_or_new t))"
    by (rule range_loop_stores [where F = "\<lambda>i. sName (single_or_new i)" and Q = "\<lambda>v _ n. v = ByteString n", OF _ _ assms])
      (auto dest: infoCommon_frame(6) infoCommon_stores(5))
  have "case map_of es (str ''files'') of None \<Rightarrow> MultiFile t = MultiFile s | Some v \<Rightarrow> True"
    by (rule range_loop_stores [where F = "MultiFile" and Q = "\<lambda>_ _ _. True", OF _ _ assms])
      (auto dest: infoCommon_frame(9))
  then show "map_of es (str ''files'') = None \<Longrightarrow> MultiFile t = MultiFile s" by simp
qed

lemma info_loop_multi:
  assumes "range_loop (infoCommon True) es s = Ok t" and "distinct (map fst es)"
    and "map_option mFiles (MultiFile s) = Some []"
  shows "sName (single_or_new t) = sName (single_or_new s)"
    and "case map_of es (str ''name'') of None \<Rightarrow> map_option mName (MultiFile t) = map_option mName (MultiFile s)
      | Some v \<Rightarrow> \<exists>n. v = ByteString n \<and> map_option mName (MultiFile t) = Some n"
    and "map_of es (str ''files'') = Some v \<Longrightarrow>
      \<exists>l fs. v = VList l \<and> map_ok file_entry l = Ok fs \<and> map_option mFiles (MultiFile t) = Some fs"
proof -
  show "sName (single_or_new t) = sName (single_or_new s)"
    by (rule range_loop_frame [OF _ assms(1)]) (auto dest: infoCommon_frame(6))
  show "case map_of es (str ''name'') of None \<Rightarrow> map_option mName (MultiFile t) = map_option mName (MultiFile s)
      | Some v \<Rightarrow> \<exists>n. v = ByteString n \<and> map_option mName (MultiFile t) = Some n"
    by (rule range_loop_stores [where F = "\<lambda>i. map_option mName (MultiFile i)"
          and Q = "\<lambda>v _ m. \<exists>n. v = ByteString n \<and> m = Some n", OF _ _ assms(1,2)])
      (rule infoCommon_frame(7), assumption+, rule infoCommon_stores(6))
  have "case map_of es (str ''files'') of None \<Rightarrow> map_option mFiles (MultiFile t) = map_option mFiles (MultiFile s)
      | Some v \<Rightarrow> map_option mFiles (MultiFile s) = Some [] \<longrightarrow>
          (\<exists>l fs. v = VList l \<and> map_ok file_entry l = Ok fs \<and> map_option mFiles (MultiFile t) = Some fs)"
    by (rule range_loop_stores [where F = "\<lambda>i. map_option mFiles (MultiFile i)" and Q = "\<lambda>v f f'. f = Some [] \<longrightarrow>
          (\<exists>l fs. v = VList l \<and> map_ok file_entry l = Ok fs \<and> f' = Some fs)", OF _ _ assms(1,2)])
      (rule infoCommon_frame(8), assumption+, use infoCommon_stores(7) in fastforce)
  with assms(3) show "map_of es (str ''files'') = Some v \<Longrightarrow>
      \<exists>l fs. v = VList l \<and> map_ok file_entry l = Ok fs \<and> map_option mFiles (MultiFile t) = Some fs"
    by simp
qed

lemma info_start_zero:
  "Hash (info_start d i) = sha1 (Literal (Dictionary d))"
  "Pieces (info_start d zero_info) = []" "PieceLength (info_start d zero_info) = 0"
  "dict_get d (str ''files'') = None \<Longrightarrow> MultiFile (info_start d zero_info) = None"
  "dict_get d (str ''files'') \<noteq> None \<Longrightarrow> MultiFile (info_start d zero_info) = Some zero_multi"
  "sName (single_or_new (info_start d zero_info)) = []"
  "sLength (single_or_new (info_start d zero_info)) = 0"
  "mode_set (dict_get d (str ''files'') \<noteq> None) (info_start d i)"
  by (simp_all add: info_start_def zero_info_def zero_single_def single_or_new_def mode_set_def)

lemma apply_info_describes:
  assumes r: "map_order_ok r" and wf: "dict_wf d" and ok: "apply_info r d zero_info = Ok i"
    and m: "mInfo m = i" and val: "validate m = Ok u"
  shows "Hash i = sha1 (Literal (Dictionary d))"
    and "\<exists>ps. describes_pieces d i ps"
    and "dict_get d (str ''files'') = None \<Longrightarrow> \<exists>sf. describes_single d i sf"
    and "dict_get d (str ''files'') \<noteq> None \<Longrightarrow> \<exists>mf l. describes_multi d i mf l"
proof -
  note loop = ok [unfolded apply_info_loop] and dist = map_order_okD(3) [OF r wf]
  note common = info_loop_common [OF loop dist, unfolded map_of_order [OF r wf]]
  note val' = val [unfolded validate_eq_Ok m]
  have mode: "mode_set (dict_get d (str ''files'') \<noteq> None) i"
    by (rule info_keys.inv_loop [OF info_start_zero(8) loop])
  show "Hash i = sha1 (Literal (Dictionary d))" using common(1) info_start_zero(1) by simp
  from common(2) val' obtain ps where
    ps: "dict_get d (str ''pieces'') = Some (ByteString ps)" "Pieces i = EncodeToString ps"
    by (auto simp: info_start_zero split: option.splits)
  with val' have "ps \<noteq> []" "length ps mod 20 = 0" by (auto simp: DecodeString_EncodeToString)
  with ps common(3) show "\<exists>ps. describes_pieces d i ps"
    by (auto simp: describes_pieces_def info_start_zero split: option.splits)
  show "\<exists>sf. describes_single d i sf" if b: "dict_get d (str ''files'') = None"
  proof -
    from mode b obtain sf where sf: "SingleFile i = Some sf" "single_or_new i = sf"
      by (auto simp: mode_set_def single_or_new_def)
    have loop': "range_loop (infoCommon False) (r d) (info_start d zero_info) = Ok i"
      using loop b by simp
    note single = info_loop_single [OF loop' dist, unfolded map_of_order [OF r wf]]
    from single b sf val' show ?thesis
      by (auto simp: describes_single_def info_start_zero split: option.splits)
  qed
  show "\<exists>mf l. describes_multi d i mf l" if b: "dict_get d (str ''files'') \<noteq> None"
  proof -
    from mode b obtain mf v where mf: "MultiFile i = Some mf" "dict_get d (str ''files'') = Some v"
      by (auto simp: mode_set_def)
    have loop': "range_loop (infoCommon True) (r d) (info_start d zero_info) = Ok i"
      using loop b by simp
    have "map_option mFiles (MultiFile (info_start d zero_info)) = Some []"
      using b by (simp add: info_start_zero zero_multi_def)
    note multi = info_loop_multi [OF loop' dist this, unfolded map_of_order [OF r wf]]
    have "sName (single_or_new i) = []" using multi(1) info_start_zero(6) by simp
    then have "SingleFile i = None" using val' by (auto simp: single_or_new_def split: option.splits)
    with multi(2,3) b mf val' show ?thesis
      by (auto simp: describes_multi_def info_start_zero zero_multi_def split: option.splits)
  qed
qed

lemma apply_key_frame:
  assumes "apply_key r e s = Ok s'"
  shows "fst e \<noteq> str ''info'' \<Longrightarrow> mInfo s' = mInfo s"
    and "fst e \<noteq> str ''announce'' \<Longrightarrow> Announce s' = Announce s"
    and "fst e \<noteq> str ''announce-list'' \<Longrightarrow> AnnounceList s' = AnnounceList s"
  using assms by (cases e; auto simp: apply_key_eq_Ok)+

lemma metainfo_loop_fields:
  assumes "range_loop (apply_key r) es s = Ok t" and "distinct (map fst es)"
  shows "case map_of es (str ''announce'') of None \<Rightarrow> Announce t = Announce s
      | Some v \<Rightarrow> v = ByteString (Announce t)"
    and "case map_of es (str ''info'') of None \<Rightarrow> mInfo t = mInfo s
      | Some v \<Rightarrow> \<exists>d. v = Dictionary d \<and> apply_info r d (mInfo s) = Ok (mInfo t)"
proof -
  show "case map_of es (str ''announce'') of None \<Rightarrow> Announce t = Announce s
      | Some v \<Rightarrow> v = ByteString (Announce t)"
    by (rule range_loop_stores [where F = Announce and Q = "\<lambda>v _ s. v = ByteString s", OF _ _ assms])
      (auto dest: apply_key_frame simp: apply_key_eq_Ok)
  show "case map_of es (str ''info'') of None \<Rightarrow> mInfo t = mInfo s
      | Some v \<Rightarrow> \<exists>d. v = Dictionary d \<and> apply_info r d (mInfo s) = Ok (mInfo t)"
    by (rule range_loop_stores [where F = mInfo
          and Q = "\<lambda>v i i'. \<exists>d. v = Dictionary d \<and> apply_info r d i = Ok i'", OF _ _ assms])
      (auto dest: apply_key_frame simp: apply_key_eq_Ok)
qed

lemma From_value_cases:
  assumes r: "map_order_ok r" and wf: "Value_wf v" and ok: "From_value r v = Ok m"
  obtains d info where "v = Dictionary d" and "dict_get d (str ''announce'') = Some (ByteString (Announce m))"
    and "dict_get d (str ''info'') = Some (Dictionary info)" and "dict_wf info"
    and "apply_info r info zero_info = Ok (mInfo m)" and "validate m = Ok ()"
proof -
  from ok obtain d where d: "v = Dictionary d" and val: "validate m = Ok ()"
    and loop: "range_loop (apply_key r) (r d) zero_metainfo = Ok m"
    by (auto simp: From_value_def outcome_simps)
  have dwf: "dict_wf d" "list_all (\<lambda>(k, v). Value_wf v) d" using wf d by simp_all
  note fields = metainfo_loop_fields [OF loop map_order_okD(3) [OF r dwf(1)], unfolded map_of_order [OF r dwf(1)]]
  have "dict_get d (str ''announce'') = Some (ByteString (Announce m))"
    using fields(1) val by (auto simp: validate_eq_Ok zero_metainfo_def split: option.splits)
  moreover obtain info where info: "dict_get d (str ''info'') = Some (Dictionary info)"
    "apply_info r info zero_info = Ok (mInfo m)"
    using fields(2) val by (auto simp: validate_eq_Ok zero_metainfo_def zero_info_def split: option.splits)
  moreover have "dict_wf info"
    using dict_get_SomeD [OF info(1)] dwf(2) by (auto simp: list_all_iff)
  ultimately show thesis using that d val by blast
qed

section \<open>No panics\<close>

lemma as_value_no_panic [simp]:
  "as_string msg v \<noteq> Panic p" "as_int msg v \<noteq> Panic p" "as_list msg v \<noteq> Panic p" "as_dict msg v \<noteq> Panic p"
  by (auto simp: as_string_def as_int_def as_list_def as_dict_def split: Value.splits)

lemma range_loop_no_panic:
  assumes "\<And>e s p. e \<in> set es \<Longrightarrow> I s \<Longrightarrow> step e s \<noteq> Panic p"
    and "\<And>e s s'. I s \<Longrightarrow> step e s = Ok s' \<Longrightarrow> I s'" and "I s"
  shows "range_loop step es s \<noteq> Panic p"
  using assms(1,3) by (induction es arbitrary: s) (auto simp: outcome_simps dest: assms(2))

lemma path_loop_no_panic [simp]: "path_loop path vs \<noteq> Panic p"
  by (induction vs arbitrary: path) (auto simp: outcome_simps)

lemma file_entry_no_panic [simp]: "file_entry v \<noteq> Panic p"
  by (auto simp: file_entry_def file_length_def file_md5sum_def file_path_def outcome_simps
      split: option.splits)

lemma url_loops_no_panic [simp]:
  "tier_loop vs urls \<noteq> Panic p" "announce_loop vs urls \<noteq> Panic p" "url_loop vs urls \<noteq> Panic p"
proof -
  show tier: "tier_loop vs urls \<noteq> Panic p" for vs urls
    by (induction vs arbitrary: urls) (auto simp: outcome_simps)
  show "announce_loop vs urls \<noteq> Panic p"
    by (induction vs arbitrary: urls) (auto simp: outcome_simps tier split: Value.splits)
  show "url_loop vs urls \<noteq> Panic p"
    by (induction vs arbitrary: urls) (auto simp: outcome_simps)
qed

lemma map_ok_no_panic: "(\<And>x. f x \<noteq> Panic p) \<Longrightarrow> map_ok f xs \<noteq> Panic p"
  by (induction xs) (auto simp: outcome_simps)

lemma infoCommon_no_panic:
  assumes "mode_set b s" and "\<not> b \<Longrightarrow> fst e \<noteq> str ''files''"
  shows "infoCommon b e s \<noteq> Panic p"
proof (cases b)
  case True
  with assms(1) obtain mf where "MultiFile s = Some mf" by (auto simp: mode_set_def)
  then show ?thesis
    by (cases e) (auto simp: True infoCommon_def set_name_def files_loop_multi outcome_simps map_ok_no_panic)
next
  case False
  with assms show ?thesis
    by (cases e) (auto simp: infoCommon_def set_name_def mode_set_def outcome_simps split: option.splits)
qed

lemma apply_info_no_panic:
  assumes "map_order_ok r"
  shows "apply_info r d info \<noteq> Panic p"
proof -
  let ?b = "dict_get d (str ''files'') \<noteq> None"
  have "range_loop (infoCommon ?b) (r d) (info_start d info) \<noteq> Panic p"
  proof (rule range_loop_no_panic [where I = "mode_set ?b"])
    fix e s p
    assume "e \<in> set (r d)" and "mode_set ?b s"
    moreover from this(1) have "fst e \<noteq> str ''files''" if "\<not> ?b"
      using that assms by (auto simp: map_order_okD dict_get_map_of map_of_eq_None_iff image_iff)
    ultimately show "infoCommon ?b e s \<noteq> Panic p" by (intro infoCommon_no_panic)
  qed (use infoCommon_mode info_start_zero(8) in \<open>(metis prod.collapse | blast)+\<close>)
  then show ?thesis unfolding apply_info_def info_start_def Let_def oerr_eq_Panic .
qed

lemma apply_key_no_panic: "map_order_ok r \<Longrightarrow> apply_key r e m \<noteq> Panic p"
  by (cases e) (auto simp: apply_key_def outcome_simps apply_info_no_panic)

lemma validate_no_panic [simp]: "validate m \<noteq> Panic p"
proof -
  have "validate_files fs \<noteq> Panic p" for fs by (induction fs) auto
  then show ?thesis
    by (auto simp: validate_def Let_def outcome_simps validate_single_def validate_multi_def
        split: option.splits)
qed

lemma From_value_no_panic: "map_order_ok r \<Longrightarrow> From_value r v \<noteq> Panic p"
  using range_loop_no_panic [where I = "\<lambda>_. True" and step = "apply_key r"]
  by (auto simp: From_value_def outcome_simps apply_key_no_panic)

section \<open>Piece hashes\<close>

lemma PieceHash_chunk:
  assumes "Pieces (mInfo m) = EncodeToString ps" and "length ps < 2 ^ 32"
    and n: "unat i = n" and "n < length ps div 20"
  shows "PieceHash spare m i = Ok (take 20 (drop (20 * n) ps))"
proof -
  have b: "20 * n + 20 \<le> length ps" using assms(4) by linarith
  with assms(2) have lt: "n * 20 + 20 < 2 ^ 32" by simp
  then have u1: "unat (i * 20) = n * 20"
    using n by (subst unat_mult_lem [THEN iffD1]) simp_all
  with lt have u2: "unat (i * 20 + 20) = n * 20 + 20"
    by (subst unat_add_lem [THEN iffD1]) simp_all
  have "uint (i * 20) = int (n * 20)" "uint (i * 20 + 20) = int (n * 20 + 20)"
    using u1 u2 by (metis uint_nat)+
  with b show ?thesis
    by (simp add: PieceHash_def must_def assms(1) DecodeString_EncodeToString reslice_def
        nat_add_distrib nat_mult_distrib mult.commute)
qed

lemma NumPieces_describes:
  assumes "describes_pieces d (mInfo m) ps" and "validate m = Ok u"
  shows "NumPieces m = Ok (int (length ps div 20)) \<and> 0 < length ps div 20"
proof -
  have "20 \<le> length ps"
    using assms(1) by (cases "length ps < 20") (auto simp: describes_pieces_def)
  with assms show ?thesis
    by (auto simp: describes_pieces_def NumPieces_def must_def DecodeString_EncodeToString validate_eq_Ok
        div_greater_zero_iff)
qed

section \<open>Paths\<close>

definition plain_elem :: "bytes \<Rightarrow> bool" where
  "plain_elem e \<longleftrightarrow> e \<noteq> [] \<and> slash \<notin> set e \<and> e \<noteq> str ''.'' \<and> e \<noteq> str ''..''"

lemma split_slash_elem: "slash \<notin> set e \<Longrightarrow> split_slash acc e = [acc @ e]"
  by (induction e arbitrary: acc) auto

lemma split_slash_append: "slash \<notin> set e \<Longrightarrow> split_slash acc (e @ slash # cs) = (acc @ e) # split_slash [] cs"
  by (induction e arbitrary: acc) auto

lemma split_join_slash: "es \<noteq> [] \<Longrightarrow> \<forall>e \<in> set es. slash \<notin> set e \<Longrightarrow> split_slash [] (join_slash es) = es"
  by (induction es rule: join_slash.induct) (auto simp: split_slash_elem split_slash_append)

text \<open>A path that \<^verbatim>\<open>Clean\<close> leaves alone: any number of \<^verbatim>\<open>..\<close> elements, then plain names.\<close>

fun clean_path :: "bytes list \<Rightarrow> bool" where
  "clean_path [] = True"
| "clean_path (e # es) = (if e = str ''..'' then clean_path es else list_all plain_elem (e # es))"

lemma clean_path_plain: "list_all plain_elem es \<Longrightarrow> clean_path es"
  by (cases es) (auto simp: plain_elem_def)

lemma clean_path_climb: "list_all plain_elem es \<Longrightarrow> clean_path (replicate n (str ''..'') @ es)"
  by (induction n) (simp_all add: clean_path_plain)

lemma clean_path_take: "clean_path (xs @ ys) \<Longrightarrow> clean_path xs"
  by (induction xs) auto

lemma clean_path_elem: "clean_path es \<Longrightarrow> e \<in> set es \<Longrightarrow> e \<noteq> [] \<and> slash \<notin> set e"
  by (induction es) (auto simp: plain_elem_def list_all_iff str_def split: if_splits)

lemma clean_plain: "list_all plain_elem es \<Longrightarrow> clean_elems rooted out es = out @ es"
  by (induction es arbitrary: out) (auto simp: plain_elem_def)

lemma clean_path_fixed:
  "set out \<subseteq> {str ''..''} \<Longrightarrow> clean_path es \<Longrightarrow> clean_elems False out es = out @ es"
proof (induction es arbitrary: out)
  case (Cons e es)
  show ?case
  proof (cases "e = str ''..''")
    case True
    have "out = [] \<or> last out = str ''..''" using Cons.prems(1) last_in_set by blast
    moreover have "clean_elems False (out @ [e]) es = out @ e # es" using Cons True by simp
    ultimately show ?thesis using True by (auto simp: str_def)
  next
    case False
    then show ?thesis using Cons.prems(2) clean_plain [of "e # es"] by simp
  qed
qed simp

lemma join_slash_clean_hd: "clean_path (e # es) \<Longrightarrow> join_slash (e # es) \<noteq> [] \<and> hd (join_slash (e # es)) \<noteq> slash"
  using clean_path_elem [of "e # es" e] by (cases e; cases es; auto)

lemma join_slash_plain_hd: "list_all plain_elem (e # es) \<Longrightarrow> join_slash (e # es) \<noteq> [] \<and> hd (join_slash (e # es)) \<noteq> slash"
  by (rule join_slash_clean_hd [OF clean_path_plain])

lemma Clean_path:
  assumes "clean_path es" and "es \<noteq> []"
  shows "Clean (join_slash es) = join_slash es"
proof -
  have "split_slash [] (join_slash es) = es"
    using assms clean_path_elem by (intro split_join_slash) blast+
  moreover have "join_slash es \<noteq> []" "hd (join_slash es) \<noteq> slash"
    using assms join_slash_clean_hd by (cases es; blast)+
  ultimately show ?thesis using clean_path_fixed [of "[]" es] assms(1) by (simp add: Clean_def)
qed

lemma Clean_plain:
  assumes "list_all plain_elem es" and "es \<noteq> []"
  shows "Clean (join_slash es) = join_slash es"
  using Clean_path [OF clean_path_plain [OF assms(1)] assms(2)] .

lemma join_slash_snoc: "es \<noteq> [] \<Longrightarrow> join_slash [join_slash es, e] = join_slash (es @ [e])"
  by (induction es rule: join_slash.induct) auto

text \<open>Climbing out of a directory.\<close>

lemma join_slash_append: "xs \<noteq> [] \<Longrightarrow> ys \<noteq> [] \<Longrightarrow> join_slash (xs @ ys) = join_slash xs @ slash # join_slash ys"
  by (induction xs rule: join_slash.induct) (auto simp: neq_Nil_conv)

lemma clean_elems_append: "list_all plain_elem ds \<Longrightarrow> clean_elems rooted out (ds @ es) = clean_elems rooted (out @ ds) es"
  by (induction ds arbitrary: out) (auto simp: plain_elem_def)

lemma clean_elems_climb:
  "list_all plain_elem ds \<Longrightarrow> clean_elems False ds (replicate (length ds) (str ''..'') @ es) = clean_elems False [] es"
proof (induction ds rule: rev_induct)
  case (snoc d ds)
  then have "d \<noteq> str ''..''" by (simp add: plain_elem_def)
  with snoc show ?case by (simp add: str_def)
qed simp

lemma Join_climb:
  assumes "list_all plain_elem es" and "es \<noteq> []" and "list_all plain_elem ds" and "ds \<noteq> []" and "length ds \<le> n"
  shows "Join [join_slash ds, join_slash (replicate n (str ''..'') @ es)] = join_slash (replicate (n - length ds) (str ''..'') @ es)"
proof -
  let ?ups = "\<lambda>k. replicate k (str ''..'')"
  let ?all = "ds @ ?ups n @ es"
  have clean: "clean_path (?ups k @ es)" for k using assms(1) by (rule clean_path_climb)
  have ds: "join_slash ds \<noteq> []" "hd (join_slash ds) \<noteq> slash" using assms(3,4) join_slash_plain_hd by (cases ds; blast)+
  have join: "join_slash ds @ slash # join_slash (?ups n @ es) = join_slash ?all"
    using join_slash_append [OF assms(4), of "?ups n @ es"] assms(2) by simp
  have "\<forall>e \<in> set ?all. slash \<notin> set e"
    using clean_path_elem [OF clean [of n]] clean_path_elem [OF clean_path_plain [OF assms(3)]] by auto
  then have split: "split_slash [] (join_slash ?all) = ?all" using assms(4) by (intro split_join_slash) auto
  have "?ups n = ?ups (length ds) @ ?ups (n - length ds)" using assms(5) by (simp flip: replicate_add)
  then have "clean_elems False [] ?all = ?ups (n - length ds) @ es"
    using clean_elems_append [OF assms(3), of False "[]" "?ups n @ es"] clean_elems_climb [OF assms(3), of "?ups (n - length ds) @ es"]
      clean_path_fixed [of "[]", OF _ clean] by simp
  moreover have "join_slash (?ups (n - length ds) @ es) \<noteq> []"
    using join_slash_clean_hd clean [of "n - length ds"] assms(2) by (cases "?ups (n - length ds) @ es") auto
  moreover have "join_slash ?all \<noteq> []" "hd (join_slash ?all) \<noteq> slash" using ds by (simp_all flip: join)
  ultimately show ?thesis using ds(1) split join by (simp add: Clean_def Let_def)
qed

lemma path_loop_clean:
  "clean_path (pre @ es) \<Longrightarrow> path_loop (join_slash pre) (map ByteString es) = Ok (join_slash (pre @ es))"
proof (induction es arbitrary: pre)
  case Nil
  then show ?case by simp
next
  case (Cons e es)
  have "Join [join_slash pre, e] = join_slash (pre @ [e])"
  proof (cases "pre = []")
    case True
    then have "clean_path ([e] @ es)" using Cons.prems by simp
    from clean_path_take [OF this] have "Clean e = e" "e \<noteq> []"
      using Clean_path [of "[e]"] clean_path_elem [of "[e]" e] by auto
    with True show ?thesis by simp
  next
    case False
    then have "join_slash pre \<noteq> []"
      using clean_path_take [OF Cons.prems] join_slash_clean_hd by (cases pre) auto
    then show ?thesis
      using Clean_path [of "pre @ [e]"] clean_path_take [of "pre @ [e]" es] Cons.prems join_slash_snoc [OF False, of e] by simp
  qed
  with Cons.IH [of "pre @ [e]"] Cons.prems show ?case by (simp add: as_string_def)
qed

section \<open>Torrents built by hand\<close>

definition single_info :: "bytes \<Rightarrow> int64 \<Rightarrow> int64 \<Rightarrow> bytes \<Rightarrow> Value" where
  "single_info name len plen ps = Dictionary
     [(str ''length'', Integer len), (str ''name'', ByteString name),
      (str ''piece length'', Integer plen), (str ''pieces'', ByteString ps)]"

definition file_value :: "int64 \<times> bytes list \<Rightarrow> Value" where
  "file_value f = Dictionary [(str ''length'', Integer (fst f)), (str ''path'', VList (map ByteString (snd f)))]"

definition multi_info :: "bytes \<Rightarrow> (int64 \<times> bytes list) list \<Rightarrow> int64 \<Rightarrow> bytes \<Rightarrow> Value" where
  "multi_info name files plen ps = Dictionary
     [(str ''files'', VList (map file_value files)), (str ''name'', ByteString name),
      (str ''piece length'', Integer plen), (str ''pieces'', ByteString ps)]"

definition torrent_value :: "bytes \<Rightarrow> Value \<Rightarrow> Value" where
  "torrent_value tracker info = Dictionary [(str ''announce'', ByteString tracker), (str ''info'', info)]"

lemmas infoCommon_eval =
  infoCommon_def set_name_def single_or_new_def as_string_def as_int_def as_list_def

lemma torrent_value_wf: "Value_wf info \<Longrightarrow> Value_wf (torrent_value tracker info)"
  by (simp add: torrent_value_def dict_wf_def str_def)

lemma single_info_wf: "in_i64 len \<Longrightarrow> in_i64 plen \<Longrightarrow> Value_wf (single_info name len plen ps)"
  by (simp add: single_info_def dict_wf_def str_def)

lemma multi_info_wf:
  "list_all (\<lambda>f. in_i64 (fst f)) files \<Longrightarrow> in_i64 plen \<Longrightarrow> Value_wf (multi_info name files plen ps)"
  by (simp add: multi_info_def file_value_def list_all_iff dict_wf_def str_def)

lemma map_order_ok_id [simp]: "map_order_ok (\<lambda>d. d)"
  by (simp add: map_order_ok_def)

lemma From_torrent:
  assumes "Value_wf info" and "info = Dictionary d" and "map_order_ok r" and "tracker \<noteq> []"
    and "apply_info (\<lambda>d. d) d zero_info = Ok i" and "m = zero_metainfo\<lparr>mInfo := i, Announce := tracker\<rparr>"
    and "validate m = Ok ()"
    and "slice_wf b" and "window b = Literal (torrent_value tracker info)"
  shows "From r (Ok b) = Ok m"
proof -
  have wf: "Value_wf (torrent_value tracker info)" using assms(1) by (rule torrent_value_wf)
  have "DecodeAll (Ok b) = Ok (torrent_value tracker info)"
    using assms by (intro DecodeAll_literal [of _ _ "[]" "[]"] wf) auto
  moreover have "From_value (\<lambda>d. d) (torrent_value tracker info) = Ok m"
    using assms by (simp add: From_value_def torrent_value_def apply_key_def as_dict_def as_string_def
        zero_metainfo_def)
  ultimately show ?thesis
    using From_value_order [OF assms(3) map_order_ok_id wf] by (simp add: From_def)
qed

lemma apply_info_single:
  "apply_info (\<lambda>d. d) [(str ''length'', Integer len), (str ''name'', ByteString name),
      (str ''piece length'', Integer plen), (str ''pieces'', ByteString ps)] zero_info =
   Ok \<lparr>SingleFile = Some \<lparr>sName = name, sLength = len, sMd5sum = None\<rparr>, MultiFile = None,
      Hash = sha1 (Literal (single_info name len plen ps)), PieceLength = plen,
      Pieces = EncodeToString ps, Private = None\<rparr>"
  by (simp add: apply_info_def infoCommon_eval zero_info_def zero_single_def single_info_def
      del: Literal.simps)

lemma file_entry_clean:
  "clean_path es \<Longrightarrow> file_entry (file_value (l, es)) = Ok \<lparr>fLength = l, fPath = join_slash es, fMd5Sum = None\<rparr>"
  using path_loop_clean [of "[]" es]
  by (simp add: file_entry_def file_value_def file_length_def file_md5sum_def file_path_def as_dict_def
      as_int_def as_list_def zero_file_def)

lemma map_ok_Ok: "(\<And>x. x \<in> set xs \<Longrightarrow> f x = Ok (g x)) \<Longrightarrow> map_ok f xs = Ok (map g xs)"
  by (induction xs) auto

lemma apply_info_multi:
  assumes "\<forall>f \<in> set files. clean_path (snd f)"
  shows "apply_info (\<lambda>d. d) [(str ''files'', VList (map file_value files)), (str ''name'', ByteString name),
      (str ''piece length'', Integer plen), (str ''pieces'', ByteString ps)] zero_info =
   Ok \<lparr>SingleFile = None, MultiFile = Some \<lparr>mName = name,
        mFiles = map (\<lambda>(l, es). \<lparr>fLength = l, fPath = join_slash es, fMd5Sum = None\<rparr>) files\<rparr>,
      Hash = sha1 (Literal (multi_info name files plen ps)), PieceLength = plen,
      Pieces = EncodeToString ps, Private = None\<rparr>"
proof -
  have "map_ok (file_entry \<circ> file_value) files =
      Ok (map (\<lambda>(l, es). \<lparr>fLength = l, fPath = join_slash es, fMd5Sum = None\<rparr>) files)"
    using assms by (intro map_ok_Ok) (auto simp: file_entry_clean)
  moreover have "map_ok file_entry (map file_value files) = map_ok (file_entry \<circ> file_value) files"
    by (induction files) auto
  ultimately show ?thesis
    by (simp add: apply_info_def infoCommon_eval zero_info_def zero_multi_def multi_info_def
        files_loop_multi del: Literal.simps)
qed

lemma From_info:
  assumes "map_order_ok r" and "From r b = Ok m"
  obtains d info ps where "DecodeAll b = Ok (Dictionary d)"
    and "dict_get d (str ''announce'') = Some (ByteString (Announce m))"
    and "dict_get d (str ''info'') = Some (Dictionary info)" and "dict_wf info"
    and "apply_info r info zero_info = Ok (mInfo m)" and "validate m = Ok ()"
    and "describes_pieces info (mInfo m) ps"
proof -
  from assms(2) obtain v where v: "DecodeAll b = Ok v" "From_value r v = Ok m"
    by (auto simp: From_def outcome_simps)
  from From_value_cases [OF assms(1) DecodeAll_wf [OF v(1)] v(2)] show thesis
    using apply_info_describes(2) [OF assms(1) _ _ refl] that v(1) by metis
qed

lemma From_multi_clean:
  assumes "map_order_ok r" and "tracker \<noteq> []" and "name \<noteq> []"
    and "\<forall>f \<in> set files. fst f \<noteq> 0 \<and> in_i64 (fst f) \<and> snd f \<noteq> [] \<and> clean_path (snd f)"
    and "in_i64 plen" and "ps \<noteq> []" and "length ps mod 20 = 0" and "slice_wf b"
    and "window b = Literal (torrent_value tracker (multi_info name files plen ps))"
  shows "From r (Ok b) = Ok (zero_metainfo\<lparr>mInfo :=
      \<lparr>SingleFile = None, MultiFile = Some \<lparr>mName = name,
         mFiles = map (\<lambda>(l, es). \<lparr>fLength = l, fPath = join_slash es, fMd5Sum = None\<rparr>) files\<rparr>,
       Hash = sha1 (Literal (multi_info name files plen ps)), PieceLength = plen,
       Pieces = EncodeToString ps, Private = None\<rparr>, Announce := tracker\<rparr>)"
proof -
  have "join_slash es \<noteq> []" if "(l, es) \<in> set files" for l es
    using that assms(4) join_slash_clean_hd by (cases es) force+
  with assms show ?thesis
    by (intro From_torrent [OF multi_info_wf multi_info_def _ _ apply_info_multi refl])
      (auto simp: validate_eq_Ok DecodeString_EncodeToString list_all_iff)
qed

text \<open>A small single-file torrent.\<close>

definition sample_info :: Value where
  "sample_info = single_info (str ''n'') 5 16 (replicate 20 7)"

definition sample_slice :: goslice where
  "sample_slice = of_bytes (Literal (torrent_value (str ''t'') sample_info))"

definition sample_metainfo :: MetaInfoFile where
  "sample_metainfo = zero_metainfo\<lparr>mInfo :=
      \<lparr>SingleFile = Some \<lparr>sName = str ''n'', sLength = 5, sMd5sum = None\<rparr>, MultiFile = None,
       Hash = sha1 (Literal sample_info), PieceLength = 16,
       Pieces = EncodeToString (replicate 20 7), Private = None\<rparr>, Announce := str ''t''\<rparr>"

lemmas literal_eval =
  dict_literal_def dict_keys_def string_literal_def FormatInt_def show_nat.simps digit_def str_def

lemma sample_slice:
  "slice_wf sample_slice" "window sample_slice = Literal (torrent_value (str ''t'') sample_info)"
  by (auto simp: sample_slice_def sample_info_def single_info_def torrent_value_def literal_eval
      intro!: slice_wf_of_bytes)

lemma sample_From: "map_order_ok r \<Longrightarrow> From r (Ok sample_slice) = Ok sample_metainfo"
  unfolding sample_metainfo_def sample_info_def using sample_slice
  by (intro From_torrent [OF single_info_wf single_info_def _ _ apply_info_single refl])
    (auto simp: sample_info_def validate_eq_Ok DecodeString_EncodeToString in_i64_def str_def)

lemma map_order_ok_rev [simp]: "map_order_ok rev"
  by (simp add: map_order_ok_def)

section \<open>Properties\<close>

text \<open>
  C25. The order in which Go ranges over the two dictionaries, which is unspecified, decides nothing but
  the text of an error: two enumerations give the same file, or both fail, and they
  panic only together. Which error is returned can depend on the order, as
  \<open>error_depends_on_order\<close> shows.
\<close>

theorem from_order_independent:
  assumes "map_order_ok r" and "map_order_ok r'"
  shows "(\<exists>m. From r b = Ok m \<and> From r' b = Ok m) \<or> (\<exists>e e'. From r b = Err e \<and> From r' b = Err e')
    \<or> is_panic (From r b) \<and> is_panic (From r' b)"
proof (cases "DecodeAll b")
  case (Ok v)
  have eq: "From_value r v = Ok m \<longleftrightarrow> From_value r' v = Ok m" for m
    using From_value_order [OF assms DecodeAll_wf [OF Ok]] .
  have "\<exists>m e. From_value q v = Ok m \<or> From_value q v = Err e" if "map_order_ok q" for q
    using From_value_no_panic [OF that, of v] by (cases "From_value q v") auto
  from this [OF assms(1)] this [OF assms(2)] eq show ?thesis by (simp add: From_def Ok) metis
qed (simp_all add: From_def)

theorem from_order_independent_witness:
  "From rev (Ok sample_slice) = Ok sample_metainfo"
  using from_order_independent [OF map_order_ok_id map_order_ok_rev, of "Ok sample_slice"] sample_From [OF map_order_ok_id]
  by simp

lemma error_depends_on_order:
  "\<exists>v e e'. Value_wf v \<and> From_value (\<lambda>d. d) v = Err e \<and> From_value rev v = Err e' \<and> e \<noteq> e'"
proof -
  let ?v = "Dictionary [(str ''announce'', Integer 1), (str ''comment'', Integer 1)]"
  have "Value_wf ?v" by (simp add: dict_wf_def in_i64_def str_def)
  moreover have "From_value (\<lambda>d. d) ?v = Err (ErrorMsg ''expected announce to be of type string'')"
    "From_value rev ?v = Err (ErrorMsg ''expected 'Commment' to be of type ByteString'')"
    by (simp_all add: From_value_def as_dict_def apply_key_def as_string_def)
  ultimately show ?thesis by blast
qed

text \<open>
  C16. A torrent file that is returned says what its dictionaries say: the tracker is the string
  under \<^verbatim>\<open>announce\<close>, the info hash is the SHA-1 of the info dictionary's literal, the piece hashes
  are the non-empty string under \<^verbatim>\<open>pieces\<close> whose length is a multiple of 20, and exactly one of
  the two modes is set, with its non-empty name and non-zero lengths.
\<close>

theorem from_describes:
  assumes "map_order_ok r" and "From r b = Ok m"
  shows "\<exists>d info ps. DecodeAll b = Ok (Dictionary d)
    \<and> dict_get d (str ''announce'') = Some (ByteString (Announce m)) \<and> Announce m \<noteq> []
    \<and> dict_get d (str ''info'') = Some (Dictionary info)
    \<and> Hash (mInfo m) = sha1 (Literal (Dictionary info))
    \<and> describes_pieces info (mInfo m) ps \<and> NumPieces m = Ok (int (length ps div 20)) \<and> 0 < length ps div 20
    \<and> (if dict_get info (str ''files'') = None then \<exists>sf. describes_single info (mInfo m) sf
       else \<exists>mf l. describes_multi info (mInfo m) mf l)"
proof -
  from From_info [OF assms] obtain d info ps where
    *: "DecodeAll b = Ok (Dictionary d)" "dict_get d (str ''announce'') = Some (ByteString (Announce m))"
      "dict_get d (str ''info'') = Some (Dictionary info)" and wf: "dict_wf info"
    and info: "apply_info r info zero_info = Ok (mInfo m)" and val: "validate m = Ok ()"
    and ps: "describes_pieces info (mInfo m) ps"
    by metis
  with NumPieces_describes [OF ps val] apply_info_describes [OF assms(1) wf info refl val]
  show ?thesis by (auto simp: validate_eq_Ok)
qed

theorem from_describes_witness:
  "\<exists>d info ps. DecodeAll (Ok sample_slice) = Ok (Dictionary d)
    \<and> dict_get d (str ''announce'') = Some (ByteString (str ''t''))
    \<and> dict_get d (str ''info'') = Some (Dictionary info)
    \<and> Hash (mInfo sample_metainfo) = sha1 (Literal (Dictionary info))
    \<and> describes_pieces info (mInfo sample_metainfo) ps"
proof -
  have "Announce sample_metainfo = str ''t''" by (simp add: sample_metainfo_def)
  with from_describes [OF map_order_ok_rev sample_From [OF map_order_ok_rev]] show ?thesis by metis
qed

text \<open>
  C26. Parsing inverts printing for single-file torrents: the literal of a torrent with a tracker, a
  name, a non-zero length and a whole number of piece hashes is parsed to exactly these fields, with
  the info hash of the info dictionary's literal.
\<close>

theorem from_single_file:
  assumes "map_order_ok r" and "tracker \<noteq> []" and "name \<noteq> []" and "len \<noteq> 0" and "in_i64 len"
    and "in_i64 plen" and "ps \<noteq> []" and "length ps mod 20 = 0" and "slice_wf b"
    and "window b = Literal (torrent_value tracker (single_info name len plen ps))"
  shows "From r (Ok b) = Ok (zero_metainfo\<lparr>mInfo :=
      \<lparr>SingleFile = Some \<lparr>sName = name, sLength = len, sMd5sum = None\<rparr>, MultiFile = None,
       Hash = sha1 (Literal (single_info name len plen ps)), PieceLength = plen,
       Pieces = EncodeToString ps, Private = None\<rparr>, Announce := tracker\<rparr>)"
  using assms
  by (intro From_torrent [OF single_info_wf single_info_def _ _ apply_info_single refl])
    (auto simp: validate_eq_Ok DecodeString_EncodeToString)

theorem from_single_file_witness:
  "From rev (Ok sample_slice) = Ok sample_metainfo"
  unfolding sample_metainfo_def sample_info_def
  by (rule from_single_file [where tracker = "str ''t''"])
    (use sample_slice in \<open>auto simp: in_i64_def str_def sample_info_def\<close>)

text \<open>
  C27. The same for multi-file torrents whose path elements are plain names: the files are listed in
  order with their lengths, and each path is its elements joined by slashes.
\<close>

theorem from_multi_file:
  assumes "map_order_ok r" and "tracker \<noteq> []" and "name \<noteq> []"
    and "\<forall>f \<in> set files. fst f \<noteq> 0 \<and> in_i64 (fst f) \<and> snd f \<noteq> [] \<and> list_all plain_elem (snd f)"
    and "in_i64 plen" and "ps \<noteq> []" and "length ps mod 20 = 0" and "slice_wf b"
    and "window b = Literal (torrent_value tracker (multi_info name files plen ps))"
  shows "From r (Ok b) = Ok (zero_metainfo\<lparr>mInfo :=
      \<lparr>SingleFile = None, MultiFile = Some \<lparr>mName = name,
         mFiles = map (\<lambda>(l, es). \<lparr>fLength = l, fPath = join_slash es, fMd5Sum = None\<rparr>) files\<rparr>,
       Hash = sha1 (Literal (multi_info name files plen ps)), PieceLength = plen,
       Pieces = EncodeToString ps, Private = None\<rparr>, Announce := tracker\<rparr>)"
  using From_multi_clean [OF assms(1-3) _ assms(5-9)] assms(4) clean_path_plain by blast

theorem from_multi_file_witness:
  "\<exists>m. From rev (Ok (of_bytes (Literal (torrent_value (str ''t'')
      (multi_info (str ''d'') [(3, [str ''a'', str ''b'']), (4, [str ''c''])] 16 (replicate 20 7)))))) = Ok m
    \<and> map_option (map fPath \<circ> mFiles) (MultiFile (mInfo m)) = Some [str ''a/b'', str ''c'']"
proof -
  let ?files = "[(3, [str ''a'', str ''b'']), (4, [str ''c''])] :: (int64 \<times> bytes list) list"
  have len: "slice_wf (of_bytes (Literal (torrent_value (str ''t'')
      (multi_info (str ''d'') ?files 16 (replicate 20 7)))))"
    by (rule slice_wf_of_bytes) (simp add: multi_info_def file_value_def torrent_value_def literal_eval)
  have "From rev (Ok (of_bytes (Literal (torrent_value (str ''t'')
      (multi_info (str ''d'') ?files 16 (replicate 20 7)))))) = Ok (zero_metainfo\<lparr>mInfo :=
      \<lparr>SingleFile = None, MultiFile = Some \<lparr>mName = str ''d'',
         mFiles = map (\<lambda>(l, es). \<lparr>fLength = l, fPath = join_slash es, fMd5Sum = None\<rparr>) ?files\<rparr>,
       Hash = sha1 (Literal (multi_info (str ''d'') ?files 16 (replicate 20 7))), PieceLength = 16,
       Pieces = EncodeToString (replicate 20 7), Private = None\<rparr>, Announce := str ''t''\<rparr>)"
    by (rule from_multi_file) (use len in \<open>auto simp: in_i64_def str_def plain_elem_def\<close>)
  then show ?thesis by (auto simp: str_def)
qed

text \<open>
  Parsing never panics by itself: whatever value was decoded, and whatever the order of the
  ranges, the code dereferences no nil pointer.
\<close>

theorem from_no_panic:
  assumes "map_order_ok r" and "\<not> is_panic (DecodeAll b)"
  shows "\<not> is_panic (From r b)"
  using assms From_value_no_panic [OF assms(1)]
  by (cases "DecodeAll b") (auto simp: From_def elim!: is_panic.elims)

theorem from_no_panic_witness: "\<not> is_panic (From rev (Err IoEOF))"
  using from_no_panic [of rev "Err IoEOF"] by (simp add: DecodeAll_def)

text \<open>
  For a parsed torrent with less than 4 GiB of piece hashes, \<open>PieceHash\<close> returns the 20 bytes of
  the given piece, the hashes of all \<open>NumPieces\<close> pieces in order make up the whole string, and no
  piece of the torrent makes it panic.
\<close>

theorem piece_hash_chunks:
  assumes "map_order_ok r" and "From r b = Ok m" and "Pieces (mInfo m) = EncodeToString ps"
    and "length ps < 2 ^ 32"
  shows "NumPieces m = Ok (int (length ps div 20))
    \<and> (\<forall>i. unat i < length ps div 20 \<longrightarrow> PieceHash spare m i = Ok (take 20 (drop (20 * unat i) ps)))
    \<and> concat (map (\<lambda>n. take 20 (drop (20 * n) ps)) [0..<length ps div 20]) = ps"
proof -
  from From_info [OF assms(1,2)] obtain info ps' where
    val: "validate m = Ok ()" and ps': "describes_pieces info (mInfo m) ps'" by metis
  then have [simp]: "ps' = ps" and "length ps mod 20 = 0"
    using assms(3) by (auto simp: describes_pieces_def)
  moreover from this(2) have "20 * (length ps div 20) = length ps" by auto
  ultimately show ?thesis
    using NumPieces_describes [OF ps' val] PieceHash_chunk [OF assms(3,4) refl]
      concat_chunks [of 20 "length ps div 20" ps] by auto
qed

theorem piece_hash_chunks_witness:
  "PieceHash (\<lambda>_. [1, 2, 3]) sample_metainfo 0 = Ok (replicate 20 7)"
  using piece_hash_chunks [OF map_order_ok_rev sample_From [OF map_order_ok_rev], of "replicate 20 7" "\<lambda>_. [1, 2, 3]"]
  by (simp add: sample_metainfo_def)

text \<open>
  C28. Path elements are not checked: \<^verbatim>\<open>From\<close> accepts, validation included, a multi-file torrent in which the path of a
  file starts with any number of \<^verbatim>\<open>..\<close> elements, and keeps them in the path of the file. Joined to a
  directory that is no deeper than that, the path leaves the directory.
\<close>

theorem path_traversal_accepted:
  assumes "map_order_ok r" and "tracker \<noteq> []" and "name \<noteq> []"
    and "\<forall>f \<in> set files. fst f \<noteq> 0 \<and> in_i64 (fst f) \<and> snd f \<noteq> [] \<and> clean_path (snd f)"
    and "in_i64 plen" and "ps \<noteq> []" and "length ps mod 20 = 0" and "slice_wf b"
    and "window b = Literal (torrent_value tracker (multi_info name files plen ps))"
    and "(l, replicate n (str ''..'') @ es) \<in> set files" and "list_all plain_elem es" and "es \<noteq> []"
    and "list_all plain_elem ds" and "ds \<noteq> []" and "length ds \<le> n"
  shows "\<exists>m mf f. From r (Ok b) = Ok m \<and> MultiFile (mInfo m) = Some mf \<and> f \<in> set (mFiles mf)
    \<and> fPath f = join_slash (replicate n (str ''..'') @ es)
    \<and> Join [join_slash ds, fPath f] = join_slash (replicate (n - length ds) (str ''..'') @ es)"
proof -
  let ?g = "\<lambda>(l, es). \<lparr>fLength = l, fPath = join_slash es, fMd5Sum = None\<rparr>"
  let ?f = "?g (l, replicate n (str ''..'') @ es)"
  have "?f \<in> ?g ` set files" using assms(10) by (rule imageI)
  moreover have "fPath ?f = join_slash (replicate n (str ''..'') @ es)" by simp
  ultimately show ?thesis
    unfolding From_multi_clean [OF assms(1-9)]
    using Join_climb [OF assms(11-15)] by (fastforce simp del: Join.simps)
qed

theorem path_traversal_accepted_witness:
  "\<exists>m mf f. From rev (Ok (of_bytes (Literal (torrent_value (str ''t'')
      (multi_info (str ''d'') [(1, [str ''..'', str ''..'', str ''x''])] 16 (replicate 20 7)))))) = Ok m
    \<and> MultiFile (mInfo m) = Some mf \<and> f \<in> set (mFiles mf) \<and> fPath f = str ''../../x''
    \<and> Join [str ''dl/hash'', fPath f] = str ''x''"
proof -
  let ?files = "[(1, [str ''..'', str ''..'', str ''x''])] :: (int64 \<times> bytes list) list"
  let ?b = "of_bytes (Literal (torrent_value (str ''t'') (multi_info (str ''d'') ?files 16 (replicate 20 7))))"
  have len: "slice_wf ?b"
    by (rule slice_wf_of_bytes) (simp add: multi_info_def file_value_def torrent_value_def literal_eval)
  have two: "replicate 2 x = [x, x]" for x :: bytes by (simp add: numeral_2_eq_2)
  have "\<exists>m mf f. From rev (Ok ?b) = Ok m \<and> MultiFile (mInfo m) = Some mf \<and> f \<in> set (mFiles mf)
      \<and> fPath f = join_slash (replicate 2 (str ''..'') @ [str ''x''])
      \<and> Join [join_slash [str ''dl'', str ''hash''], fPath f] = join_slash (replicate (2 - length [str ''dl'', str ''hash'']) (str ''..'') @ [str ''x''])"
    by (rule path_traversal_accepted [where l = 1 and tracker = "str ''t''" and name = "str ''d''" and plen = 16 and files = ?files])
      (use len in \<open>simp_all add: in_i64_def plain_elem_def str_def two\<close>)
  moreover have "join_slash (replicate 2 (str ''..'') @ [str ''x'']) = str ''../../x''" "join_slash [str ''dl'', str ''hash''] = str ''dl/hash''"
    by (simp_all add: str_def two)
  ultimately show ?thesis by (simp del: Join.simps)
qed

end
