(* ===== verification/Peer.thy ===== *)
theory Peer
  imports Messages Bitfield
begin

text \<open>
  Package \<^verbatim>\<open>p2p/peer\<close>: one connection to a remote peer.

  \<^item> \<open>Peer\<close> is the struct of \<^verbatim>\<open>peer.go\<close>; a nil receiver is \<open>None\<close>. The atomics of the
    connection status keep the number they store; choke and interest flags are the enumerations.
  \<^item> A connection \<open>Conn\<close> has the bytes that will still arrive (a \<open>reader\<close>) and those
    written so far. What the network answers to the calls of an operation is its argument of type
    \<open>NetEnv\<close>; \<open>writer_ok\<close> is the documented contract of \<^verbatim>\<open>io.Writer\<close>.
  \<^item> \<open>process\<close> and \<open>listener_loop\<close> are \<^verbatim>\<open>process\<close> and the loop of \<^verbatim>\<open>listener\<close> in
    \<^verbatim>\<open>listener.go\<close>; a send on one of the peer's channels is an element of the list of
    emissions. The loop may run for ever, so it is a partial function.
  \<^item> The locale \<open>send_op\<close> is the contract shared by the ten \<^verbatim>\<open>Send\<close> methods.
\<close>

section \<open>Data\<close>

datatype Status = Choked | UnChoked

datatype Interest = Interested | NotInterested

datatype ConnectionStatus = ConnectionEstablished | ConnectionKilled

datatype peerType = leecher | seeder

datatype chan_state = NilChan | OpenChan | ClosedChan

fun status_code :: "ConnectionStatus \<Rightarrow> u32" where
  "status_code ConnectionEstablished = 0"
| "status_code ConnectionKilled = 1"

record Conn =
  cin :: reader
  cout :: bytes
  cclosed :: bool

record NetEnv =
  write_deadline :: "error option"
  write_result :: "bytes \<Rightarrow> nat \<times> error option"
  read_deadline :: "error option"
  close_result :: "error option"
  early :: "(nat \<Rightarrow> error option) option"

record Peer =
  PeerId :: bytes
  Addr :: bytes
  conn :: "Conn option"
  connectionStatus :: u32
  peer_typ :: peerType
  StatusRemote :: Status
  StatusThis :: Status
  InterestRemote :: Interest
  InterestThis :: Interest
  pieces_chan :: chan_state
  requests_chan :: chan_state
  cancels_chan :: chan_state
  PeerBitfield :: BitField

type_synonym peer_op = "Peer \<Rightarrow> Peer \<times> unit outcome"

section \<open>Writing\<close>

definition lift_err :: "error option \<Rightarrow> unit outcome" where
  "lift_err e = (case e of None \<Rightarrow> Ok () | Some e \<Rightarrow> Err e)"

text \<open>\<^verbatim>\<open>io.Copy(conn, bytes.NewReader(msg))\<close>: one \<^verbatim>\<open>Write\<close> of the whole message.\<close>

definition io_Copy :: "NetEnv \<Rightarrow> bytes \<Rightarrow> Conn \<Rightarrow> Conn \<times> nat outcome" where
  "io_Copy env msg c =
     (case write_result env msg of (n, e) \<Rightarrow>
      if length msg < n then (c, Panic ''bytes.Reader.WriteTo: invalid Write count'')
      else (c\<lparr>cout := cout c @ take n msg\<rparr>,
            case e of Some e \<Rightarrow> Err e
            | None \<Rightarrow> if n \<noteq> length msg then Err (ErrorMsg ''short write'') else Ok n))"

definition write_msg :: "NetEnv \<Rightarrow> string \<Rightarrow> bytes \<Rightarrow> peer_op" where
  "write_msg env what msg p =
     (case conn p of
        None \<Rightarrow> (p, nil_deref)
      | Some c \<Rightarrow>
          (case write_deadline env of
             Some e \<Rightarrow> (p, Err e)
           | None \<Rightarrow>
               (case io_Copy env msg c of (c', r) \<Rightarrow>
                (p\<lparr>conn := Some c'\<rparr>,
                 obind (oerr (Wrapped (''failed to write '' @ what)) r) (\<lambda>w.
                 if w \<noteq> length msg then Err (ErrorMsg (''failed to write all of '' @ what))
                 else Ok ())))))"

definition established :: "peer_op \<Rightarrow> peer_op" where
  "established act p =
     (if connectionStatus p \<noteq> status_code ConnectionEstablished
      then (p, Err (ErrorMsg ''invalid connection status %s, needed %s''))
      else act p)"

definition on_peer :: "peer_op \<Rightarrow> Peer option \<Rightarrow> Peer option \<times> unit outcome" where
  "on_peer act p =
     (case p of None \<Rightarrow> (None, Ok ()) | Some p \<Rightarrow> (case act p of (p', r) \<Rightarrow> (Some p', r)))"

definition after_ok :: "(Peer \<Rightarrow> Peer) \<Rightarrow> peer_op \<Rightarrow> peer_op" where
  "after_ok f act p = (case act p of (p', Ok u) \<Rightarrow> (f p', Ok u) | (p', r) \<Rightarrow> (p', r))"

definition SendKeepAlive :: "NetEnv \<Rightarrow> Peer option \<Rightarrow> Peer option \<times> unit outcome" where
  "SendKeepAlive env = on_peer (established (write_msg env ''keepalive message'' KeepAlive_Serialize))"

definition SendUnchoke :: "NetEnv \<Rightarrow> Peer option \<Rightarrow> Peer option \<times> unit outcome" where
  "SendUnchoke env =
     on_peer (established
       (after_ok (StatusThis_update (\<lambda>_. UnChoked))
          (write_msg env ''unchoke message'' Unchoke_Serialize)))"

definition SendChoke :: "NetEnv \<Rightarrow> Peer option \<Rightarrow> Peer option \<times> unit outcome" where
  "SendChoke env =
     on_peer (established
       (after_ok (StatusThis_update (\<lambda>_. Choked))
          (write_msg env ''choke message'' Choke_Serialize)))"

definition SendInterested :: "NetEnv \<Rightarrow> Peer option \<Rightarrow> Peer option \<times> unit outcome" where
  "SendInterested env =
     on_peer (established
       (after_ok (InterestThis_update (\<lambda>_. Interested))
          (write_msg env ''interest message'' Interest_Serialize)))"

definition SendNotInterested :: "NetEnv \<Rightarrow> Peer option \<Rightarrow> Peer option \<times> unit outcome" where
  "SendNotInterested env =
     on_peer (established
       (after_ok (InterestThis_update (\<lambda>_. NotInterested))
          (write_msg env ''not-interest message'' NotInterest_Serialize)))"

definition SendBitfield :: "NetEnv \<Rightarrow> bytes \<Rightarrow> Peer option \<Rightarrow> Peer option \<times> unit outcome" where
  "SendBitfield env b =
     on_peer (established
       (write_msg env ''bitfield message'' (Bitfield_Serialize \<lparr>bitfield_bits = b\<rparr>)))"

definition SendRequest :: "NetEnv \<Rightarrow> Request \<Rightarrow> Peer option \<Rightarrow> Peer option \<times> unit outcome" where
  "SendRequest env req =
     on_peer (established (\<lambda>p.
       case Request_Validate req of
         Err e \<Rightarrow> (p, Err (Wrapped ''invalid request: '' e))
       | _ \<Rightarrow> write_msg env ''request message'' (Request_Serialize req) p))"

definition SendCancel :: "NetEnv \<Rightarrow> Cancel \<Rightarrow> Peer option \<Rightarrow> Peer option \<times> unit outcome" where
  "SendCancel env cancel =
     on_peer (established (\<lambda>p.
       case Cancel_Validate cancel of
         Err e \<Rightarrow> (p, Err (Wrapped ''invalid request: '' e))
       | _ \<Rightarrow> write_msg env ''request message'' (Cancel_Serialize cancel) p))"

definition SendHave :: "NetEnv \<Rightarrow> Have \<Rightarrow> Peer option \<Rightarrow> Peer option \<times> unit outcome" where
  "SendHave env have_m = on_peer (established (write_msg env ''have message'' (Have_Serialize have_m)))"

definition SendPiece :: "NetEnv \<Rightarrow> Piece \<Rightarrow> Peer option \<Rightarrow> Peer option \<times> unit outcome" where
  "SendPiece env piece = on_peer (established (write_msg env ''have message'' (Piece_Serialize piece)))"

section \<open>Handshakes and constructors\<close>

definition handshake_of :: "bytes \<Rightarrow> bytes \<Rightarrow> Handshake" where
  "handshake_of infoHash peerID =
     \<lparr>hs_pstr = ProtocolV1, hs_reserved = replicate 8 0, hs_info_hash = infoHash,
      hs_peer_id = peerID\<rparr>"

definition read_handshake :: "NetEnv \<Rightarrow> peer_op" where
  "read_handshake env p =
     (case conn p of
        None \<Rightarrow> (p, nil_deref)
      | Some c \<Rightarrow>
          (case read_deadline env of
             Some e \<Rightarrow> (p, Err e)
           | None \<Rightarrow>
               (case ReadFull HandshakeLength (cin c) of (res, r) \<Rightarrow>
                let p' = p\<lparr>conn := Some (c\<lparr>cin := r\<rparr>)\<rparr> in
                (case res of
                   Err e \<Rightarrow> (p', Err (Wrapped ''failed to read v1 handshake message: '' e))
                 | Panic s \<Rightarrow> (p', Panic s)
                 | Ok resp \<Rightarrow>
                     if length resp \<noteq> HandshakeLength
                     then (p', Err (ErrorMsg ''only partial handshake message received''))
                     else (case Handshake_Deserialize resp of
                       Err e \<Rightarrow> (p', Err (Wrapped ''failed to deserialize v1 handshake message: '' e))
                     | Panic s \<Rightarrow> (p', Panic s)
                     | Ok h \<Rightarrow> (p'\<lparr>PeerId := hs_peer_id h\<rparr>, Ok ()))))))"

definition write_handshake :: "NetEnv \<Rightarrow> bytes \<Rightarrow> bytes \<Rightarrow> peer_op" where
  "write_handshake env infoHash peerID p =
     (case Handshake_Serialize (handshake_of infoHash peerID) of
        Ok msg \<Rightarrow> write_msg env ''v1 handshake message'' msg p
      | Err e \<Rightarrow> (p, Err e)
      | Panic s \<Rightarrow> (p, Panic s))"

definition initiateHandshakeV1 ::
  "NetEnv \<Rightarrow> Conn outcome \<Rightarrow> bytes \<Rightarrow> bytes \<Rightarrow> peer_op" where
  "initiateHandshakeV1 env dial infoHash peerID p =
     (case dial of
        Err e \<Rightarrow> (p, Err (Wrapped ''failed to re-connect to peer at %s: '' e))
      | Panic s \<Rightarrow> (p, Panic s)
      | Ok c \<Rightarrow>
          (case write_handshake env infoHash peerID (p\<lparr>conn := Some c\<rparr>) of
             (p', Ok _) \<Rightarrow> read_handshake env p'
           | (p', r) \<Rightarrow> (p', r)))"

definition sendHandshakeV1 :: "NetEnv \<Rightarrow> bytes \<Rightarrow> bytes \<Rightarrow> peer_op" where
  "sendHandshakeV1 env infoHash peerID p =
     (if conn p \<noteq> None \<and> write_deadline env \<noteq> None
      then (p, lift_err (write_deadline env))
      else write_handshake env infoHash peerID p)"

definition new_peer :: "bytes \<Rightarrow> bytes \<Rightarrow> Conn option \<Rightarrow> peerType \<Rightarrow> BitField \<Rightarrow> Peer" where
  "new_peer pid addr c t b =
     \<lparr>PeerId = pid, Addr = addr, conn = c, connectionStatus = 0, peer_typ = t, StatusRemote = Choked,
      StatusThis = Choked, InterestRemote = NotInterested, InterestThis = NotInterested,
      pieces_chan = NilChan, requests_chan = NilChan, cancels_chan = NilChan, PeerBitfield = b\<rparr>"

definition close_conn :: "NetEnv \<Rightarrow> Conn \<Rightarrow> Conn" where
  "close_conn env c = c\<lparr>cclosed := True, cin := (cin c)\<lparr>rdata := [], rerr := NetClosed\<rparr>\<rparr>"

definition failed_handshake :: "NetEnv \<Rightarrow> error \<Rightarrow> Peer \<Rightarrow> Peer outcome" where
  "failed_handshake env e p =
     (if conn p \<noteq> None \<and> close_result env \<noteq> None then Err (Wrapped ''%w: %w'' e) else Err e)"

definition ConnectionStatus_of :: "Peer option \<Rightarrow> ConnectionStatus outcome" where
  "ConnectionStatus_of p =
     (case p of
        None \<Rightarrow> Ok ConnectionKilled
      | Some p \<Rightarrow>
          if connectionStatus p = status_code ConnectionKilled then Ok ConnectionKilled
          else if connectionStatus p = status_code ConnectionEstablished then Ok ConnectionEstablished
          else Panic ''unknown connection status'')"

section \<open>Reading\<close>

datatype Emit = EmitPiece Piece | EmitRequest Request | EmitCancel Cancel

definition could_not :: "'a outcome \<Rightarrow> 'a outcome" where
  "could_not = oerr (Wrapped ''could not deserialize message %s: '')"

definition gate_leecher :: "Peer \<Rightarrow> unit outcome" where
  "gate_leecher p =
     (if StatusThis p = Choked then Err (ErrorMsg ''dropped request as peer is choked'')
      else if InterestRemote p = NotInterested
      then Err (ErrorMsg ''dropped request a peer is not interested'')
      else Ok ())"

definition process :: "Peer \<Rightarrow> Message \<Rightarrow> (Peer \<times> Emit list) outcome" where
  "process p msg =
     (case msg_type msg of
        KeepAliveType \<Rightarrow> Ok (p, [])
      | ChokeType \<Rightarrow> Ok (p\<lparr>StatusRemote := Choked\<rparr>, [])
      | UnChokeType \<Rightarrow> Ok (p\<lparr>StatusRemote := UnChoked\<rparr>, [])
      | InterestType \<Rightarrow> Ok (p\<lparr>InterestRemote := Interested\<rparr>, [])
      | NotInterestType \<Rightarrow> Ok (p\<lparr>InterestRemote := NotInterested\<rparr>, [])
      | HaveType \<Rightarrow>
          obind (could_not (Have_Deserialize (msg_payload msg))) (\<lambda>h.
          obind (oerr (Wrapped ''could not acknowledge piece %v: '')
                   (SetWithCheck (PeerBitfield p) (have_index h))) (\<lambda>b.
          Ok (p\<lparr>PeerBitfield := b\<rparr>, [])))
      | BitfieldType \<Rightarrow>
          obind (could_not (Bitfield_Deserialize (msg_payload msg))) (\<lambda>b.
          if length (bitfield_bits b) \<noteq> Len (PeerBitfield p)
          then Err (ErrorMsg ''received incorrect bit-flied length'')
          else obind (Overwrite (PeerBitfield p) (bitfield_bits b)) (\<lambda>b'.
               Ok (p\<lparr>PeerBitfield := b'\<rparr>, [])))
      | PieceType \<Rightarrow>
          if peer_typ p = seeder then
            obind (could_not (Piece_Deserialize (msg_payload msg))) (\<lambda>pc.
            Ok (p, [EmitPiece pc]))
          else Err (ErrorMsg ''received piece message on leecher connection'')
      | PortType \<Rightarrow> Err (ErrorMsg ''dht is not supported'')
      | RequestType \<Rightarrow>
          if peer_typ p = leecher then
            obind (could_not (Request_Deserialize (msg_payload msg))) (\<lambda>req.
            obind (gate_leecher p) (\<lambda>_. Ok (p, [EmitRequest req])))
          else Err (ErrorMsg ''did not expect a request message on a seeder connection'')
      | CancelType \<Rightarrow>
          if peer_typ p = leecher then
            obind (could_not (Cancel_Deserialize (msg_payload msg))) (\<lambda>cnc.
            obind (gate_leecher p) (\<lambda>_. Ok (p, [EmitCancel cnc])))
          else Err (ErrorMsg ''did not expect a cancel message on a seeder connection''))"

fun error_is :: "error \<Rightarrow> error \<Rightarrow> bool" where
  "error_is (Wrapped m e) t = (Wrapped m e = t \<or> error_is e t)"
| "error_is (DecodingError a b (Some e)) t = (DecodingError a b (Some e) = t \<or> error_is e t)"
| "error_is e t = (e = t)"

text \<open>
  The loop of \<^verbatim>\<open>listener\<close>. \<open>deadline i\<close> is what the \<open>i\<close>-th \<^verbatim>\<open>SetReadDeadline\<close> returns.
  A message that cannot be processed is logged and dropped, so it leaves the peer as it was.
\<close>

partial_function (option) listener_loop ::
  "NetEnv \<Rightarrow> (nat \<Rightarrow> error option) \<Rightarrow> nat \<Rightarrow> Peer \<Rightarrow> Emit list \<Rightarrow> (Peer \<times> Emit list) outcome option"
where
  "listener_loop env deadline i p out =
     (case conn p of
        None \<Rightarrow> Some nil_deref
      | Some c \<Rightarrow>
          if deadline i \<noteq> None then Some (Ok (p, out))
          else (case Identify (cin c) of (res, r) \<Rightarrow>
            let p1 = p\<lparr>conn := Some (c\<lparr>cin := r\<rparr>)\<rparr> in
            (case res of
               Panic s \<Rightarrow> Some (Panic s)
             | Err e \<Rightarrow>
                 if error_is e DeadlineExceeded
                 then Some (Ok (p1\<lparr>conn := Some (close_conn env (c\<lparr>cin := r\<rparr>))\<rparr>, out))
                 else if error_is e IoEOF \<or> error_is e NetClosed then Some (Ok (p1, out))
                 else listener_loop env deadline (Suc i) p1 out
             | Ok msg \<Rightarrow>
                 (case process p1 msg of
                    Panic s \<Rightarrow> Some (Panic s)
                  | Err e \<Rightarrow> listener_loop env deadline (Suc i) p1 out
                  | Ok (p2, es) \<Rightarrow> listener_loop env deadline (Suc i) p2 (out @ es)))))"

fun close_chan :: "chan_state \<Rightarrow> chan_state outcome" where
  "close_chan OpenChan = Ok ClosedChan"
| "close_chan NilChan = Panic ''close of nil channel''"
| "close_chan ClosedChan = Panic ''close of closed channel''"

definition listener_exit :: "Peer \<Rightarrow> Peer outcome" where
  "listener_exit p =
     obind (case peer_typ p of
       leecher \<Rightarrow>
         obind (close_chan (requests_chan p)) (\<lambda>rc.
         obind (close_chan (cancels_chan p)) (\<lambda>cc.
         Ok (p\<lparr>requests_chan := rc, cancels_chan := cc\<rparr>)))
     | seeder \<Rightarrow> obind (close_chan (pieces_chan p)) (\<lambda>pc. Ok (p\<lparr>pieces_chan := pc\<rparr>)))
     (\<lambda>p'. Ok (p'\<lparr>connectionStatus := status_code ConnectionKilled\<rparr>))"

definition listener :: "NetEnv \<Rightarrow> (nat \<Rightarrow> error option) \<Rightarrow> Peer \<Rightarrow> (Peer \<times> Emit list) outcome option" where
  "listener env deadline p =
     map_option (\<lambda>res. obind res (\<lambda>(p', es). obind (listener_exit p') (\<lambda>p''. Ok (p'', es))))
       (listener_loop env deadline 0 p [])"

text \<open>
  The end of the two constructors: \<^verbatim>\<open>go p.listener()\<close>, then the store of the status. The messages the
  listener handles do not touch the status, so all that matters is whether the listener reaches its
  end before the store: \<open>early\<close> says so, with the results of its \<^verbatim>\<open>SetReadDeadline\<close> calls. Nobody receives from
  the channels of the peer yet, so a listener that has something to send blocks and does not get there.
\<close>

definition store_established :: "Peer \<Rightarrow> Peer" where
  "store_established p = p\<lparr>connectionStatus := status_code ConnectionEstablished\<rparr>"

definition start_listener :: "NetEnv \<Rightarrow> Peer \<Rightarrow> Peer outcome" where
  "start_listener env p =
     (case early env of
        None \<Rightarrow> Ok (store_established p)
      | Some deadline \<Rightarrow>
          (case listener env deadline p of
             Some (Ok (q, [])) \<Rightarrow> Ok (store_established q)
           | Some (Panic s) \<Rightarrow> Panic s
           | _ \<Rightarrow> Ok (store_established p)))"

definition NewSeederConnection ::
  "NetEnv \<Rightarrow> Conn outcome \<Rightarrow> bytes \<Rightarrow> int64 \<Rightarrow> bytes \<Rightarrow> bytes \<Rightarrow> Peer outcome" where
  "NewSeederConnection env dial addr numP infoHash clientId =
     obind (NewBitfield numP) (\<lambda>b.
     (case initiateHandshakeV1 env dial infoHash clientId (new_peer [] addr None seeder b) of
        (p, Ok _) \<Rightarrow> start_listener env (p\<lparr>pieces_chan := OpenChan\<rparr>)
      | (p, Err e) \<Rightarrow> failed_handshake env e p
      | (p, Panic s) \<Rightarrow> Panic s))"

definition NewLeecherConnection ::
  "NetEnv \<Rightarrow> bytes \<Rightarrow> bytes \<Rightarrow> int64 \<Rightarrow> Conn \<Rightarrow> bytes \<Rightarrow> bytes \<Rightarrow> Peer outcome" where
  "NewLeecherConnection env peerID addr numP c infoHash clientId =
     obind (NewBitfield numP) (\<lambda>b.
     (case sendHandshakeV1 env infoHash clientId (new_peer peerID addr (Some c) leecher b) of
        (p, Ok _) \<Rightarrow> start_listener env (p\<lparr>requests_chan := OpenChan, cancels_chan := OpenChan\<rparr>)
      | (p, Err e) \<Rightarrow> failed_handshake env e p
      | (p, Panic s) \<Rightarrow> Panic s))"

text \<open>
  \<^verbatim>\<open>Close\<close>: the connection is closed, which ends the listener's reads; \<^verbatim>\<open>wg.Wait\<close> waits for the
  listener, whose run on the closed connection is part of the operation.
\<close>

definition Peer_Close ::
  "NetEnv \<Rightarrow> (nat \<Rightarrow> error option) \<Rightarrow> bool \<Rightarrow> Peer option \<Rightarrow> (Peer option \<times> unit outcome) option" where
  "Peer_Close env deadline running po =
     (case po of
        None \<Rightarrow> Some (None, Ok ())
      | Some p \<Rightarrow>
          let p1 = (case conn p of None \<Rightarrow> p | Some c \<Rightarrow> p\<lparr>conn := Some (close_conn env c)\<rparr>);
              err = (if conn p = None then Ok () else lift_err (close_result env));
              fin = (\<lambda>q. q\<lparr>connectionStatus := status_code ConnectionKilled\<rparr>)
          in if running
             then map_option (\<lambda>res. case res of
                    Ok (q, es) \<Rightarrow> (Some (fin q), err)
                  | Err e \<Rightarrow> (Some (fin p1), err)
                  | Panic s \<Rightarrow> (Some p1, Panic s)) (listener env deadline p1)
             else Some (Some (fin p1), err))"

section \<open>The contract of the Send methods\<close>

definition writer_ok :: "NetEnv \<Rightarrow> bool" where
  "writer_ok env \<longleftrightarrow> (\<forall>msg. fst (write_result env msg) \<le> length msg
     \<and> (snd (write_result env msg) = None \<longrightarrow> fst (write_result env msg) = length msg))"

definition net_up :: "NetEnv \<Rightarrow> bool" where
  "net_up env \<longleftrightarrow> write_deadline env = None \<and> read_deadline env = None
     \<and> (\<forall>msg. write_result env msg = (length msg, None))"

lemma write_msg_Ok:
  assumes "write_msg env what msg p = (p', Ok u)" and "conn p = Some c"
  shows "p' = p\<lparr>conn := Some (c\<lparr>cout := cout c @ msg\<rparr>)\<rparr>"
  using assms
  by (auto simp: write_msg_def io_Copy_def outcome_simps split: option.splits if_splits prod.splits)

lemma write_msg_fails:
  assumes "write_msg env what msg p = (p', r)" and "conn p = Some c" and "writer_ok env"
  shows "\<not> is_panic r \<and> (\<exists>n. p' = p\<lparr>conn := Some (c\<lparr>cout := cout c @ take n msg\<rparr>)\<rparr>)"
proof -
  obtain n e where w: "write_result env msg = (n, e)" by force
  then have n: "n \<le> length msg" using assms(3) by (auto simp: writer_ok_def dest: spec [of _ msg])
  show ?thesis
  proof (cases "write_deadline env")
    case None
    with assms w n have "p' = p\<lparr>conn := Some (c\<lparr>cout := cout c @ take n msg\<rparr>)\<rparr>" and "\<not> is_panic r"
      by (cases e; auto simp: write_msg_def io_Copy_def split: if_splits)+
    then show ?thesis by blast
  next
    case (Some e)
    with assms have "p' = p\<lparr>conn := Some (c\<lparr>cout := cout c @ take 0 msg\<rparr>)\<rparr>" and "\<not> is_panic r"
      by (cases p; cases c; auto simp: write_msg_def)+
    then show ?thesis by blast
  qed
qed

lemma write_msg_net_up:
  "net_up env \<Longrightarrow> conn p = Some c \<Longrightarrow>
     write_msg env what msg p = (p\<lparr>conn := Some (c\<lparr>cout := cout c @ msg\<rparr>)\<rparr>, Ok ())"
  by (simp add: net_up_def write_msg_def io_Copy_def)

locale send_op =
  fixes op :: "NetEnv \<Rightarrow> Peer option \<Rightarrow> Peer option \<times> unit outcome"
    and what :: string
    and wire :: bytes
    and effect :: "Peer \<Rightarrow> Peer"
    and permitted :: bool
  assumes nil_receiver: "op env None = (None, Ok ())"
    and killed: "connectionStatus p \<noteq> 0 \<Longrightarrow> \<exists>e. op env (Some p) = (Some p, Err e)"
    and refused: "\<not> permitted \<Longrightarrow> \<exists>e. op env (Some p) = (Some p, Err e)"
    and sends: "permitted \<Longrightarrow> connectionStatus p = 0 \<Longrightarrow>
      op env (Some p) = (case write_msg env what wire p of
        (p', Ok u) \<Rightarrow> (Some (effect p'), Ok u) | (p', r) \<Rightarrow> (Some p', r))"
begin

lemma ok_written:
  assumes "op env (Some p) = (po, Ok u)" and "conn p = Some c"
  shows "permitted \<and> connectionStatus p = 0
    \<and> po = Some (effect (p\<lparr>conn := Some (c\<lparr>cout := cout c @ wire\<rparr>)\<rparr>))"
proof -
  have 1: "permitted" "connectionStatus p = 0"
    using assms(1) killed [of p env] refused [of env p] by auto
  obtain p' r where w: "write_msg env what wire p = (p', r)" by force
  then have "r = Ok u" and "po = Some (effect p')"
    using assms(1) sends [OF 1, of env] by (auto split: outcome.splits)
  with 1 w write_msg_Ok assms(2) show ?thesis by auto
qed

lemma failed_unchanged:
  assumes "op env (Some p) = (po, Err e)" and "conn p = Some c" and "writer_ok env"
  shows "\<exists>n. po = Some (p\<lparr>conn := Some (c\<lparr>cout := cout c @ take n wire\<rparr>)\<rparr>)"
proof (cases "permitted \<and> connectionStatus p = 0")
  case True
  obtain p' r where w: "write_msg env what wire p = (p', r)" by force
  then have "po = Some p'"
    using assms(1) True sends [of p env] by (auto split: outcome.splits)
  with write_msg_fails [OF w assms(2,3)] show ?thesis by auto
next
  case False
  have "p = p\<lparr>conn := Some (c\<lparr>cout := cout c @ take 0 wire\<rparr>)\<rparr>" using assms(2) by simp
  moreover have "po = Some p" using False assms(1) killed [of p env] refused [of env p] by auto
  ultimately show ?thesis by metis
qed

lemma total:
  assumes "conn p = Some c" and "writer_ok env"
  shows "\<exists>q r c'. op env (Some p) = (Some q, r) \<and> \<not> is_panic r
    \<and> (q = p\<lparr>conn := Some c'\<rparr> \<or> q = effect (p\<lparr>conn := Some c'\<rparr>))"
proof (cases "permitted \<and> connectionStatus p = 0")
  case True
  obtain p' r where w: "write_msg env what wire p = (p', r)" by force
  with write_msg_fails [OF w assms] sends [of p env] True show ?thesis by (auto split: outcome.splits)
next
  case False
  have "p = p\<lparr>conn := Some c\<rparr>" using assms(1) by simp
  moreover have "\<exists>e. op env (Some p) = (Some p, Err e)"
    using False killed [of p env] refused [of env p] by auto
  ultimately show ?thesis by fastforce
qed

lemma succeeds:
  assumes "net_up env" and "permitted" and "connectionStatus p = 0" and "conn p = Some c"
  shows "op env (Some p) = (Some (effect (p\<lparr>conn := Some (c\<lparr>cout := cout c @ wire\<rparr>)\<rparr>)), Ok ())"
  using sends [OF assms(2,3)] write_msg_net_up [OF assms(1,4)] by simp

end

lemmas send_defs = on_peer_def established_def after_ok_def

interpretation keepalive_send: send_op SendKeepAlive "''keepalive message''" KeepAlive_Serialize "\<lambda>p. p" True
  by unfold_locales (auto simp: SendKeepAlive_def send_defs split: prod.splits outcome.splits)

interpretation unchoke_send: send_op SendUnchoke "''unchoke message''" Unchoke_Serialize
  "StatusThis_update (\<lambda>_. UnChoked)" True
  by unfold_locales (auto simp: SendUnchoke_def send_defs split: prod.splits outcome.splits)

interpretation choke_send: send_op SendChoke "''choke message''" Choke_Serialize
  "StatusThis_update (\<lambda>_. Choked)" True
  by unfold_locales (auto simp: SendChoke_def send_defs split: prod.splits outcome.splits)

interpretation interested_send: send_op SendInterested "''interest message''" Interest_Serialize
  "InterestThis_update (\<lambda>_. Interested)" True
  by unfold_locales (auto simp: SendInterested_def send_defs split: prod.splits outcome.splits)

interpretation notinterested_send: send_op SendNotInterested "''not-interest message''" NotInterest_Serialize
  "InterestThis_update (\<lambda>_. NotInterested)" True
  by unfold_locales (auto simp: SendNotInterested_def send_defs split: prod.splits outcome.splits)

interpretation bitfield_send: send_op "\<lambda>env. SendBitfield env b" "''bitfield message''"
  "Bitfield_Serialize \<lparr>bitfield_bits = b\<rparr>" "\<lambda>p. p" True for b
  by unfold_locales (auto simp: SendBitfield_def send_defs split: prod.splits outcome.splits)

interpretation request_send: send_op "\<lambda>env. SendRequest env r" "''request message''"
  "Request_Serialize r" "\<lambda>p. p" "request_valid r" for r
  by unfold_locales
    (auto simp: SendRequest_def send_defs Request_Validate_def request_valid_def
      split: prod.splits outcome.splits)

interpretation cancel_send: send_op "\<lambda>env. SendCancel env c" "''request message''"
  "Cancel_Serialize c" "\<lambda>p. p" "cancel_valid c" for c
  by unfold_locales
    (auto simp: SendCancel_def send_defs Cancel_Validate_def cancel_valid_def
      split: prod.splits outcome.splits)

interpretation have_send: send_op "\<lambda>env. SendHave env h" "''have message''" "Have_Serialize h"
  "\<lambda>p. p" True for h
  by unfold_locales (auto simp: SendHave_def send_defs split: prod.splits outcome.splits)

interpretation piece_send: send_op "\<lambda>env. SendPiece env pc" "''have message''" "Piece_Serialize pc"
  "\<lambda>p. p" True for pc
  by unfold_locales (auto simp: SendPiece_def send_defs split: prod.splits outcome.splits)

section \<open>Conversations\<close>

fun send :: "NetEnv \<Rightarrow> WireMsg \<Rightarrow> Peer option \<Rightarrow> Peer option \<times> unit outcome" where
  "send env KeepAliveMsg p = SendKeepAlive env p"
| "send env ChokeMsg p = SendChoke env p"
| "send env UnchokeMsg p = SendUnchoke env p"
| "send env InterestMsg p = SendInterested env p"
| "send env NotInterestMsg p = SendNotInterested env p"
| "send env (HaveMsg h) p = SendHave env h p"
| "send env (BitfieldMsg b) p = SendBitfield env (bitfield_bits b) p"
| "send env (RequestMsg r) p = SendRequest env r p"
| "send env (PieceMsg pc) p = SendPiece env pc p"
| "send env (CancelMsg c) p = SendCancel env c p"
| "send env (PortMsg q) p = (p, Err (ErrorMsg ''no such method''))"

fun sent_effect :: "WireMsg \<Rightarrow> Peer \<Rightarrow> Peer" where
  "sent_effect ChokeMsg p = p\<lparr>StatusThis := Choked\<rparr>"
| "sent_effect UnchokeMsg p = p\<lparr>StatusThis := UnChoked\<rparr>"
| "sent_effect InterestMsg p = p\<lparr>InterestThis := Interested\<rparr>"
| "sent_effect NotInterestMsg p = p\<lparr>InterestThis := NotInterested\<rparr>"
| "sent_effect _ p = p"

lemma sent_effect_frame [simp]:
  "conn (sent_effect m p) = conn p" "sent_effect m (p\<lparr>conn := x\<rparr>) = (sent_effect m p)\<lparr>conn := x\<rparr>"
  "connectionStatus (sent_effect m p) = connectionStatus p"
  by (cases m; simp)+

lemma bitfield_msg_eta [simp]: "\<lparr>bitfield_bits = bitfield_bits b\<rparr> = b"
  by (cases b) simp

lemma send_Ok:
  assumes "send env m (Some p) = (po, Ok u)" and "conn p = Some c"
  shows "po = Some (sent_effect m (p\<lparr>conn := Some (c\<lparr>cout := cout c @ encode m\<rparr>)\<rparr>))
    \<and> connectionStatus p = 0"
  using assms
  by (cases m)
    (auto dest: keepalive_send.ok_written unchoke_send.ok_written choke_send.ok_written
      interested_send.ok_written notinterested_send.ok_written bitfield_send.ok_written
      request_send.ok_written cancel_send.ok_written have_send.ok_written piece_send.ok_written)

fun send_all :: "(NetEnv \<times> WireMsg) list \<Rightarrow> Peer \<Rightarrow> Peer outcome" where
  "send_all [] p = Ok p"
| "send_all ((env, m) # ms) p =
     (case send env m (Some p) of
        (Some p', Ok _) \<Rightarrow> send_all ms p'
      | (_, Err e) \<Rightarrow> Err e
      | (_, Panic s) \<Rightarrow> Panic s
      | (None, Ok _) \<Rightarrow> nil_deref)"

lemma fold_sent_effect_conn [simp]:
  "fold sent_effect ms (p\<lparr>conn := x\<rparr>) = (fold sent_effect ms p)\<lparr>conn := x\<rparr>"
  by (induction ms arbitrary: p) simp_all

lemma send_all_Ok:
  "send_all ms p = Ok p' \<Longrightarrow> conn p = Some c \<Longrightarrow>
     p' = (fold sent_effect (map snd ms) p)\<lparr>conn := Some (c\<lparr>cout := cout c @ concat (map (encode \<circ> snd) ms)\<rparr>)\<rparr>"
proof (induction ms arbitrary: p c)
  case Nil
  then show ?case by simp
next
  case (Cons a ms)
  obtain env m where a: "a = (env, m)" by force
  obtain p1 where s: "send env m (Some p) = (Some p1, Ok ())" and rest: "send_all ms p1 = Ok p'"
    using Cons.prems(1) by (auto simp: a nil_deref_def split: prod.splits option.splits outcome.splits)
  from send_Ok [OF s Cons.prems(2)]
  have p1: "p1 = (sent_effect m p)\<lparr>conn := Some (c\<lparr>cout := cout c @ encode m\<rparr>)\<rparr>" by simp
  from Cons.IH [OF rest] show ?case by (simp add: p1 a)
qed

section \<open>What the listener does with a message\<close>

definition react :: "Peer \<Rightarrow> WireMsg \<Rightarrow> (Peer \<times> Emit list) outcome" where
  "react p m =
     (case m of
        KeepAliveMsg \<Rightarrow> Ok (p, [])
      | ChokeMsg \<Rightarrow> Ok (p\<lparr>StatusRemote := Choked\<rparr>, [])
      | UnchokeMsg \<Rightarrow> Ok (p\<lparr>StatusRemote := UnChoked\<rparr>, [])
      | InterestMsg \<Rightarrow> Ok (p\<lparr>InterestRemote := Interested\<rparr>, [])
      | NotInterestMsg \<Rightarrow> Ok (p\<lparr>InterestRemote := NotInterested\<rparr>, [])
      | HaveMsg h \<Rightarrow>
          obind (oerr (Wrapped ''could not acknowledge piece %v: '')
                   (SetWithCheck (PeerBitfield p) (have_index h))) (\<lambda>b.
          Ok (p\<lparr>PeerBitfield := b\<rparr>, []))
      | BitfieldMsg b \<Rightarrow>
          if length (bitfield_bits b) \<noteq> Len (PeerBitfield p)
          then Err (ErrorMsg ''received incorrect bit-flied length'')
          else Ok (p\<lparr>PeerBitfield := (PeerBitfield p)\<lparr>bits := bitfield_bits b\<rparr>\<rparr>, [])
      | PieceMsg pc \<Rightarrow> if peer_typ p = seeder then Ok (p, [EmitPiece pc])
          else Err (ErrorMsg ''received piece message on leecher connection'')
      | PortMsg q \<Rightarrow> Err (ErrorMsg ''dht is not supported'')
      | RequestMsg r \<Rightarrow>
          if peer_typ p = leecher then obind (gate_leecher p) (\<lambda>_. Ok (p, [EmitRequest r]))
          else Err (ErrorMsg ''did not expect a request message on a seeder connection'')
      | CancelMsg c \<Rightarrow>
          if peer_typ p = leecher then obind (gate_leecher p) (\<lambda>_. Ok (p, [EmitCancel c]))
          else Err (ErrorMsg ''did not expect a cancel message on a seeder connection''))"

lemma process_react:
  assumes "understand msg = Ok m"
  shows "process p msg = react p m"
  using assms
  by (auto simp: understand_def process_def react_def could_not_def outcome_simps Overwrite_def Len_def
      split: MessageType.splits)

definition handle :: "Peer \<Rightarrow> WireMsg \<Rightarrow> Peer \<times> Emit list" where
  "handle p m = (case react p m of Ok r \<Rightarrow> r | _ \<Rightarrow> (p, []))"

fun handle_all :: "Peer \<Rightarrow> WireMsg list \<Rightarrow> Peer \<times> Emit list" where
  "handle_all p [] = (p, [])"
| "handle_all p (m # ms) =
     (case handle p m of (p1, es) \<Rightarrow> case handle_all p1 ms of (p2, es') \<Rightarrow> (p2, es @ es'))"

definition peer_wf :: "Peer \<Rightarrow> bool" where
  "peer_wf p \<longleftrightarrow> bf_wf (PeerBitfield p) \<and> conn p \<noteq> None
     \<and> (if peer_typ p = seeder then pieces_chan p = OpenChan
        else requests_chan p = OpenChan \<and> cancels_chan p = OpenChan)"

text \<open>What no message changes, and what every emission satisfies.\<close>

definition emit_ok :: "Peer \<Rightarrow> Emit \<Rightarrow> bool" where
  "emit_ok p e =
     (case e of
        EmitPiece pc \<Rightarrow> peer_typ p = seeder \<and> pc_block pc \<noteq> []
      | EmitRequest r \<Rightarrow> peer_typ p = leecher \<and> request_valid r \<and> StatusThis p = UnChoked
      | EmitCancel c \<Rightarrow> peer_typ p = leecher \<and> cancel_valid c \<and> StatusThis p = UnChoked)"

definition keeps :: "Peer \<Rightarrow> Peer \<Rightarrow> bool" where
  "keeps p q \<longleftrightarrow> peer_typ q = peer_typ p \<and> StatusThis q = StatusThis p \<and> InterestThis q = InterestThis p
     \<and> pieces_chan q = pieces_chan p \<and> requests_chan q = requests_chan p \<and> cancels_chan q = cancels_chan p
     \<and> numPieces (PeerBitfield q) = numPieces (PeerBitfield p) \<and> PeerId q = PeerId p
     \<and> connectionStatus q = connectionStatus p"

lemma Set_piece_numPieces: "Set_piece b i = Ok b' \<Longrightarrow> numPieces b' = numPieces b"
  by (auto simp: Set_piece_def outcome_simps)

lemma bf_SetWithCheck:
  assumes "bf_wf b"
  shows "\<not> is_panic (SetWithCheck b i)"
    and "SetWithCheck b i = Ok b' \<Longrightarrow> bf_wf b' \<and> numPieces b' = numPieces b"
  using assms bf.store_total [of b i] bf.store_wf [of b i b'] Set_piece_numPieces
  by (auto simp: SetWithCheck_wf split: if_splits)

lemma deserialize_safe:
  "\<not> is_panic (Have_Deserialize d)" "\<not> is_panic (Bitfield_Deserialize d)"
  "\<not> is_panic (Request_Deserialize d)" "\<not> is_panic (Cancel_Deserialize d)" "\<not> is_panic (Piece_Deserialize d)"
  "Request_Deserialize d = Ok r \<Longrightarrow> request_valid r" "Cancel_Deserialize d = Ok c \<Longrightarrow> cancel_valid c"
  "Piece_Deserialize d = Ok pc \<Longrightarrow> pc_block pc \<noteq> []"
  by (auto simp: Have_Deserialize_def Bitfield_Deserialize_def Request_Deserialize_def Request_Validate_def
      Cancel_Deserialize_def Cancel_Validate_def Piece_Deserialize_def request_valid_def cancel_valid_def
      Let_def outcome_simps split: if_splits)

lemma could_not_cases:
  "\<not> is_panic r \<Longrightarrow> (\<exists>x. could_not r = Ok x \<and> r = Ok x) \<or> (\<exists>e. could_not r = Err e)"
  by (cases r) (auto simp: could_not_def)

lemma gate_leecher_cases: "gate_leecher p = Ok () \<and> StatusThis p = UnChoked \<or> (\<exists>e. gate_leecher p = Err e)"
  by (auto simp: gate_leecher_def intro: Status.exhaust [of "StatusThis p"])

definition step_ok :: "Peer \<Rightarrow> (Peer \<times> Emit list) outcome \<Rightarrow> bool" where
  "step_ok p r = (case r of
      Panic s \<Rightarrow> False
    | Err e \<Rightarrow> True
    | Ok (q, es) \<Rightarrow> keeps p q \<and> conn q = conn p \<and> bf_wf (PeerBitfield q) \<and> list_all (emit_ok p) es)"

lemma process_safe:
  assumes "bf_wf (PeerBitfield p)"
  shows "step_ok p (process p msg)"
proof (cases "msg_type msg")
  case HaveType
  obtain b' e where "could_not (Have_Deserialize (msg_payload msg)) = Err e \<or>
      (\<exists>h. could_not (Have_Deserialize (msg_payload msg)) = Ok h)"
    using could_not_cases [OF deserialize_safe(1)] by blast
  moreover have "step_ok p (obind (oerr (Wrapped w) (SetWithCheck (PeerBitfield p) i)) (\<lambda>b.
      Ok (p\<lparr>PeerBitfield := b\<rparr>, [])))" for w i
    using bf_SetWithCheck [OF assms, of i]
    by (cases "SetWithCheck (PeerBitfield p) i") (auto simp: step_ok_def keeps_def)
  ultimately show ?thesis using HaveType by (auto simp: process_def step_ok_def)
next
  case BitfieldType
  then show ?thesis using assms
    by (auto simp: process_def step_ok_def Bitfield_Deserialize_def could_not_def Overwrite_def Len_def
        keeps_def bf_wf_def)
next
  case RequestType
  then show ?thesis
    using could_not_cases [OF deserialize_safe(3), of "msg_payload msg"] gate_leecher_cases [of p] assms
    by (auto simp: process_def step_ok_def keeps_def emit_ok_def dest: deserialize_safe(6))
next
  case CancelType
  then show ?thesis
    using could_not_cases [OF deserialize_safe(4), of "msg_payload msg"] gate_leecher_cases [of p] assms
    by (auto simp: process_def step_ok_def keeps_def emit_ok_def dest: deserialize_safe(7))
next
  case PieceType
  then show ?thesis
    using could_not_cases [OF deserialize_safe(5), of "msg_payload msg"] assms
    by (auto simp: process_def step_ok_def keeps_def emit_ok_def dest: deserialize_safe(8))
qed (use assms in \<open>simp_all add: process_def step_ok_def keeps_def\<close>)

section \<open>The listener loop\<close>

text \<open>The errors on which the loop gives up: the end of the stream, a closed connection, a missed
  deadline.\<close>

definition final_error :: "error \<Rightarrow> bool" where
  "final_error e \<longleftrightarrow> error_is e DeadlineExceeded \<or> error_is e IoEOF \<or> error_is e NetClosed"

lemma keeps_refl: "keeps p p"
  by (simp add: keeps_def)

lemma keeps_trans: "keeps p q \<Longrightarrow> keeps q r \<Longrightarrow> keeps p r"
  by (simp add: keeps_def)

lemma keeps_conn [simp]: "keeps p (q\<lparr>conn := x\<rparr>) \<longleftrightarrow> keeps p q" "keeps (p\<lparr>conn := x\<rparr>) q \<longleftrightarrow> keeps p q"
  by (simp_all add: keeps_def)

lemma emit_ok_keeps: "keeps p q \<Longrightarrow> emit_ok q e \<longleftrightarrow> emit_ok p e"
  by (auto simp: keeps_def emit_ok_def split: Emit.splits)

lemma emit_ok_conn [simp]: "emit_ok (p\<lparr>conn := x\<rparr>) = emit_ok p"
  by (rule ext) (simp add: emit_ok_def split: Emit.split)

text \<open>One round: either the loop ends with the peer it has, or it goes on with a peer whose
  connection holds less.\<close>

lemma listener_loop_round:
  assumes "conn p = Some c" and wf: "bf_wf (PeerBitfield p)" and "deadline i = None"
    and id: "Identify (cin c) = (res, r)"
  obtains (stop) q where "listener_loop env deadline i p out = Some (Ok (q, out))" "keeps p q"
      "bf_wf (PeerBitfield q)" "\<exists>e. res = Err e \<and> final_error e"
  | (goes_on) q es where "listener_loop env deadline i p out = listener_loop env deadline (Suc i) q (out @ es)"
      "keeps p q" "bf_wf (PeerBitfield q)" "conn q = Some (c\<lparr>cin := r\<rparr>)" "list_all (emit_ok p) es"
      "\<And>e. res = Err e \<Longrightarrow> \<not> final_error e"
proof -
  let ?p1 = "p\<lparr>conn := Some (c\<lparr>cin := r\<rparr>)\<rparr>"
  note unf = listener_loop.simps [of env deadline i p out]
  have keep: "keeps p ?p1" "bf_wf (PeerBitfield ?p1)" using wf by (simp_all add: keeps_refl)
  show thesis
  proof (cases res)
    case (Err e)
    show thesis
    proof (cases "final_error e")
      case True
      with assms Err keep show thesis
        by (intro stop [of "if error_is e DeadlineExceeded
              then ?p1\<lparr>conn := Some (close_conn env (c\<lparr>cin := r\<rparr>))\<rparr> else ?p1"])
          (auto simp: unf final_error_def)
    next
      case False
      with assms Err keep show thesis
        by (intro goes_on [of ?p1 "[]"]) (auto simp: unf final_error_def)
    qed
  next
    case (Panic s)
    with Identify_consumes [OF id] show thesis by simp
  next
    case (Ok msg)
    with process_safe [of ?p1 msg] keep(2) have safe: "step_ok ?p1 (process ?p1 msg)" by blast
    show thesis
    proof (cases "process ?p1 msg")
      case (Ok qes)
      obtain q es where "qes = (q, es)" by force
      with Ok safe assms \<open>res = Ok msg\<close> keep show thesis
        by (intro goes_on [of q es]) (auto simp: unf step_ok_def)
    next
      case (Err e)
      with assms \<open>res = Ok msg\<close> keep show thesis by (intro goes_on [of ?p1 "[]"]) (auto simp: unf)
    next
      case (Panic s)
      with safe show thesis by (simp add: step_ok_def)
    qed
  qed
qed

lemma final_error_Wrapped: "final_error e \<Longrightarrow> final_error (Wrapped m e)"
  by (auto simp: final_error_def)

lemma listener_loop_ends:
  assumes "conn p = Some c" and "bf_wf (PeerBitfield p)" and "final_error (rerr (cin c))"
  shows "\<exists>q es. listener_loop env deadline i p out = Some (Ok (q, out @ es)) \<and> keeps p q
    \<and> bf_wf (PeerBitfield q) \<and> list_all (emit_ok p) es"
  using assms
proof (induction "length (rdata (cin c))" arbitrary: p c i out rule: less_induct)
  case less
  show ?case
  proof (cases "deadline i")
    case (Some e)
    with less.prems show ?thesis
      by (auto simp: listener_loop.simps [of env deadline i p out] intro!: exI [of _ p] exI [of _ "[]"] keeps_refl)
  next
    case None
    obtain res r where id: "Identify (cin c) = (res, r)" by force
    show ?thesis
    proof (cases rule: listener_loop_round [where env = env and out = out and deadline = deadline and i = i,
          OF less.prems(1,2) None id])
      case (1 q)
      then show ?thesis by (intro exI [of _ q] exI [of _ "[]"]) simp
    next
      case (2 q es)
      have "rdata (cin c) \<noteq> []"
      proof
        assume "rdata (cin c) = []"
        from Identify_empty [OF this] id 2(6) final_error_Wrapped [OF less.prems(3)] show False by simp
      qed
      moreover have cons: "consumes (cin c) r" using Identify_consumes [OF id] by simp
      ultimately have "length (rdata r) < length (rdata (cin c))" by (simp add: consumes_less)
      with less.hyps [of "c\<lparr>cin := r\<rparr>" q "Suc i" "out @ es"] 2(3,4) cons less.prems(3)
      obtain q' es' where "listener_loop env deadline (Suc i) q (out @ es) = Some (Ok (q', (out @ es) @ es'))"
        "keeps q q'" "bf_wf (PeerBitfield q')" "list_all (emit_ok q) es'"
        by (auto simp: consumes_def)
      with 2 keeps_trans [OF 2(2)] emit_ok_keeps [OF 2(2)] show ?thesis
        by (intro exI [of _ q'] exI [of _ "es @ es'"]) (auto simp: list_all_iff)
    qed
  qed
qed

lemma listener_exit_keeps:
  assumes "peer_wf p" and "keeps p q"
  shows "\<exists>q'. listener_exit q = Ok q' \<and> connectionStatus q' = status_code ConnectionKilled
    \<and> (if peer_typ p = seeder then pieces_chan q' = ClosedChan
       else requests_chan q' = ClosedChan \<and> cancels_chan q' = ClosedChan)
    \<and> PeerBitfield q' = PeerBitfield q \<and> StatusRemote q' = StatusRemote q
    \<and> InterestRemote q' = InterestRemote q \<and> StatusThis q' = StatusThis p"
  using assms by (cases "peer_typ q") (auto simp: listener_exit_def keeps_def peer_wf_def)

lemma listener_safe:
  assumes "peer_wf p" and "conn p = Some c" and "final_error (rerr (cin c))"
  shows "\<exists>q es. listener env deadline p = Some (Ok (q, es))
    \<and> connectionStatus q = status_code ConnectionKilled \<and> bf_wf (PeerBitfield q)
    \<and> (if peer_typ p = seeder then pieces_chan q = ClosedChan
       else requests_chan q = ClosedChan \<and> cancels_chan q = ClosedChan)
    \<and> list_all (emit_ok p) es"
proof -
  have "bf_wf (PeerBitfield p)" using assms(1) by (simp add: peer_wf_def)
  from listener_loop_ends [OF assms(2) this assms(3), of env deadline 0 "[]"]
  obtain q es where loop: "listener_loop env deadline 0 p [] = Some (Ok (q, es))" "keeps p q"
    "bf_wf (PeerBitfield q)" "list_all (emit_ok p) es" by auto
  from listener_exit_keeps [OF assms(1) loop(2)] obtain q' where
    "listener_exit q = Ok q'" "connectionStatus q' = status_code ConnectionKilled"
    "if peer_typ p = seeder then pieces_chan q' = ClosedChan
       else requests_chan q' = ClosedChan \<and> cancels_chan q' = ClosedChan"
    "PeerBitfield q' = PeerBitfield q" by blast
  with loop show ?thesis by (intro exI [of _ q'] exI [of _ es]) (simp add: listener_def)
qed

text \<open>Whatever ends the loop, the peer it leaves is one the messages could have made.\<close>

lemma listener_loop_keeps:
  assumes "listener_loop env deadline i p out = Some r" and "conn p = Some c" and "bf_wf (PeerBitfield p)"
  shows "\<exists>q es c'. r = Ok (q, out @ es) \<and> keeps p q \<and> bf_wf (PeerBitfield q) \<and> conn q = Some c' \<and> cout c' = cout c"
  using assms
proof (induction env deadline i p out r arbitrary: c rule: listener_loop.raw_induct [rotated, consumes 1])
  case (1 loop env deadline i p out r)
  obtain res rd where id: "Identify (cin c) = (res, rd)" by force
  let ?p1 = "p\<lparr>conn := Some (c\<lparr>cin := rd\<rparr>)\<rparr>"
  have keep: "keeps p ?p1" "bf_wf (PeerBitfield ?p1)" using 1(4) by (simp_all add: keeps_refl)
  have on: "?case" if "loop env deadline (Suc i) q (out @ es) = Some r" "keeps p q" "conn q = Some (c\<lparr>cin := rd\<rparr>)" "bf_wf (PeerBitfield q)"
    for q es using 1(1) [OF that(1,3,4)] keeps_trans [OF that(2)] by force
  show ?case
  proof (cases "deadline i")
    case (Some e)
    with 1(2,3,4) show ?thesis by (auto simp: keeps_refl)
  next
    case None
    show ?thesis
    proof (cases res)
      case (Ok msg)
      with process_safe [OF keep(2), of msg] have safe: "step_ok ?p1 (process ?p1 msg)" by blast
      show ?thesis
      proof (cases "process ?p1 msg")
        case ok: (Ok qes)
        obtain q es where "qes = (q, es)" by force
        with ok safe 1(2,3) None Ok id on [of q es] show ?thesis by (simp add: step_ok_def)
      next
        case (Err e)
        with 1(2,3) None Ok id on [of ?p1 "[]"] keep show ?thesis by simp
      next
        case (Panic s)
        with safe show ?thesis by (simp add: step_ok_def)
      qed
    next
      case (Err e)
      show ?thesis
      proof (cases "final_error e")
        case True
        with 1(2,3) None Err id keep show ?thesis
          by (auto simp: final_error_def keeps_refl close_conn_def Let_def split: if_splits)
      next
        case False
        with 1(2,3) None Err id on [of ?p1 "[]"] keep show ?thesis by (simp add: final_error_def)
      qed
    next
      case (Panic s)
      with Identify_consumes [OF id] show ?thesis by simp
    qed
  qed
qed

lemma listener_keeps:
  assumes "listener env deadline p = Some r" and "conn p = Some c" and "peer_wf p"
  shows "\<exists>q es c'. r = Ok (q, es) \<and> PeerId q = PeerId p \<and> conn q = Some c' \<and> cout c' = cout c
    \<and> bf_wf (PeerBitfield q) \<and> numPieces (PeerBitfield q) = numPieces (PeerBitfield p)"
proof -
  from assms(1) obtain r' where r': "listener_loop env deadline 0 p [] = Some r'"
    "r = obind r' (\<lambda>(p', es). obind (listener_exit p') (\<lambda>p''. Ok (p'', es)))" by (auto simp: listener_def)
  from listener_loop_keeps [OF r'(1) assms(2)] assms(3) obtain q es c' where
    q: "r' = Ok (q, es)" "keeps p q" "bf_wf (PeerBitfield q)" "conn q = Some c'" "cout c' = cout c" by (auto simp: peer_wf_def)
  moreover from listener_exit_keeps [OF assms(3) q(2)] obtain q' where "listener_exit q = Ok q'" by blast
  moreover from this have "PeerId q' = PeerId q \<and> conn q' = conn q \<and> PeerBitfield q' = PeerBitfield q"
    by (cases "peer_typ q") (auto simp: listener_exit_def outcome_simps)
  ultimately show ?thesis using r'(2) by (auto simp: keeps_def)
qed

lemma start_listener_keeps:
  assumes "conn p = Some c" and "peer_wf p"
  shows "\<exists>q c'. start_listener env p = Ok q \<and> connectionStatus q = 0 \<and> PeerId q = PeerId p \<and> conn q = Some c' \<and> cout c' = cout c
    \<and> bf_wf (PeerBitfield q) \<and> numPieces (PeerBitfield q) = numPieces (PeerBitfield p)"
proof -
  have same: ?thesis if "start_listener env p = Ok (store_established p)"
    using that assms by (auto simp: store_established_def peer_wf_def)
  show ?thesis
  proof (cases "early env")
    case None
    then show ?thesis by (intro same) (simp add: start_listener_def)
  next
    case (Some deadline)
    show ?thesis
    proof (cases "listener env deadline p")
      case None
      with Some show ?thesis by (intro same) (simp add: start_listener_def)
    next
      case r: (Some r)
      from listener_keeps [OF r assms] obtain q es c' where q: "r = Ok (q, es)" "PeerId q = PeerId p" "conn q = Some c'"
        "cout c' = cout c" "bf_wf (PeerBitfield q)" "numPieces (PeerBitfield q) = numPieces (PeerBitfield p)" by blast
      show ?thesis
      proof (cases es)
        case Nil
        with Some r q show ?thesis by (simp add: start_listener_def store_established_def)
      next
        case Cons
        with Some r q show ?thesis by (intro same) (simp add: start_listener_def)
      qed
    qed
  qed
qed

text \<open>A listener that has nothing to read sends nothing.\<close>

lemma listener_silent:
  assumes "conn p = Some c" and "rdata (cin c) = []" and "final_error (rerr (cin c))"
    and "peer_typ p = seeder" and "pieces_chan p = OpenChan"
  shows "\<exists>q. listener env deadline p = Some (Ok (q, [])) \<and> pieces_chan q = ClosedChan \<and> connectionStatus q = 1"
proof (cases "deadline 0")
  case None
  have "final_error (Wrapped m (rerr (cin c)))" for m using final_error_Wrapped [OF assms(3)] .
  with None assms Identify_empty [OF assms(2)] show ?thesis
    by (auto simp: listener_def listener_loop.simps [of env deadline 0 p] final_error_def listener_exit_def Let_def)
next
  case (Some e)
  with assms show ?thesis by (simp add: listener_def listener_loop.simps [of env deadline 0 p] listener_exit_def)
qed

section \<open>The listener on a stream of messages\<close>

lemma gate_leecher_conn [simp]: "gate_leecher (p\<lparr>conn := x\<rparr>) = gate_leecher p"
  by (simp add: gate_leecher_def)

lemma handle_conn: "handle (p\<lparr>conn := x\<rparr>) m = (case handle p m of (q, es) \<Rightarrow> (q\<lparr>conn := x\<rparr>, es))"
  by (cases m) (auto simp: handle_def react_def obind_eq_Ok split: outcome.splits if_splits
      intro: outcome.exhaust [of "SetWithCheck (PeerBitfield p) i" for i] outcome.exhaust [of "gate_leecher p"])

lemma handle_all_conn:
  "handle_all (p\<lparr>conn := x\<rparr>) ms = (case handle_all p ms of (q, es) \<Rightarrow> (q\<lparr>conn := x\<rparr>, es))"
  by (induction ms arbitrary: p) (auto simp: handle_conn split: prod.splits)

lemma listener_loop_message:
  assumes c: "conn p = Some c" and "bf_wf (PeerBitfield p)" and "deadline i = None"
    and id: "Identify (cin c) = (Ok msg, r)" and "understand msg = Ok m"
  shows "\<exists>q es. handle p m = (q, es) \<and> bf_wf (PeerBitfield q) \<and> keeps p q
    \<and> listener_loop env deadline i p out =
        listener_loop env deadline (Suc i) (q\<lparr>conn := Some (c\<lparr>cin := r\<rparr>)\<rparr>) (out @ es)"
proof -
  let ?p1 = "p\<lparr>conn := Some (c\<lparr>cin := r\<rparr>)\<rparr>"
  have proc: "process ?p1 msg = react ?p1 m" using assms(5) by (rule process_react)
  have safe: "step_ok ?p1 (react ?p1 m)" using process_safe [of ?p1 msg] assms(2) proc by simp
  obtain q es where h: "handle p m = (q, es)" by force
  obtain q1 es1 where h1: "handle ?p1 m = (q1, es1)" by force
  with h have q1: "q1 = q\<lparr>conn := Some (c\<lparr>cin := r\<rparr>)\<rparr>" "es1 = es" by (simp_all add: handle_conn)
  have "bf_wf (PeerBitfield q1) \<and> keeps p q1"
    using safe h1 assms(2) by (auto simp: handle_def step_ok_def keeps_refl split: outcome.splits)
  moreover have "listener_loop env deadline i p out = listener_loop env deadline (Suc i) q1 (out @ es1)"
    using safe h1 c assms(3) id proc
    by (auto simp: listener_loop.simps [of env deadline i p out] handle_def step_ok_def split: outcome.splits)
  ultimately show ?thesis using h q1 by auto
qed

lemma listener_loop_stream:
  assumes "list_all wire_valid ms" and "conn p = Some c" and "bf_wf (PeerBitfield p)"
    and "cin c = \<lparr>rdata = concat (map encode ms), rerr = e\<rparr>" and "final_error e" and "\<not> error_is e DeadlineExceeded"
  shows "\<exists>q es. handle_all p ms = (q, es) \<and> keeps p q \<and> bf_wf (PeerBitfield q)
    \<and> listener_loop env (\<lambda>_. None) i p out =
        Some (Ok (q\<lparr>conn := Some (c\<lparr>cin := \<lparr>rdata = [], rerr = e\<rparr>\<rparr>)\<rparr>, out @ es))"
  using assms
proof (induction ms arbitrary: p c i out)
  case Nil
  then have "Identify (cin c) = (Err (Wrapped ''failed to read message length: '' e), cin c)"
    using Identify_empty [of "cin c"] by simp
  with Nil show ?case
    by (auto simp: listener_loop.simps [of env _ i p out] final_error_def keeps_refl)
next
  case (Cons m ms)
  let ?r = "\<lparr>rdata = concat (map encode ms), rerr = e\<rparr>"
  obtain msg where id: "Identify (cin c) = (Ok msg, ?r)" and u: "understand msg = Ok m"
    using Identify_encode [of m "concat (map encode ms)" e] Cons.prems by auto
  from listener_loop_message [OF Cons.prems(2,3) refl id u] obtain q es where
    q: "handle p m = (q, es)" "bf_wf (PeerBitfield q)" "keeps p q"
      "listener_loop env (\<lambda>_. None) i p out
        = listener_loop env (\<lambda>_. None) (Suc i) (q\<lparr>conn := Some (c\<lparr>cin := ?r\<rparr>)\<rparr>) (out @ es)" by blast
  from Cons.IH [of "q\<lparr>conn := Some (c\<lparr>cin := ?r\<rparr>)\<rparr>" "c\<lparr>cin := ?r\<rparr>" "Suc i" "out @ es"] Cons.prems q
  show ?case by (auto simp: handle_all_conn dest: keeps_trans [OF q(3)] split: prod.splits)
qed

lemma handle_flags:
  "StatusRemote (fst (handle b m)) =
     (case m of ChokeMsg \<Rightarrow> Choked | UnchokeMsg \<Rightarrow> UnChoked | _ \<Rightarrow> StatusRemote b)"
  "InterestRemote (fst (handle b m)) =
     (case m of InterestMsg \<Rightarrow> Interested | NotInterestMsg \<Rightarrow> NotInterested | _ \<Rightarrow> InterestRemote b)"
  "peer_typ (fst (handle b m)) = peer_typ b"
  "peer_typ b = seeder \<Longrightarrow> snd (handle b m) = (case m of PieceMsg pc \<Rightarrow> [EmitPiece pc] | _ \<Rightarrow> [])"
  by (auto simp: handle_def react_def outcome_simps split: WireMsg.splits outcome.splits if_splits)

lemma fst_handle_all_Cons [simp]:
  "fst (handle_all b (m # ms)) = fst (handle_all (fst (handle b m)) ms)"
  by (simp split: prod.split)

lemma handle_all_agrees:
  "StatusRemote b = StatusThis a \<Longrightarrow> InterestRemote b = InterestThis a \<Longrightarrow>
     StatusRemote (fst (handle_all b ms)) = StatusThis (fold sent_effect ms a)
   \<and> InterestRemote (fst (handle_all b ms)) = InterestThis (fold sent_effect ms a)"
proof (induction ms arbitrary: a b)
  case Nil
  then show ?case by simp
next
  case (Cons m ms)
  have "StatusRemote (fst (handle b m)) = StatusThis (sent_effect m a)"
    "InterestRemote (fst (handle b m)) = InterestThis (sent_effect m a)"
    using Cons.prems by (cases m; simp add: handle_flags)+
  with Cons.IH [of "fst (handle b m)" "sent_effect m a"] show ?case
    by (simp del: handle_all.simps)
qed

definition pieces_of :: "WireMsg list \<Rightarrow> Piece list" where
  "pieces_of ms = concat (map (\<lambda>m. case m of PieceMsg pc \<Rightarrow> [pc] | _ \<Rightarrow> []) ms)"

lemma handle_all_pieces:
  "peer_typ b = seeder \<Longrightarrow> snd (handle_all b ms) = map EmitPiece (pieces_of ms)"
proof (induction ms arbitrary: b)
  case Nil
  then show ?case by (simp add: pieces_of_def)
next
  case (Cons m ms)
  obtain b1 es where h: "handle b m = (b1, es)" by force
  then have "peer_typ b1 = seeder" "es = (case m of PieceMsg pc \<Rightarrow> [EmitPiece pc] | _ \<Rightarrow> [])"
    using handle_flags(3,4) [of b m] Cons.prems by auto
  with Cons.IH [of b1] h show ?case by (cases m) (auto simp: pieces_of_def split: prod.splits)
qed

definition announced :: "WireMsg list \<Rightarrow> nat set" where
  "announced ms = {unat (have_index h) |h. HaveMsg h \<in> set ms}"

lemma handle_have_set:
  assumes "bf_wf (PeerBitfield b)" and "\<And>x. m \<noteq> BitfieldMsg x"
  shows "bf_wf (PeerBitfield (fst (handle b m))) \<and> bf_count (PeerBitfield (fst (handle b m))) = bf_count (PeerBitfield b)
    \<and> have_set (PeerBitfield (fst (handle b m))) =
        have_set (PeerBitfield b) \<union> (announced [m] \<inter> {i. i < bf_count (PeerBitfield b)})"
proof (cases m)
  case (HaveMsg h)
  let ?i = "have_index h"
  show ?thesis
  proof (cases "unat ?i < bf_count (PeerBitfield b)")
    case True
    from bf.store_total [OF assms(1) True] obtain b' where b': "Set_piece (PeerBitfield b) ?i = Ok b'" by blast
    with True HaveMsg have "PeerBitfield (fst (handle b m)) = b'"
      by (simp add: handle_def react_def SetWithCheck_wf [OF assms(1)])
    with have_set_Set_piece [OF assms(1) b' True] bf.store_wf [OF assms(1) b'] True HaveMsg show ?thesis
      by (auto simp: announced_def)
  next
    case False
    with HaveMsg have "fst (handle b m) = b"
      by (simp add: handle_def react_def SetWithCheck_wf [OF assms(1)])
    with False HaveMsg assms(1) show ?thesis by (auto simp: announced_def)
  qed
qed (use assms in \<open>auto simp: announced_def handle_def react_def split: outcome.splits if_splits
      intro: outcome.exhaust [of "gate_leecher b"] simp: obind_eq_Ok\<close>)

lemma handle_all_have_set:
  "bf_wf (PeerBitfield b) \<Longrightarrow> (\<And>x. BitfieldMsg x \<notin> set ms) \<Longrightarrow>
     have_set (PeerBitfield (fst (handle_all b ms))) =
       have_set (PeerBitfield b) \<union> (announced ms \<inter> {i. i < bf_count (PeerBitfield b)})"
proof (induction ms arbitrary: b)
  case Nil
  then show ?case by (simp add: announced_def)
next
  case (Cons m ms)
  obtain b1 es where h: "handle b m = (b1, es)" by force
  have "announced (m # ms) = announced [m] \<union> announced ms" by (auto simp: announced_def)
  moreover have "bf_wf (PeerBitfield b1) \<and> bf_count (PeerBitfield b1) = bf_count (PeerBitfield b)
    \<and> have_set (PeerBitfield b1) = have_set (PeerBitfield b) \<union> (announced [m] \<inter> {i. i < bf_count (PeerBitfield b)})"
    using handle_have_set [of b m] h Cons.prems by auto
  ultimately show ?case using Cons.IH [of b1] Cons.prems(2) h by (auto split: prod.splits)
qed

lemma listener_stream:
  assumes "list_all wire_valid ms" and "peer_wf p" and "conn p = Some c"
    and "cin c = \<lparr>rdata = concat (map encode ms), rerr = IoEOF\<rparr>"
  shows "\<exists>q es. handle_all p ms = (q, es) \<and> (\<exists>q'. listener env (\<lambda>_. None) p = Some (Ok (q', es))
    \<and> connectionStatus q' = status_code ConnectionKilled
    \<and> PeerBitfield q' = PeerBitfield q \<and> StatusRemote q' = StatusRemote q \<and> InterestRemote q' = InterestRemote q)"
proof -
  have wf: "bf_wf (PeerBitfield p)" using assms(2) by (simp add: peer_wf_def)
  from listener_loop_stream [OF assms(1,3) wf assms(4), of env 0 "[]"] obtain q es where
    q: "handle_all p ms = (q, es)" "keeps p q" "listener_loop env (\<lambda>_. None) 0 p []
      = Some (Ok (q\<lparr>conn := Some (c\<lparr>cin := \<lparr>rdata = [], rerr = IoEOF\<rparr>\<rparr>)\<rparr>, es))"
    by (auto simp: final_error_def)
  from listener_exit_keeps [OF assms(2), of "q\<lparr>conn := Some (c\<lparr>cin := \<lparr>rdata = [], rerr = IoEOF\<rparr>\<rparr>)\<rparr>"] q(2)
  obtain q' where "listener_exit (q\<lparr>conn := Some (c\<lparr>cin := \<lparr>rdata = [], rerr = IoEOF\<rparr>\<rparr>)\<rparr>) = Ok q'"
    "connectionStatus q' = status_code ConnectionKilled"
    "PeerBitfield q' = PeerBitfield q" "StatusRemote q' = StatusRemote q" "InterestRemote q' = InterestRemote q"
    by auto
  with q show ?thesis by (intro exI [of _ q] exI [of _ es]) (simp add: listener_def)
qed

text \<open>A connection whose reads keep failing with another error never ends the loop.\<close>

lemma listener_loop_spins:
  assumes "conn p = Some c" and "rdata (cin c) = []" and "\<not> final_error (rerr (cin c))"
  shows "listener_loop env (\<lambda>_. None) i p out = None"
proof -
  have "\<forall>c. deadline = (\<lambda>_. None) \<longrightarrow> conn p = Some c \<longrightarrow> rdata (cin c) = [] \<longrightarrow> final_error (rerr (cin c))"
    if "listener_loop env deadline i p out = Some r" for deadline r
    by (rule listener_loop.raw_induct [where P = "\<lambda>env deadline i p out r. \<forall>c. deadline = (\<lambda>_. None) \<longrightarrow>
        conn p = Some c \<longrightarrow> rdata (cin c) = [] \<longrightarrow> final_error (rerr (cin c))", OF _ that])
      (fastforce simp: Identify_empty final_error_def Let_def split: if_splits)
  with assms show ?thesis by (cases "listener_loop env (\<lambda>_. None) i p out") auto
qed

section \<open>Connecting and closing\<close>

lemma read_handshake_Ok:
  assumes "net_up env" and "conn p = Some c" and "handshake_wf h"
    and "Handshake_Serialize h = Ok msg" and "cin c = \<lparr>rdata = msg @ rest, rerr = e\<rparr>"
  shows "read_handshake env p =
    (p\<lparr>conn := Some (c\<lparr>cin := \<lparr>rdata = rest, rerr = e\<rparr>\<rparr>), PeerId := hs_peer_id h\<rparr>, Ok ())"
proof -
  have len: "length msg = 68" using assms(3,4) by (auto simp: Handshake_Serialize_def Let_def split: if_splits)
  have "Handshake_Deserialize msg = Ok h"
    using assms(3,4) by (simp add: Handshake_Deserialize_Ok)
  with assms(1,2,5) len show ?thesis
    by (simp add: read_handshake_def net_up_def)
qed

lemma handshake_of_wf: "length ih = 20 \<Longrightarrow> length pid = 20 \<Longrightarrow> handshake_wf (handshake_of ih pid)"
  by (simp add: handshake_of_def handshake_wf_def)

lemma NewSeederConnection_Ok:
  assumes "net_up env" and "0 \<le> n" and "length ih = 20" and "length pid = 20" and "handshake_wf h"
    and msg: "Handshake_Serialize (handshake_of ih pid) = Ok msg" and reply: "Handshake_Serialize h = Ok reply"
    and c: "cin c = \<lparr>rdata = reply @ rest, rerr = e\<rparr>"
  shows "\<exists>b. NewBitfield n = Ok b \<and> NewSeederConnection env (Ok c) addr n ih pid =
    start_listener env ((new_peer (hs_peer_id h) addr (Some (c\<lparr>cout := cout c @ msg, cin := \<lparr>rdata = rest, rerr = e\<rparr>\<rparr>)) seeder b)
      \<lparr>pieces_chan := OpenChan\<rparr>)"
proof -
  obtain b where b: "NewBitfield n = Ok b" using NewBitfield_total [OF assms(2)] by blast
  let ?p = "(new_peer [] addr None seeder b)\<lparr>conn := Some c\<rparr>"
  have "write_handshake env ih pid ?p = (?p\<lparr>conn := Some (c\<lparr>cout := cout c @ msg\<rparr>)\<rparr>, Ok ())"
    using write_msg_net_up [OF assms(1), of ?p c] by (simp add: write_handshake_def msg)
  moreover have "read_handshake env (?p\<lparr>conn := Some (c\<lparr>cout := cout c @ msg\<rparr>)\<rparr>) =
    (?p\<lparr>conn := Some (c\<lparr>cout := cout c @ msg, cin := \<lparr>rdata = rest, rerr = e\<rparr>\<rparr>), PeerId := hs_peer_id h\<rparr>, Ok ())"
    using read_handshake_Ok [OF assms(1) _ assms(5) reply, of _ "c\<lparr>cout := cout c @ msg\<rparr>" rest e] c by simp
  ultimately show ?thesis
    using b by (simp add: NewSeederConnection_def initiateHandshakeV1_def new_peer_def)
qed

lemma send_killed: "connectionStatus p \<noteq> 0 \<Longrightarrow> \<exists>e. send env m (Some p) = (Some p, Err e)"
  by (cases m) (auto intro: keepalive_send.killed unchoke_send.killed choke_send.killed
      interested_send.killed notinterested_send.killed bitfield_send.killed request_send.killed
      cancel_send.killed have_send.killed piece_send.killed)

lemma send_failed:
  assumes "send env m (Some p) = (po, Err e)" and "conn p = Some c" and "writer_ok env"
  shows "\<exists>n. po = Some (p\<lparr>conn := Some (c\<lparr>cout := cout c @ take n (encode m)\<rparr>)\<rparr>)"
proof (cases m)
  case (PortMsg q)
  then have "po = Some (p\<lparr>conn := Some (c\<lparr>cout := cout c @ take 0 (encode m)\<rparr>)\<rparr>)"
    using assms by (cases p) auto
  then show ?thesis by blast
next
  case (BitfieldMsg b)
  then show ?thesis using bitfield_send.failed_unchanged [of env "bitfield_bits b" p po e c] assms by simp
qed (use assms in \<open>auto dest: keepalive_send.failed_unchanged unchoke_send.failed_unchanged
      choke_send.failed_unchanged interested_send.failed_unchanged notinterested_send.failed_unchanged
      bitfield_send.failed_unchanged request_send.failed_unchanged cancel_send.failed_unchanged
      have_send.failed_unchanged piece_send.failed_unchanged\<close>)

lemma send_total:
  assumes "conn p = Some c" and "writer_ok env"
  shows "\<exists>q r c'. send env m (Some p) = (Some q, r) \<and> \<not> is_panic r
    \<and> (q = p\<lparr>conn := Some c'\<rparr> \<or> q = sent_effect m (p\<lparr>conn := Some c'\<rparr>))"
proof (cases m)
  case (PortMsg q)
  then show ?thesis using assms(1) by (intro exI [of _ p]) (auto intro!: exI [of _ c])
qed (simp_all only: send.simps sent_effect.simps,
    rule keepalive_send.total [OF assms], rule choke_send.total [OF assms], rule unchoke_send.total [OF assms],
    rule interested_send.total [OF assms], rule notinterested_send.total [OF assms],
    rule have_send.total [OF assms], rule bitfield_send.total [OF assms],
    rule request_send.total [OF assms], rule piece_send.total [OF assms], rule cancel_send.total [OF assms])

lemma Peer_Close_running:
  assumes "peer_wf p"
  shows "\<exists>q r. Peer_Close env deadline True (Some p) = Some (Some q, r) \<and> \<not> is_panic r
    \<and> connectionStatus q = status_code ConnectionKilled
    \<and> (if peer_typ p = seeder then pieces_chan q = ClosedChan
       else requests_chan q = ClosedChan \<and> cancels_chan q = ClosedChan)"
proof -
  from assms obtain c where c: "conn p = Some c" by (auto simp: peer_wf_def)
  let ?p1 = "p\<lparr>conn := Some (close_conn env c)\<rparr>"
  have wf: "peer_wf ?p1" using assms by (simp add: peer_wf_def)
  have "final_error (rerr (cin (close_conn env c)))" by (simp add: close_conn_def final_error_def)
  from listener_safe [where env = env and deadline = deadline, OF wf _ this] obtain q es where
    "listener env deadline ?p1 = Some (Ok (q, es))"
    "if peer_typ p = seeder then pieces_chan q = ClosedChan
       else requests_chan q = ClosedChan \<and> cancels_chan q = ClosedChan" by auto
  with c show ?thesis
    by (intro exI [of _ "q\<lparr>connectionStatus := status_code ConnectionKilled\<rparr>"]
        exI [of _ "lift_err (close_result env)"])
      (auto simp: Peer_Close_def Let_def lift_err_def split: option.splits)
qed

text \<open>Small instances.\<close>

definition up_env :: NetEnv where
  "up_env = \<lparr>write_deadline = None, write_result = (\<lambda>msg. (length msg, None)), read_deadline = None,
     close_result = None, early = None\<rparr>"

definition sample_conn :: "bytes \<Rightarrow> error \<Rightarrow> Conn" where
  "sample_conn bs e = \<lparr>cin = \<lparr>rdata = bs, rerr = e\<rparr>, cout = [], cclosed = False\<rparr>"

definition sample_seeder :: "bytes \<Rightarrow> error \<Rightarrow> Peer" where
  "sample_seeder bs e =
     (new_peer [] [] (Some (sample_conn bs e)) seeder \<lparr>bits = [0], numPieces = 8\<rparr>)\<lparr>pieces_chan := OpenChan\<rparr>"

lemma net_up_up_env [simp]: "net_up up_env"
  by (simp add: net_up_def up_env_def)

lemma sample_seeder_wf [simp]: "peer_wf (sample_seeder bs e)"
  by (simp add: sample_seeder_def peer_wf_def new_peer_def bf_wf_def)

lemma sample_seeder_fields [simp]:
  "conn (sample_seeder bs e) = Some (sample_conn bs e)" "peer_typ (sample_seeder bs e) = seeder"
  "StatusRemote (sample_seeder bs e) = Choked" "InterestRemote (sample_seeder bs e) = NotInterested"
  "StatusThis (sample_seeder bs e) = Choked" "InterestThis (sample_seeder bs e) = NotInterested"
  "cin (sample_conn bs e) = \<lparr>rdata = bs, rerr = e\<rparr>" "cout (sample_conn bs e) = []"
  "connectionStatus (sample_seeder bs e) = 0"
  by (simp_all add: sample_seeder_def sample_conn_def new_peer_def)

section \<open>Properties\<close>

text \<open>
  C15. Both ends of a connection agree: if every \<^verbatim>\<open>Send\<close> of a sequence returned nil, then the
  listener at the other end, reading what was written and then the end of the stream, ends with the
  remote choke and interest flags equal to the sender's own, and on a seeder connection it has
  delivered exactly the pieces that were sent, in order.
\<close>

theorem conversation_agrees:
  assumes "send_all ms a = Ok a'" and "conn a = Some ca" and "cout ca = []"
    and "list_all (wire_valid \<circ> snd) ms"
    and "peer_wf b" and "conn b = Some cb" and "conn a' = Some ca'"
    and "cin cb = \<lparr>rdata = cout ca', rerr = IoEOF\<rparr>"
    and "StatusRemote b = StatusThis a" and "InterestRemote b = InterestThis a"
  shows "\<exists>b' es. listener env (\<lambda>_. None) b = Some (Ok (b', es))
    \<and> StatusRemote b' = StatusThis a' \<and> InterestRemote b' = InterestThis a'
    \<and> (peer_typ b = seeder \<longrightarrow> es = map EmitPiece (pieces_of (map snd ms)))"
proof -
  note a' = send_all_Ok [OF assms(1,2)]
  have "cin cb = \<lparr>rdata = concat (map encode (map snd ms)), rerr = IoEOF\<rparr>"
    using assms(3,7,8) a' by auto
  moreover have "list_all wire_valid (map snd ms)" using assms(4) by (simp add: list.pred_map)
  ultimately obtain q es q' where "handle_all b (map snd ms) = (q, es)"
    "listener env (\<lambda>_. None) b = Some (Ok (q', es))" "StatusRemote q' = StatusRemote q"
    "InterestRemote q' = InterestRemote q"
    using listener_stream [of "map snd ms" b cb env] assms(5,6) by blast
  with handle_all_agrees [OF assms(9,10), of "map snd ms"] handle_all_pieces [of b "map snd ms"] a'
  show ?thesis by auto
qed

theorem conversation_agrees_witness:
  "\<exists>a' b' es. send_all [(up_env, UnchokeMsg), (up_env, PieceMsg \<lparr>pc_index = 0, pc_begin = 0, pc_block = [7]\<rparr>)]
      (sample_seeder [] IoEOF) = Ok a'
    \<and> listener up_env (\<lambda>_. None) (sample_seeder (Unchoke_Serialize
        @ Piece_Serialize \<lparr>pc_index = 0, pc_begin = 0, pc_block = [7]\<rparr>) IoEOF) = Some (Ok (b', es))
    \<and> StatusRemote b' = UnChoked \<and> es = [EmitPiece \<lparr>pc_index = 0, pc_begin = 0, pc_block = [7]\<rparr>]"
proof -
  let ?pc = "\<lparr>pc_index = 0, pc_begin = 0, pc_block = [7]\<rparr> :: Piece"
  let ?a' = "(sample_seeder [] IoEOF)\<lparr>conn := Some ((sample_conn [] IoEOF)\<lparr>cout := Unchoke_Serialize @ Piece_Serialize ?pc\<rparr>),
      StatusThis := UnChoked\<rparr>"
  have send: "send_all [(up_env, UnchokeMsg), (up_env, PieceMsg ?pc)] (sample_seeder [] IoEOF) = Ok ?a'"
    using unchoke_send.succeeds [OF net_up_up_env, of "sample_seeder [] IoEOF"]
      piece_send.succeeds [OF net_up_up_env, of "(sample_seeder [] IoEOF)\<lparr>conn := Some ((sample_conn [] IoEOF)\<lparr>cout := Unchoke_Serialize\<rparr>),
        StatusThis := UnChoked\<rparr>" _ ?pc] by simp
  from conversation_agrees [OF send, of "sample_conn [] IoEOF"
      "sample_seeder (Unchoke_Serialize @ Piece_Serialize ?pc) IoEOF"
      "sample_conn (Unchoke_Serialize @ Piece_Serialize ?pc) IoEOF"
      "(sample_conn [] IoEOF)\<lparr>cout := Unchoke_Serialize @ Piece_Serialize ?pc\<rparr>" up_env]
  show ?thesis unfolding send by (auto simp: piece_valid_def pieces_of_def)
qed

text \<open>
  C29. The listener is safe against any remote peer: on a well-formed peer, whatever bytes arrive
  before the stream ends, it returns, it never panics, it closes the peer's channels exactly once
  and marks the connection as killed, the remote bit field stays well formed, and it delivers only
  non-empty pieces on a seeder connection and only requests of at most 16 KiB, while unchoked, on a
  leecher connection.
\<close>

theorem listener_any_stream:
  assumes "peer_wf p" and "conn p = Some c" and "final_error (rerr (cin c))"
  shows "\<exists>q es. listener env deadline p = Some (Ok (q, es))
    \<and> connectionStatus q = status_code ConnectionKilled \<and> bf_wf (PeerBitfield q)
    \<and> (if peer_typ p = seeder then pieces_chan q = ClosedChan
       else requests_chan q = ClosedChan \<and> cancels_chan q = ClosedChan)
    \<and> list_all (emit_ok p) es"
  using assms by (rule listener_safe)

theorem listener_any_stream_witness:
  "\<exists>q es. listener up_env (\<lambda>_. None) (sample_seeder [0, 0, 0, 9, 200, 1] IoEOF) = Some (Ok (q, es))
    \<and> pieces_chan q = ClosedChan"
  using listener_any_stream [of "sample_seeder [0, 0, 0, 9, 200, 1] IoEOF" "sample_conn [0, 0, 0, 9, 200, 1] IoEOF"
      up_env "\<lambda>_. None"]
  by (auto simp: final_error_def)

text \<open>
  C32. On a connection whose reads end with an error other than the end of the stream, a closed
  connection or a missed deadline, and keep returning it (a reset connection, say), the listener never
  returns: it retries for ever without pausing.
\<close>

theorem listener_spins_on_error:
  assumes "conn p = Some c" and "rdata (cin c) = []" and "\<not> final_error (rerr (cin c))"
  shows "listener env (\<lambda>_. None) p = None"
  using listener_loop_spins [OF assms] by (simp add: listener_def)

theorem listener_spins_on_error_witness:
  "listener up_env (\<lambda>_. None) (sample_seeder [] (SysError ''ECONNRESET'')) = None"
  using listener_spins_on_error [of "sample_seeder [] (SysError ''ECONNRESET'')" "sample_conn [] (SysError ''ECONNRESET'')"]
  by (simp add: final_error_def)

text \<open>
  The pieces the remote peer announces are recorded: after a stream of valid messages without a
  bitfield message, the peer's bit field stands for the pieces it had plus exactly the announced
  ones that belong to the torrent.
\<close>

theorem haves_recorded:
  assumes "list_all wire_valid ms" and "\<forall>x. BitfieldMsg x \<notin> set ms" and "peer_wf p" and "conn p = Some c"
    and "cin c = \<lparr>rdata = concat (map encode ms), rerr = IoEOF\<rparr>"
  shows "\<exists>q es. listener env (\<lambda>_. None) p = Some (Ok (q, es))
    \<and> have_set (PeerBitfield q) =
        have_set (PeerBitfield p) \<union> (announced ms \<inter> {i. i < bf_count (PeerBitfield p)})"
proof -
  have "bf_wf (PeerBitfield p)" using assms(3) by (simp add: peer_wf_def)
  from listener_stream [OF assms(1,3,4,5), of env] handle_all_have_set [OF this, of ms] assms(2)
  show ?thesis by auto
qed

theorem haves_recorded_witness:
  "\<exists>q es. listener up_env (\<lambda>_. None) (sample_seeder (Have_Serialize \<lparr>have_index = 3\<rparr>) IoEOF) = Some (Ok (q, es))
    \<and> 3 \<in> have_set (PeerBitfield q)"
proof -
  let ?p = "sample_seeder (Have_Serialize \<lparr>have_index = 3\<rparr>) IoEOF"
  have "3 < bf_count (PeerBitfield ?p)" by (simp add: bf_count_def sample_seeder_def new_peer_def)
  with haves_recorded [of "[HaveMsg \<lparr>have_index = 3\<rparr>]" ?p "sample_conn (Have_Serialize \<lparr>have_index = 3\<rparr>) IoEOF" up_env]
  show ?thesis by (auto simp: announced_def)
qed

text \<open>
  A failed \<^verbatim>\<open>Send\<close> has no effect but a prefix of its message on the wire: no flag of the peer
  changes. On a killed connection nothing is written at all.
\<close>

theorem send_failure_keeps_state:
  assumes "send env m (Some p) = (po, Err e)" and "conn p = Some c" and "writer_ok env"
  shows "(\<exists>n. po = Some (p\<lparr>conn := Some (c\<lparr>cout := cout c @ take n (encode m)\<rparr>)\<rparr>))
    \<and> (connectionStatus p = status_code ConnectionKilled \<longrightarrow> po = Some p)"
  using send_failed [OF assms] send_killed [of p env m] assms(1) by auto

theorem send_failure_keeps_state_witness:
  "\<exists>e. send (up_env\<lparr>write_result := \<lambda>msg. (min 2 (length msg), Some NetClosed)\<rparr>) ChokeMsg (Some (sample_seeder [] IoEOF))
    = (Some ((sample_seeder [] IoEOF)\<lparr>conn := Some ((sample_conn [] IoEOF)\<lparr>cout := [0, 0]\<rparr>)\<rparr>), Err e)
    \<and> (\<exists>n. [0, 0] = take n (encode ChokeMsg))"
proof -
  let ?env = "up_env\<lparr>write_result := \<lambda>msg. (min 2 (length msg), Some NetClosed)\<rparr>"
  have ok: "writer_ok ?env" by (simp add: writer_ok_def)
  have run: "send ?env ChokeMsg (Some (sample_seeder [] IoEOF))
      = (Some ((sample_seeder [] IoEOF)\<lparr>conn := Some ((sample_conn [] IoEOF)\<lparr>cout := [0, 0]\<rparr>)\<rparr>),
         Err (Wrapped ''failed to write choke message'' NetClosed))"
    by (simp add: SendChoke_def send_defs write_msg_def io_Copy_def up_env_def Choke_Serialize_def PutUint32_def)
  from send_failure_keeps_state [OF run _ ok, of "sample_conn [] IoEOF"]
  have "\<exists>n. [0, 0] = take n (encode ChokeMsg)" by (auto simp: sample_seeder_def sample_conn_def new_peer_def)
  with run show ?thesis by blast
qed

text \<open>
  C31. \<^verbatim>\<open>Close\<close> ends the listener and returns: the connection is then killed, its channels are closed,
  and every later \<^verbatim>\<open>Send\<close> on the peer is refused and changes nothing.
\<close>

theorem close_kills:
  assumes "peer_wf p"
  shows "\<exists>q r. Peer_Close env deadline True (Some p) = Some (Some q, r) \<and> \<not> is_panic r
    \<and> ConnectionStatus_of (Some q) = Ok ConnectionKilled
    \<and> (if peer_typ p = seeder then pieces_chan q = ClosedChan
       else requests_chan q = ClosedChan \<and> cancels_chan q = ClosedChan)
    \<and> (\<forall>env' m. \<exists>e. send env' m (Some q) = (Some q, Err e))"
proof -
  from Peer_Close_running [OF assms, of env deadline] obtain q r where
    "Peer_Close env deadline True (Some p) = Some (Some q, r)" "\<not> is_panic r"
    and k: "connectionStatus q = status_code ConnectionKilled"
    and "if peer_typ p = seeder then pieces_chan q = ClosedChan
       else requests_chan q = ClosedChan \<and> cancels_chan q = ClosedChan" by blast
  moreover have "\<forall>env' m. \<exists>e. send env' m (Some q) = (Some q, Err e)"
    using send_killed [of q] k by simp
  ultimately show ?thesis by (intro exI [of _ q] exI [of _ r]) (simp add: ConnectionStatus_of_def)
qed

theorem close_kills_witness:
  "\<exists>q r. Peer_Close up_env (\<lambda>_. None) True (Some (sample_seeder [1, 2, 3] IoEOF)) = Some (Some q, r)
    \<and> pieces_chan q = ClosedChan"
  using close_kills [of "sample_seeder [1, 2, 3] IoEOF" up_env "\<lambda>_. None"] by auto

text \<open>
  C30. A client that dials a peer which answers with a well-formed handshake gets a connection: the
  client's own handshake has been written, the peer's id is the one of the answer, both sides start
  choked and not interested with an empty bit field, and what follows the answer is left for the
  listener; if the listener ends before the constructor returns, the connection is still reported as
  established, with the same bytes written. The info hash of the answer is not compared with the client's.
\<close>

theorem seeder_connection_established:
  assumes "net_up env" and "0 \<le> n" and "n \<le> 2 ^ 32" and "length ih = 20" and "length pid = 20" and "handshake_wf h"
    and "Handshake_Serialize (handshake_of ih pid) = Ok msg" and "Handshake_Serialize h = Ok reply"
    and "cin c = \<lparr>rdata = reply @ rest, rerr = e\<rparr>"
  shows "\<exists>p c'. NewSeederConnection env (Ok c) addr n ih pid = Ok p \<and> PeerId p = hs_peer_id h
    \<and> ConnectionStatus_of (Some p) = Ok ConnectionEstablished
    \<and> conn p = Some c' \<and> cout c' = cout c @ msg
    \<and> (early env = None \<longrightarrow> peer_wf p \<and> cin c' = \<lparr>rdata = rest, rerr = e\<rparr>
        \<and> StatusThis p = Choked \<and> StatusRemote p = Choked \<and> InterestThis p = NotInterested
        \<and> InterestRemote p = NotInterested \<and> have_set (PeerBitfield p) = {})"
proof -
  from NewSeederConnection_Ok [OF assms(1,2,4-9), of addr] obtain b where b: "NewBitfield n = Ok b"
    and p: "NewSeederConnection env (Ok c) addr n ih pid =
      start_listener env ((new_peer (hs_peer_id h) addr (Some (c\<lparr>cout := cout c @ msg, cin := \<lparr>rdata = rest, rerr = e\<rparr>\<rparr>)) seeder b)
        \<lparr>pieces_chan := OpenChan\<rparr>)" (is "_ = start_listener env ?p") by blast
  have "bf_wf b" using NewBitfield_wf [OF assms(2,3) b] by simp
  then have wf: "peer_wf ?p" by (simp add: new_peer_def peer_wf_def)
  have empty: "have_set b = {}"
    using NewBitfield_empty [OF assms(2,3) b] bf.count_bound [OF \<open>bf_wf b\<close>]
    by (fastforce simp: have_set_def unat_of_nat_u32)
  show ?thesis
  proof (cases "early env")
    case None
    with wf empty show ?thesis
      by (simp add: p start_listener_def new_peer_def peer_wf_def store_established_def ConnectionStatus_of_def)
  next
    case (Some deadline)
    from start_listener_keeps [OF _ wf, of _ env] show ?thesis
      using Some by (auto simp: p new_peer_def ConnectionStatus_of_def)
  qed
qed

theorem seeder_connection_established_witness:
  "\<exists>p. NewSeederConnection up_env
      (Ok (sample_conn (19 # ProtocolV1 @ replicate 8 0 @ replicate 20 1 @ replicate 20 2) IoEOF)) [] 8
      (replicate 20 3) (replicate 20 4) = Ok p
    \<and> PeerId p = replicate 20 2"
proof -
  let ?h = "handshake_of (replicate 20 1) (replicate 20 2)"
  let ?msg = "19 # ProtocolV1 @ replicate 8 0 @ replicate 20 3 @ replicate 20 4"
  let ?reply = "19 # ProtocolV1 @ replicate 8 0 @ replicate 20 1 @ replicate 20 2"
  have h: "handshake_wf ?h" "Handshake_Serialize ?h = Ok ?reply"
    "Handshake_Serialize (handshake_of (replicate 20 3) (replicate 20 4)) = Ok ?msg"
    by (simp_all add: handshake_of_wf Handshake_Serialize_wf) (simp_all add: handshake_of_def)
  from seeder_connection_established [OF net_up_up_env, of 8 "replicate 20 3" "replicate 20 4" ?h ?msg ?reply
      "sample_conn ?reply IoEOF" "[]" IoEOF "[]"] h
  show ?thesis by (auto simp: handshake_of_def)
qed

text \<open>
  C33. The constructors store the status \<^verbatim>\<open>ConnectionEstablished\<close> after they have started the
  listener. If the remote peer answers the handshake and hangs up, and the listener ends before the store,
  \<^verbatim>\<open>NewSeederConnection\<close> returns a peer that reports an established connection although its
  listener is gone and its channel closed. If the listener ends after the store, the peer reports a
  killed connection.
\<close>

theorem established_overwrites_killed:
  assumes "net_up env" and "0 \<le> n" and "n \<le> 2 ^ 32" and "length ih = 20" and "length pid = 20" and "handshake_wf h"
    and "Handshake_Serialize h = Ok reply" and "cin c = \<lparr>rdata = reply, rerr = e\<rparr>" and "final_error e"
    and "early env = Some deadline"
  shows "(\<exists>p. NewSeederConnection env (Ok c) addr n ih pid = Ok p \<and> pieces_chan p = ClosedChan
      \<and> ConnectionStatus_of (Some p) = Ok ConnectionEstablished)
    \<and> (\<exists>p q. NewSeederConnection (env\<lparr>early := None\<rparr>) (Ok c) addr n ih pid = Ok p \<and> pieces_chan p = OpenChan
      \<and> listener env deadline p = Some (Ok (q, [])) \<and> pieces_chan q = ClosedChan
      \<and> ConnectionStatus_of (Some q) = Ok ConnectionKilled)"
proof -
  obtain msg where msg: "Handshake_Serialize (handshake_of ih pid) = Ok msg"
    using Handshake_Serialize_wf [OF handshake_of_wf [OF assms(4,5)]] by blast
  have rd: "cin c = \<lparr>rdata = reply @ [], rerr = e\<rparr>" using assms(8) by simp
  have up: "net_up (env\<lparr>early := None\<rparr>)" using assms(1) by (simp add: net_up_def)
  note new = NewSeederConnection_Ok [OF _ assms(2,4,5,6) msg assms(7) rd, of _ addr]
  from new [OF assms(1)] obtain b where b: "NewBitfield n = Ok b"
    and p: "NewSeederConnection env (Ok c) addr n ih pid =
      start_listener env ((new_peer (hs_peer_id h) addr (Some (c\<lparr>cout := cout c @ msg, cin := \<lparr>rdata = [], rerr = e\<rparr>\<rparr>)) seeder b)
        \<lparr>pieces_chan := OpenChan\<rparr>)" (is "_ = start_listener env ?p") by blast
  from new [OF up] b have p': "NewSeederConnection (env\<lparr>early := None\<rparr>) (Ok c) addr n ih pid = Ok (store_established ?p)"
    by (auto simp: start_listener_def)
  have silent: "\<exists>q. listener env deadline x = Some (Ok (q, [])) \<and> pieces_chan q = ClosedChan \<and> connectionStatus q = 1"
    if "peer_typ x = seeder" "pieces_chan x = OpenChan" "conn x = Some (c\<lparr>cout := cout c @ msg, cin := \<lparr>rdata = [], rerr = e\<rparr>\<rparr>)" for x
    using listener_silent [OF that(3) _ _ that(1,2)] assms(9) by simp
  from silent [of ?p] obtain q where "listener env deadline ?p = Some (Ok (q, []))" "pieces_chan q = ClosedChan"
    by (auto simp: new_peer_def)
  with assms(10) have "NewSeederConnection env (Ok c) addr n ih pid = Ok (store_established q) \<and> pieces_chan (store_established q) = ClosedChan
    \<and> ConnectionStatus_of (Some (store_established q)) = Ok ConnectionEstablished"
    by (simp add: p start_listener_def store_established_def ConnectionStatus_of_def)
  moreover from silent [of "store_established ?p"] obtain q' where "listener env deadline (store_established ?p) = Some (Ok (q', []))"
    "pieces_chan q' = ClosedChan" "connectionStatus q' = 1" by (auto simp: new_peer_def store_established_def)
  ultimately show ?thesis
    using p' by (auto simp: new_peer_def store_established_def ConnectionStatus_of_def)
qed

theorem established_overwrites_killed_witness:
  "\<exists>p. NewSeederConnection (up_env\<lparr>early := Some (\<lambda>_. None)\<rparr>)
      (Ok (sample_conn (19 # ProtocolV1 @ replicate 8 0 @ replicate 20 1 @ replicate 20 2) IoEOF)) [] 8
      (replicate 20 3) (replicate 20 4) = Ok p
    \<and> pieces_chan p = ClosedChan \<and> ConnectionStatus_of (Some p) = Ok ConnectionEstablished"
proof -
  let ?h = "handshake_of (replicate 20 1) (replicate 20 2)"
  let ?reply = "19 # ProtocolV1 @ replicate 8 0 @ replicate 20 1 @ replicate 20 2"
  let ?env = "up_env\<lparr>early := Some (\<lambda>_. None)\<rparr>"
  have h: "handshake_wf ?h" "Handshake_Serialize ?h = Ok ?reply" "net_up ?env" "final_error IoEOF"
    by (simp_all add: handshake_of_wf Handshake_Serialize_wf net_up_def final_error_def up_env_def) (simp add: handshake_of_def)
  from established_overwrites_killed [OF h(3) _ _ _ _ h(1,2) _ h(4), of 8 "replicate 20 3" "replicate 20 4" "sample_conn ?reply IoEOF"
      "\<lambda>_. None" "[]"]
  show ?thesis by simp
qed

end
