(* ===== verification/Tracker.thy ===== *)
theory Tracker
  imports Bencoding
begin

text \<open>
  Package \<^verbatim>\<open>internal/tracker\<close>: announcing to a tracker.

  \<^item> \<open>RequestParams\<close>, \<open>Params_Validate\<close> and \<open>Params_Encode\<close> are the parameters of
    an announce, their check and their query string; \<open>ParseIP\<close> and \<open>QueryEscape\<close> are the
    functions of \<^verbatim>\<open>net\<close> and \<^verbatim>\<open>net/url\<close> they call.
  \<^item> \<open>Response\<close> and \<open>DecodeResponse\<close> are the tracker's answer.
  \<^item> \<open>CreateRequest\<close> is one exchange; what the HTTP client answers is its argument.

  Shown: the query string parses back to the parameters; which peers a compact or a wide answer
  yields; what a successful exchange implies; no answer makes the decoding panic.
\<close>

section \<open>event.go, request.go\<close>

type_synonym Event = bytes

definition EventStarted :: Event where
  "EventStarted = str ''started''"

definition EventStopped :: Event where
  "EventStopped = str ''stopped''"

definition EventCompleted :: Event where
  "EventCompleted = str ''completed''"

record RequestParams =
  InfoHash :: bytes
  PeerID :: bytes
  rPort :: int64
  Uploaded :: int64
  Downloaded :: int64
  Left :: int64
  Compact :: "int64 option"
  NoPeerId :: "int64 option"
  rEvent :: "Event option"
  rIP :: "bytes option"
  NumWant :: "int64 option"
  Key :: "bytes option"
  rTrackerID :: "bytes option"

text \<open>
  \<^verbatim>\<open>netip.ParseAddr\<close> as \<^verbatim>\<open>net.ParseIP\<close> uses it: dotted IPv4 without leading zeros, or IPv6 with at
  most one ellipsis and an optional trailing IPv4 part, without a zone.
\<close>

fun ipv4_loop :: "nat \<Rightarrow> nat \<Rightarrow> nat \<Rightarrow> byte option \<Rightarrow> bytes \<Rightarrow> bool" where
  "ipv4_loop pos val digs prev [] = (pos = 3)"
| "ipv4_loop pos val digs prev (c # cs) =
     (if is_digit c then
        (if digs = 1 \<and> val = 0 then False
         else if 255 < val * 10 + digit_val c then False
         else ipv4_loop pos (val * 10 + digit_val c) (Suc digs) (Some c) cs)
      else if c = 46 then
        (if prev = None \<or> cs = [] \<or> prev = Some 46 \<or> pos = 3 then False
         else ipv4_loop (Suc pos) 0 0 (Some c) cs)
      else False)"

definition parseIPv4 :: "bytes \<Rightarrow> bool" where
  "parseIPv4 s = ipv4_loop 0 0 0 None s"

definition hex_run :: "bytes \<Rightarrow> nat" where
  "hex_run s = length (takeWhile (\<lambda>c. fromHexChar c \<noteq> None) s)"

text \<open>The loop of \<^verbatim>\<open>parseIPv6\<close>: \<open>i\<close> counts the bytes filled, \<open>ell\<close> tells whether an ellipsis
  was seen; each round consumes a group, and sixteen bytes are at most eight rounds.\<close>

fun ipv6_loop :: "nat \<Rightarrow> nat \<Rightarrow> bool \<Rightarrow> bytes \<Rightarrow> bool" where
  "ipv6_loop 0 i ell s = (s = [] \<and> \<not> ell)"
| "ipv6_loop (Suc n) i ell s =
     (let off = hex_run s; rest = drop off s in
      if off = 0 \<or> 4 < off then False
      else if rest \<noteq> [] \<and> hd rest = 46 then
        ((ell \<or> i = 12) \<and> i + 4 \<le> 16 \<and> parseIPv4 s \<and> (if i + 4 < 16 then ell else \<not> ell))
      else if rest = [] then (if i + 2 < 16 then ell else \<not> ell)
      else if hd rest \<noteq> 58 \<or> tl rest = [] then False
      else if hd (tl rest) = 58 then
        (if ell then False
         else if tl (tl rest) = [] then i + 2 < 16
         else ipv6_loop n (i + 2) True (tl (tl rest)))
      else ipv6_loop n (i + 2) ell (tl rest))"

definition parseIPv6 :: "bytes \<Rightarrow> bool" where
  "parseIPv6 s =
     (if take 2 s = [58, 58] then (drop 2 s = [] \<or> ipv6_loop 8 0 True (drop 2 s))
      else ipv6_loop 8 0 False s)"

definition ParseIP :: "bytes \<Rightarrow> bool" where
  "ParseIP s =
     (case find (\<lambda>c. c \<in> {46, 58, 37}) s of
        None \<Rightarrow> False
      | Some c \<Rightarrow> if c = 46 then parseIPv4 s else if c = 58 then 37 \<notin> set s \<and> parseIPv6 s else False)"

definition bad_flag :: "int64 option \<Rightarrow> bool" where
  "bad_flag f \<longleftrightarrow> (case f of None \<Rightarrow> False | Some i \<Rightarrow> i \<noteq> 1 \<and> i \<noteq> 0)"

definition Params_Validate :: "RequestParams \<Rightarrow> unit outcome" where
  "Params_Validate p =
     (if InfoHash p = [] then Err (ErrorMsg ''info_hash is required'')
      else if PeerID p = [] then Err (ErrorMsg ''peer_id is required'')
      else if rPort p = 0 then Err (ErrorMsg ''port specified but provided value 0'')
      else if bad_flag (Compact p)
      then Err (ErrorMsg ''compact specified but invalid provided value'')
      else if bad_flag (NoPeerId p) then Err (ErrorMsg ''no_peer_id specified but provided value'')
      else if NoPeerId p \<noteq> None \<and> Compact p \<noteq> None
      then Err (ErrorMsg ''cannot have both no_peer_id and compact specified'')
      else if (case rEvent p of
                 Some e \<Rightarrow> e \<notin> {EventStarted, EventStopped, EventCompleted} | None \<Rightarrow> False)
      then Err (ErrorMsg ''unknown event'')
      else if (case rIP p of Some ip \<Rightarrow> \<not> ParseIP ip | None \<Rightarrow> False)
      then Err (ErrorMsg ''invalid ip'')
      else if (case NumWant p of Some n \<Rightarrow> n < 0 | None \<Rightarrow> False)
      then Err (ErrorMsg ''num_want cannot be negative'')
      else Ok ())"

definition unreserved :: "byte \<Rightarrow> bool" where
  "unreserved c \<longleftrightarrow> 97 \<le> c \<and> c \<le> 122 \<or> 65 \<le> c \<and> c \<le> 90 \<or> is_digit c \<or> c \<in> {45, 95, 46, 126}"

definition upperhex :: "nat \<Rightarrow> byte" where
  "upperhex n = (if n < 10 then of_nat (48 + n) else of_nat (55 + n))"

fun QueryEscape :: "bytes \<Rightarrow> bytes" where
  "QueryEscape [] = []"
| "QueryEscape (c # cs) =
     (if unreserved c then [c]
      else if c = 32 then [43]
      else [37, upperhex (unat c div 16), upperhex (unat c mod 16)]) @ QueryEscape cs"

fun join_amp :: "bytes list \<Rightarrow> bytes" where
  "join_amp [] = []"
| "join_amp [e] = e"
| "join_amp (e # es) = e @ 38 # join_amp es"

definition Values_Encode :: "bytes dict \<Rightarrow> bytes" where
  "Values_Encode vs =
     join_amp (map (\<lambda>k. QueryEscape k @ 61 # QueryEscape (the (dict_get vs k))) (sort (dict_keys vs)))"

definition set_opt :: "bytes \<Rightarrow> bytes option \<Rightarrow> bytes dict \<Rightarrow> bytes dict" where
  "set_opt k v vs = (case v of None \<Rightarrow> vs | Some s \<Rightarrow> dict_set k s vs)"

definition non_empty :: "bytes option \<Rightarrow> bytes option" where
  "non_empty v = (if v = Some [] then None else v)"

definition Params_values :: "RequestParams \<Rightarrow> bytes dict" where
  "Params_values p =
     set_opt (str ''trackerid'') (non_empty (rTrackerID p))
    (set_opt (str ''key'') (non_empty (Key p))
    (set_opt (str ''numwant'') (map_option FormatInt (NumWant p))
    (set_opt (str ''ip'') (non_empty (rIP p))
    (set_opt (str ''event'') (non_empty (rEvent p))
    (set_opt (str ''no_peer_id'') (map_option FormatInt (NoPeerId p))
    (set_opt (str ''compact'') (map_option FormatInt (Compact p))
       (fold (\<lambda>(k, v). dict_set k v)
          [(str ''info_hash'', InfoHash p), (str ''peer_id'', PeerID p),
           (str ''port'', FormatInt (rPort p)), (str ''uploaded'', FormatInt (Uploaded p)),
           (str ''downloaded'', FormatInt (Downloaded p)), (str ''left'', FormatInt (Left p))]
          [])))))))"

definition Params_Encode :: "RequestParams \<Rightarrow> bytes" where
  "Params_Encode p = Values_Encode (Params_values p)"

section \<open>response.go\<close>

record PeerInfo =
  piPeerID :: bytes
  piIP :: bytes
  piPort :: int64

record Response =
  FailureReason :: "bytes option"
  WarningMessage :: "bytes option"
  Interval :: "int64 option"
  MinInterval :: "int64 option"
  TrackerID :: "bytes option"
  Complete :: "int64 option"
  Incomplete :: "int64 option"
  Peers :: "PeerInfo list"

definition empty_response :: Response where
  "empty_response = \<lparr>FailureReason = None, WarningMessage = None, Interval = None, MinInterval = None,
     TrackerID = None, Complete = None, Incomplete = None, Peers = []\<rparr>"

definition get_string :: "string \<Rightarrow> string \<Rightarrow> Value dict \<Rightarrow> bytes option outcome" where
  "get_string key msg d =
     (case dict_get d (str key) of
        None \<Rightarrow> Ok None
      | Some (ByteString s) \<Rightarrow> Ok (Some s)
      | Some _ \<Rightarrow> Err (ErrorMsg msg))"

definition get_int :: "string \<Rightarrow> string \<Rightarrow> Value dict \<Rightarrow> int64 option outcome" where
  "get_int key msg d =
     (case dict_get d (str key) of
        None \<Rightarrow> Ok None
      | Some (Integer i) \<Rightarrow> Ok (Some i)
      | Some _ \<Rightarrow> Err (ErrorMsg msg))"

definition wide_peer :: "Value \<Rightarrow> PeerInfo outcome" where
  "wide_peer v =
     (case v of
        Dictionary d \<Rightarrow>
          obind (get_string ''peer id'' ''expected peer_id to be of type Bytestring'' d) (\<lambda>pid.
          obind (get_string ''ip'' ''expected peer_ip to be of type Bytestring'' d) (\<lambda>ip.
          (case ip of
             None \<Rightarrow> Err (ErrorMsg ''no ip listed for peer, inside peers list'')
           | Some l \<Rightarrow>
               obind (get_int ''port'' ''expected peer_port to be of type Integer'' d) (\<lambda>port.
               (case port of
                  None \<Rightarrow> Err (ErrorMsg ''no port listed for peer, inside peers list'')
                | Some p \<Rightarrow>
                    Ok \<lparr>piPeerID = (case pid of None \<Rightarrow> [] | Some s \<Rightarrow> s), piIP = l, piPort = p\<rparr>)))))
      | _ \<Rightarrow> Err (ErrorMsg ''expected peer to be of type Dictionary''))"

fun wide_loop :: "Value list \<Rightarrow> PeerInfo list \<Rightarrow> PeerInfo list outcome" where
  "wide_loop [] ps = Ok ps"
| "wide_loop (v # vs) ps = obind (wide_peer v) (\<lambda>p. wide_loop vs (ps @ [p]))"

definition IP_String :: "bytes \<Rightarrow> bytes" where
  "IP_String b =
     show_nat (unat (b ! 0)) @ 46 # show_nat (unat (b ! 1)) @ 46 # show_nat (unat (b ! 2))
       @ 46 # show_nat (unat (b ! 3))"

fun compact_loop :: "bytes \<Rightarrow> PeerInfo list \<Rightarrow> PeerInfo list outcome" where
  "compact_loop (a # b # c # d # e # f # rest) ps =
     compact_loop rest (ps @ [\<lparr>piPeerID = [], piIP = IP_String [a, b, c, d],
                               piPort = int (unat (Uint16 [e, f]))\<rparr>])"
| "compact_loop [] ps = Ok ps"
| "compact_loop _ ps = Panic ''slice bounds out of range''"

definition decode_peers :: "Value dict \<Rightarrow> PeerInfo list \<Rightarrow> PeerInfo list outcome" where
  "decode_peers d ps =
     (case dict_get d (str ''peers'') of
        None \<Rightarrow> Ok ps
      | Some (VList l) \<Rightarrow> wide_loop l ps
      | Some (ByteString s) \<Rightarrow>
          if length s mod 6 \<noteq> 0
          then Err (ErrorMsg ''expected length of compact to be a multiple of 6'')
          else compact_loop s ps
      | Some _ \<Rightarrow> Err (ErrorMsg ''peers were nor dictionary or bytestring type''))"

definition keep :: "'a option \<Rightarrow> 'a option \<Rightarrow> 'a option" where
  "keep old new = (case new of None \<Rightarrow> old | Some x \<Rightarrow> Some x)"

definition decode_fields :: "Value dict \<Rightarrow> Response \<Rightarrow> Response outcome" where
  "decode_fields d out =
     obind (get_string ''warning message'' ''expected warning_message to be of type Bytestring'' d) (\<lambda>wm.
     obind (get_int ''interval'' ''expected interval to be of type Integer'' d) (\<lambda>i.
     obind (get_int ''min interval'' ''expected min_interval to be of type Integer'' d) (\<lambda>mi.
     obind (get_string ''tracker id'' ''expected tracker_id to be of type Bytestring'' d) (\<lambda>ti.
     obind (get_int ''complete'' ''expected complete to be of type Integer'' d) (\<lambda>c.
     obind (get_int ''incomplete'' ''expected incomplete to be of type Integer'' d) (\<lambda>inc.
     obind (decode_peers d (Peers out)) (\<lambda>ps.
     Ok (out\<lparr>WarningMessage := keep (WarningMessage out) wm, Interval := keep (Interval out) i,
             MinInterval := keep (MinInterval out) mi, TrackerID := keep (TrackerID out) ti,
             Complete := keep (Complete out) c, Incomplete := keep (Incomplete out) inc,
             Peers := ps\<rparr>))))))))"

definition DecodeResponse :: "goslice outcome \<Rightarrow> Response option \<Rightarrow> Response outcome" where
  "DecodeResponse src outp =
     (case outp of
        None \<Rightarrow> Panic ''no response to fill, pased <nil>''
      | Some out \<Rightarrow>
          obind (oerr (Wrapped ''failed to decode body: '') (DecodeAll src)) (\<lambda>resp.
          (case resp of
             Dictionary d \<Rightarrow>
               obind (get_string ''failure reason'' ''expected failure_reason to be of type Bytestring'' d)
                 (\<lambda>fr. case fr of
                    Some s \<Rightarrow> Ok (out\<lparr>FailureReason := Some s\<rparr>)
                  | None \<Rightarrow> decode_fields d out)
           | _ \<Rightarrow> Err (ErrorMsg ''expected response to be of type dictionary''))))"

section \<open>One exchange\<close>

text \<open>
  The HTTP client: \<open>new_request\<close> is the error of \<^verbatim>\<open>http.NewRequestWithContext\<close>, \<open>do_request\<close> the
  status and body that \<^verbatim>\<open>Do\<close> and \<^verbatim>\<open>io.ReadAll\<close> return, \<open>reread\<close> the slice that reading the
  body again through \<^verbatim>\<open>bytes.NewReader\<close> allocates.
\<close>

record Http =
  new_request :: "bytes \<Rightarrow> error option"
  do_request :: "bytes \<Rightarrow> (int \<times> bytes outcome) outcome"
  reread :: "bytes \<Rightarrow> goslice"

definition CreateRequest :: "Http \<Rightarrow> bytes \<Rightarrow> RequestParams \<Rightarrow> Response outcome" where
  "CreateRequest http announce params =
     obind (oerr (Wrapped ''invalid params: '') (Params_Validate params)) (\<lambda>_.
     let url = announce @ 63 # Params_Encode params in
     case new_request http url of
       Some e \<Rightarrow> Err (Wrapped ''failed to create request: '' e)
     | None \<Rightarrow>
         obind (oerr (Wrapped ''failed to send request: '') (do_request http url)) (\<lambda>(status, rbody).
         obind (oerr (Wrapped ''failed to read response body: '') rbody) (\<lambda>body.
         if status \<noteq> 200 then Err (ErrorMsg ''request send to tracker returned status code'')
         else
           obind (oerr (Wrapped ''failed to decode tracker response: '')
                    (DecodeResponse (Ok (reread http body)) (Some empty_response))) (\<lambda>info.
           if FailureReason info \<noteq> None then Err (ErrorMsg ''request to tracker failed'')
           else Ok info))))"

section \<open>Parsing a query string\<close>

text \<open>\<^verbatim>\<open>url.ParseQuery\<close>, the reader of the query at the tracker.\<close>

fun QueryUnescape :: "bytes \<Rightarrow> bytes option" where
  "QueryUnescape [] = Some []"
| "QueryUnescape (c # cs) =
     (if c = 37 then
        (case cs of
           a # b # r \<Rightarrow>
             (case (fromHexChar a, fromHexChar b, QueryUnescape r) of
                (Some x, Some y, Some t) \<Rightarrow> Some (of_nat (x * 16 + y) # t)
              | _ \<Rightarrow> None)
         | _ \<Rightarrow> None)
      else map_option ((#) (if c = 43 then 32 else c)) (QueryUnescape cs))"

fun split_at :: "byte \<Rightarrow> bytes \<Rightarrow> bytes \<Rightarrow> bytes list" where
  "split_at sep acc [] = [acc]"
| "split_at sep acc (c # cs) =
     (if c = sep then acc # split_at sep [] cs else split_at sep (acc @ [c]) cs)"

definition parse_pair :: "bytes \<Rightarrow> (bytes option \<times> bytes option)" where
  "parse_pair s =
     (QueryUnescape (takeWhile (\<lambda>c. c \<noteq> 61) s), QueryUnescape (drop 1 (dropWhile (\<lambda>c. c \<noteq> 61) s)))"

definition ParseQuery :: "bytes \<Rightarrow> (bytes option \<times> bytes option) list" where
  "ParseQuery s = map parse_pair (split_at 38 [] s)"

text \<open>The value a tracker finds under a key.\<close>

definition query_get :: "bytes \<Rightarrow> bytes \<Rightarrow> bytes option" where
  "query_get s k = Option.bind (map_of (ParseQuery s) (Some k)) (\<lambda>v. v)"

lemma unat_upperhex: "n < 16 \<Longrightarrow> unat (upperhex n) = (if n < 10 then 48 + n else 55 + n)"
  by (simp only: upperhex_def unat_of_nat split: if_split) simp

lemma fromHexChar_upperhex: "n < 16 \<Longrightarrow> fromHexChar (upperhex n) = Some n"
  using unat_upperhex [of n] by (auto simp: fromHexChar_def word_le_nat_alt)

lemma upperhex_plain: "n < 16 \<Longrightarrow> upperhex n \<noteq> 38 \<and> upperhex n \<noteq> 61"
  using unat_upperhex [of n] by (auto simp: word_unat_eq_iff split: if_splits)

lemma nibbles: "unat (c :: byte) div 16 < 16" "unat c mod 16 < 16"
  using unsigned_less [of c, where ?'a = nat] by simp_all

lemma unreserved_plain: "unreserved c \<Longrightarrow> c \<noteq> 37 \<and> c \<noteq> 43 \<and> c \<noteq> 38 \<and> c \<noteq> 61"
  by (auto simp: unreserved_def is_digit_def)

lemma QueryUnescape_QueryEscape: "QueryUnescape (QueryEscape s) = Some s"
proof (induction s)
  case (Cons c s)
  then show ?case
    using unreserved_plain [of c] nibbles [of c]
    by (auto simp: fromHexChar_upperhex div_mult_mod_eq)
qed simp

lemma QueryEscape_plain: "c \<in> set (QueryEscape s) \<Longrightarrow> c \<noteq> 38 \<and> c \<noteq> 61"
  by (induction s) (auto simp: upperhex_plain nibbles dest: unreserved_plain split: if_splits)

lemma split_at_elem: "sep \<notin> set e \<Longrightarrow> split_at sep acc e = [acc @ e]"
  by (induction e arbitrary: acc) auto

lemma split_at_append: "sep \<notin> set e \<Longrightarrow> split_at sep acc (e @ sep # cs) = (acc @ e) # split_at sep [] cs"
  by (induction e arbitrary: acc) auto

lemma split_join_amp: "es \<noteq> [] \<Longrightarrow> \<forall>e \<in> set es. 38 \<notin> set e \<Longrightarrow> split_at 38 [] (join_amp es) = es"
  by (induction es rule: join_amp.induct) (auto simp: split_at_elem split_at_append)

lemma parse_pair_escape: "parse_pair (QueryEscape k @ 61 # QueryEscape v) = (Some k, Some v)"
proof -
  have no: "\<forall>c \<in> set (QueryEscape k). c \<noteq> 61" using QueryEscape_plain by blast
  then have "takeWhile (\<lambda>c. c \<noteq> 61) (QueryEscape k @ 61 # QueryEscape v) = QueryEscape k"
    by (simp add: takeWhile_append2)
  moreover from no have "dropWhile (\<lambda>c. c \<noteq> 61) (QueryEscape k @ 61 # QueryEscape v) = 61 # QueryEscape v"
    by (simp add: dropWhile_append2)
  ultimately show ?thesis by (simp add: parse_pair_def QueryUnescape_QueryEscape)
qed

lemma ParseQuery_Values_Encode:
  assumes "dict_wf vs" and "vs \<noteq> []"
  shows "ParseQuery (Values_Encode vs) = map (\<lambda>(k, v). (Some k, Some v)) vs"
proof -
  let ?es = "map (\<lambda>(k, v). QueryEscape k @ 61 # QueryEscape v) vs"
  have "Values_Encode vs = join_amp ?es"
    using map_snd_dict_get [OF assms(1), of "\<lambda>k v. QueryEscape k @ 61 # QueryEscape v"] assms(1)
    by (simp add: Values_Encode_def)
  moreover have "split_at 38 [] (join_amp ?es) = ?es"
    using assms(2) QueryEscape_plain by (intro split_join_amp) fastforce+
  ultimately show ?thesis by (simp add: ParseQuery_def parse_pair_escape case_prod_beta)
qed

lemma set_opt_wf: "dict_wf vs \<Longrightarrow> dict_wf (set_opt k v vs)"
  by (simp add: set_opt_def dict_wf_set split: option.split)

lemma dict_get_set_opt:
  "dict_get (set_opt k v vs) k' = (if k' = k \<and> v \<noteq> None then v else dict_get vs k')"
  by (auto simp: set_opt_def dict_get_set split: option.split)

lemma Params_values_wf: "dict_wf (Params_values p)"
  unfolding Params_values_def by (intro set_opt_wf string_map.inv_fold) simp

lemma Params_values_get:
  "dict_get (Params_values p) (str ''info_hash'') = Some (InfoHash p)"
  "dict_get (Params_values p) (str ''peer_id'') = Some (PeerID p)"
  "dict_get (Params_values p) (str ''port'') = Some (FormatInt (rPort p))"
  "dict_get (Params_values p) (str ''uploaded'') = Some (FormatInt (Uploaded p))"
  "dict_get (Params_values p) (str ''downloaded'') = Some (FormatInt (Downloaded p))"
  "dict_get (Params_values p) (str ''left'') = Some (FormatInt (Left p))"
  "dict_get (Params_values p) (str ''event'') = non_empty (rEvent p)"
  "dict_get (Params_values p) (str ''compact'') = map_option FormatInt (Compact p)"
  "dict_get (Params_values p) (str ''numwant'') = map_option FormatInt (NumWant p)"
  "dict_get (Params_values p) (str ''no_peer_id'') = map_option FormatInt (NoPeerId p)"
  "dict_get (Params_values p) (str ''ip'') = non_empty (rIP p)"
  "dict_get (Params_values p) (str ''key'') = non_empty (Key p)"
  "dict_get (Params_values p) (str ''trackerid'') = non_empty (rTrackerID p)"
  by (simp_all add: Params_values_def dict_get_set_opt dict_get_set)

definition announce_keys :: "bytes set" where
  "announce_keys = str ` {''info_hash'', ''peer_id'', ''port'', ''uploaded'', ''downloaded'', ''left'', ''compact'',
     ''no_peer_id'', ''event'', ''ip'', ''numwant'', ''key'', ''trackerid''}"

lemma set_opt_keys: "fst ` set (set_opt k v d) \<subseteq> insert k (fst ` set d)"
  by (auto simp: set_opt_def fst_set_dict_set split: option.splits)

lemma Params_values_keys: "fst ` set (Params_values p) \<subseteq> announce_keys"
proof -
  have "fst ` set (Params_values p) \<subseteq> insert (str ''trackerid'') (insert (str ''key'') (insert (str ''numwant'') (insert (str ''ip'')
      (insert (str ''event'') (insert (str ''no_peer_id'') (insert (str ''compact'') (fst ` set (fold (\<lambda>(k, v). dict_set k v)
        [(str ''info_hash'', InfoHash p), (str ''peer_id'', PeerID p), (str ''port'', FormatInt (rPort p)),
         (str ''uploaded'', FormatInt (Uploaded p)), (str ''downloaded'', FormatInt (Downloaded p)),
         (str ''left'', FormatInt (Left p))] []))))))))"
    unfolding Params_values_def by (rule order_trans [OF set_opt_keys insert_mono])+ (rule order_refl)
  also have "\<dots> \<subseteq> announce_keys"
    unfolding announce_keys_def fold.simps prod.case fst_set_dict_set image_insert image_empty id_apply comp_apply list.set by blast
  finally show ?thesis .
qed

lemma query_get_encode: "query_get (Params_Encode p) k = dict_get (Params_values p) k"
proof -
  have "Params_values p \<noteq> []" using Params_values_get(1) [of p] by auto
  with Params_values_wf [of p] have "ParseQuery (Params_Encode p) = map (\<lambda>(k, v). (Some k, Some v)) (Params_values p)"
    by (simp add: Params_Encode_def ParseQuery_Values_Encode)
  moreover have "Option.bind (map_of (map (\<lambda>(k, v). (Some k, Some v)) d) (Some k)) (\<lambda>v. v) = dict_get d k" for d :: "bytes dict"
    by (induction d) auto
  ultimately show ?thesis by (simp add: query_get_def)
qed

section \<open>Answers\<close>

lemma get_no_panic [simp]: "get_string k m d \<noteq> Panic p" "get_int k m d \<noteq> Panic p"
  by (auto simp: get_string_def get_int_def split: option.splits Value.splits)

lemma get_eq_Ok [outcome_simps]:
  "get_string k m d = Ok x \<longleftrightarrow> dict_get d (str k) = map_option ByteString x"
  "get_int k m d = Ok y \<longleftrightarrow> dict_get d (str k) = map_option Integer y"
  by (cases x; cases y; auto simp: get_string_def get_int_def split: option.splits Value.splits)+

lemma keep_None [simp]: "keep None x = x"
  by (simp add: keep_def split: option.split)

lemma wide_peer_no_panic: "wide_peer v \<noteq> Panic p"
  by (auto simp: wide_peer_def outcome_simps split: Value.splits option.splits)

lemma wide_loop_no_panic: "wide_loop vs ps \<noteq> Panic p"
  by (induction vs arbitrary: ps) (auto simp: outcome_simps wide_peer_no_panic)

lemma compact_loop_no_panic: "length s mod 6 = 0 \<Longrightarrow> compact_loop s ps \<noteq> Panic p"
  by (induction s ps rule: compact_loop.induct) (auto simp: mod_if split: if_splits)

lemma decode_peers_no_panic: "decode_peers d ps \<noteq> Panic p"
  by (auto simp: decode_peers_def wide_loop_no_panic compact_loop_no_panic split: option.splits Value.splits)

lemma DecodeResponse_no_panic:
  assumes "\<not> is_panic (DecodeAll src)"
  shows "\<not> is_panic (DecodeResponse src (Some out))"
proof -
  have "DecodeResponse src (Some out) \<noteq> Panic p" for p
    using assms
    by (auto simp: DecodeResponse_def decode_fields_def outcome_simps decode_peers_no_panic
        split: Value.splits option.splits)
  then show ?thesis by (cases "DecodeResponse src (Some out)") auto
qed

definition pack_peer :: "byte \<times> byte \<times> byte \<times> byte \<times> u16 \<Rightarrow> bytes" where
  "pack_peer p = (case p of (a, b, c, d, port) \<Rightarrow> [a, b, c, d] @ PutUint16 port)"

definition unpacked :: "byte \<times> byte \<times> byte \<times> byte \<times> u16 \<Rightarrow> PeerInfo" where
  "unpacked p = (case p of (a, b, c, d, port) \<Rightarrow>
     \<lparr>piPeerID = [], piIP = IP_String [a, b, c, d], piPort = int (unat port)\<rparr>)"

lemma PutUint16_two: "\<exists>x y. PutUint16 v = [x, y] \<and> Uint16 [x, y] = v"
  using Uint16_PutUint16 [of v] by (simp add: PutUint16_def)

lemma compact_loop_pack: "compact_loop (concat (map pack_peer ps)) acc = Ok (acc @ map unpacked ps)"
proof (induction ps arbitrary: acc)
  case (Cons p ps)
  obtain a b c d port where p: "p = (a, b, c, d, port)" by (cases p) auto
  obtain x y where "PutUint16 port = [x, y]" "Uint16 [x, y] = port" using PutUint16_two by blast
  with Cons show ?case by (simp add: p pack_peer_def unpacked_def)
qed simp

lemma length_pack: "length (concat (map pack_peer ps)) mod 6 = 0"
  by (induction ps) (auto simp: pack_peer_def mod_simps split: prod.splits)

lemma wide_loop_map: "(\<And>v. v \<in> set vs \<Longrightarrow> wide_peer v = Ok (f v)) \<Longrightarrow> wide_loop vs acc = Ok (acc @ map f vs)"
  by (induction vs arbitrary: acc) auto

definition wide_value :: "bytes \<times> bytes \<times> int64 \<Rightarrow> Value" where
  "wide_value p = (case p of (pid, ip, port) \<Rightarrow> Dictionary
     [(str ''ip'', ByteString ip), (str ''peer id'', ByteString pid), (str ''port'', Integer port)])"

lemma wide_peer_value:
  "wide_peer (wide_value (pid, ip, port)) = Ok \<lparr>piPeerID = pid, piIP = ip, piPort = port\<rparr>"
  by (simp add: wide_peer_def wide_value_def get_string_def get_int_def)

definition answer :: "int64 \<Rightarrow> Value \<Rightarrow> Value" where
  "answer interval peers = Dictionary [(str ''interval'', Integer interval), (str ''peers'', peers)]"

lemma answer_wf: "in_i64 i \<Longrightarrow> Value_wf peers \<Longrightarrow> Value_wf (answer i peers)"
  by (simp add: answer_def dict_wf_def str_def)

lemma DecodeResponse_answer:
  assumes "in_i64 i" and "Value_wf peers" and "slice_wf b" and "window b = Literal (answer i peers)"
    and "decode_peers [(str ''interval'', Integer i), (str ''peers'', peers)] [] = Ok ps"
  shows "DecodeResponse (Ok b) (Some empty_response) = Ok (empty_response\<lparr>Interval := Some i, Peers := ps\<rparr>)"
proof -
  have "DecodeAll (Ok b) = Ok (answer i peers)"
    using assms(3,4) by (intro DecodeAll_literal [of _ _ "[]" "[]"] answer_wf assms) auto
  with assms(5) show ?thesis
    by (simp add: DecodeResponse_def answer_def get_string_def get_int_def decode_fields_def keep_def
        empty_response_def)
qed

lemma DecodeResponse_Ok:
  assumes "DecodeResponse src (Some out) = Ok info" and "FailureReason info = None"
  obtains d where "DecodeAll src = Ok (Dictionary d)" and "dict_get d (str ''failure reason'') = None"
    and "decode_fields d out = Ok info"
proof -
  from assms(1) obtain v where v: "DecodeAll src = Ok v" by (auto simp: DecodeResponse_def outcome_simps)
  with assms(1) obtain d where d: "v = Dictionary d" by (cases v) (auto simp: DecodeResponse_def)
  with assms(1) v obtain fr where "dict_get d (str ''failure reason'') = map_option ByteString fr"
    "(case fr of None \<Rightarrow> decode_fields d out | Some s \<Rightarrow> Ok (out\<lparr>FailureReason := Some s\<rparr>)) = Ok info"
    by (auto simp: DecodeResponse_def obind_eq_Ok get_eq_Ok)
  with assms(2) v d show thesis by (cases fr) (auto intro: that)
qed

lemma CreateRequest_Ok:
  assumes "CreateRequest http announce params = Ok info"
  obtains body where "Params_Validate params = Ok ()"
    and "do_request http (announce @ 63 # Params_Encode params) = Ok (200, Ok body)"
    and "DecodeResponse (Ok (reread http body)) (Some empty_response) = Ok info"
    and "FailureReason info = None"
  using assms
  by (auto simp: CreateRequest_def Let_def outcome_simps split: option.splits if_splits prod.splits)

lemma decode_fields_Ok:
  assumes "decode_fields d empty_response = Ok info"
  shows "FailureReason info = None" "decode_peers d [] = Ok (Peers info)"
    "dict_get d (str ''interval'') = map_option Integer (Interval info)"
  using assms
  by (auto simp: decode_fields_def obind_eq_Ok get_eq_Ok empty_response_def)

lemmas answer_eval =
  dict_literal_def dict_keys_def string_literal_def FormatInt_def show_nat.simps digit_def str_def

section \<open>Properties\<close>

text \<open>
  C34. The announce reaches the tracker as it was meant. Parsing the query string gives back every
  parameter byte for byte: the info hash, the peer id, the port and the transfer counters always; the
  compact and no_peer_id flags and the number of peers when they are set; the event, the address, the key
  and the tracker id when they are set and not empty. There is no other key in the query, and none
  twice.
\<close>

theorem announce_query_roundtrip:
  "query_get (Params_Encode p) (str ''info_hash'') = Some (InfoHash p)
   \<and> query_get (Params_Encode p) (str ''peer_id'') = Some (PeerID p)
   \<and> query_get (Params_Encode p) (str ''port'') = Some (FormatInt (rPort p))
   \<and> query_get (Params_Encode p) (str ''uploaded'') = Some (FormatInt (Uploaded p))
   \<and> query_get (Params_Encode p) (str ''downloaded'') = Some (FormatInt (Downloaded p))
   \<and> query_get (Params_Encode p) (str ''left'') = Some (FormatInt (Left p))
   \<and> query_get (Params_Encode p) (str ''compact'') = map_option FormatInt (Compact p)
   \<and> query_get (Params_Encode p) (str ''no_peer_id'') = map_option FormatInt (NoPeerId p)
   \<and> query_get (Params_Encode p) (str ''event'') = non_empty (rEvent p)
   \<and> query_get (Params_Encode p) (str ''ip'') = non_empty (rIP p)
   \<and> query_get (Params_Encode p) (str ''numwant'') = map_option FormatInt (NumWant p)
   \<and> query_get (Params_Encode p) (str ''key'') = non_empty (Key p)
   \<and> query_get (Params_Encode p) (str ''trackerid'') = non_empty (rTrackerID p)
   \<and> (\<exists>kvs. ParseQuery (Params_Encode p) = map (\<lambda>(k, v). (Some k, Some v)) kvs
        \<and> sorted (map fst kvs) \<and> distinct (map fst kvs) \<and> fst ` set kvs \<subseteq> announce_keys)"
proof -
  have "Params_values p \<noteq> []" using Params_values_get(1) [of p] by auto
  with Params_values_wf [of p] have "ParseQuery (Params_Encode p) = map (\<lambda>(k, v). (Some k, Some v)) (Params_values p)"
    "sorted (map fst (Params_values p))" "distinct (map fst (Params_values p))"
    by (simp_all add: Params_Encode_def ParseQuery_Values_Encode dict_wf_distinct dict_wf_sorted)
  with Params_values_keys [of p] have "\<exists>kvs. ParseQuery (Params_Encode p) = map (\<lambda>(k, v). (Some k, Some v)) kvs
      \<and> sorted (map fst kvs) \<and> distinct (map fst kvs) \<and> fst ` set kvs \<subseteq> announce_keys" by blast
  then show ?thesis by (simp add: query_get_encode Params_values_get)
qed

text \<open>
  C35. A compact answer lists its peers: decoding the literal of an answer whose \<^verbatim>\<open>peers\<close> string packs
  any number of IPv4 addresses and ports gives exactly these, in order, with the interval.
\<close>

theorem compact_peers_decoded:
  assumes "in_i64 i" and "slice_wf b"
    and "window b = Literal (answer i (ByteString (concat (map pack_peer ps))))"
  shows "DecodeResponse (Ok b) (Some empty_response)
    = Ok (empty_response\<lparr>Interval := Some i, Peers := map unpacked ps\<rparr>)"
proof (rule DecodeResponse_answer [OF assms(1) _ assms(2,3)])
  show "decode_peers [(str ''interval'', Integer i), (str ''peers'', ByteString (concat (map pack_peer ps)))] []
      = Ok (map unpacked ps)"
    using length_pack [of ps] compact_loop_pack [of ps "[]"] by (simp add: decode_peers_def del: length_concat)
qed simp

theorem compact_peers_decoded_witness:
  "DecodeResponse (Ok (of_bytes (Literal (answer 1800 (ByteString (concat (map pack_peer [(10, 0, 0, 1, 6881)])))))))
      (Some empty_response)
    = Ok (empty_response\<lparr>Interval := Some 1800, Peers := [\<lparr>piPeerID = [], piIP = str ''10.0.0.1'', piPort = 6881\<rparr>]\<rparr>)"
proof -
  have "unpacked (10, 0, 0, 1, 6881) = \<lparr>piPeerID = [], piIP = str ''10.0.0.1'', piPort = 6881\<rparr>"
    by (simp add: unpacked_def IP_String_def show_nat.simps digit_def str_def)
  moreover have "slice_wf (of_bytes (Literal (answer 1800 (ByteString (concat (map pack_peer [(10, 0, 0, 1, 6881)]))))))"
    by (rule slice_wf_of_bytes) (simp add: answer_def pack_peer_def answer_eval)
  ultimately show ?thesis
    using compact_peers_decoded [of 1800 _ "[(10, 0, 0, 1, 6881)]"] by (simp add: in_i64_def)
qed

text \<open>
  A wide answer lists its peers: the dictionaries of the \<^verbatim>\<open>peers\<close> list are decoded in order to
  their id, address and port.
\<close>

theorem wide_peers_decoded:
  assumes "in_i64 i" and "slice_wf b" and "\<forall>p \<in> set ps. in_i64 (snd (snd p))"
    and "window b = Literal (answer i (VList (map wide_value ps)))"
  shows "DecodeResponse (Ok b) (Some empty_response) = Ok (empty_response\<lparr>Interval := Some i,
    Peers := map (\<lambda>(pid, ip, port). \<lparr>piPeerID = pid, piIP = ip, piPort = port\<rparr>) ps\<rparr>)"
proof (rule DecodeResponse_answer [OF assms(1) _ assms(2,4)])
  show "Value_wf (VList (map wide_value ps))"
    using assms(3) by (auto simp: list_all_iff wide_value_def dict_wf_def str_def)
  have "wide_loop (map wide_value ps) acc
      = Ok (acc @ map (\<lambda>(pid, ip, port). \<lparr>piPeerID = pid, piIP = ip, piPort = port\<rparr>) ps)" for acc
    by (induction ps arbitrary: acc) (auto simp: wide_peer_value)
  then show "decode_peers [(str ''interval'', Integer i), (str ''peers'', VList (map wide_value ps))] [] =
      Ok (map (\<lambda>(pid, ip, port). \<lparr>piPeerID = pid, piIP = ip, piPort = port\<rparr>) ps)"
    by (simp add: decode_peers_def)
qed

theorem wide_peers_decoded_witness:
  "DecodeResponse (Ok (of_bytes (Literal (answer 60 (VList [wide_value (str ''p'', str ''h'', 80)])))))
      (Some empty_response)
    = Ok (empty_response\<lparr>Interval := Some 60, Peers := [\<lparr>piPeerID = str ''p'', piIP = str ''h'', piPort = 80\<rparr>]\<rparr>)"
proof -
  have "slice_wf (of_bytes (Literal (answer 60 (VList [wide_value (str ''p'', str ''h'', 80)]))))"
    by (rule slice_wf_of_bytes) (simp add: answer_def wide_value_def answer_eval)
  then show ?thesis
    using wide_peers_decoded [of 60 _ "[(str ''p'', str ''h'', 80)]"] by (simp add: in_i64_def)
qed

text \<open>
  An exchange succeeds only on a checked request and a proper answer: the parameters were valid,
  the status was 200, the body was a bencoded dictionary without a failure reason, and the interval
  and the peers are those of that dictionary. Decoding panics only if the bencoding decoder does.
\<close>

theorem create_request_checked:
  assumes "CreateRequest http announce params = Ok info"
  shows "Params_Validate params = Ok () \<and> (\<exists>body d.
      do_request http (announce @ 63 # Params_Encode params) = Ok (200, Ok body)
    \<and> DecodeAll (Ok (reread http body)) = Ok (Dictionary d)
    \<and> dict_get d (str ''failure reason'') = None \<and> FailureReason info = None
    \<and> dict_get d (str ''interval'') = map_option Integer (Interval info)
    \<and> decode_peers d [] = Ok (Peers info))"
proof -
  from CreateRequest_Ok [OF assms] obtain body where *: "Params_Validate params = Ok ()"
    "do_request http (announce @ 63 # Params_Encode params) = Ok (200, Ok body)"
    and dec: "DecodeResponse (Ok (reread http body)) (Some empty_response) = Ok info" "FailureReason info = None"
    by blast
  from DecodeResponse_Ok [OF dec] obtain d where "DecodeAll (Ok (reread http body)) = Ok (Dictionary d)"
    "dict_get d (str ''failure reason'') = None" "decode_fields d empty_response = Ok info" by blast
  with * decode_fields_Ok [OF this(3)] show ?thesis by blast
qed

theorem create_request_checked_witness:
  "\<exists>http params info. CreateRequest http (str ''t'') params = Ok info \<and> Params_Validate params = Ok ()
    \<and> Interval info = Some 60"
proof -
  let ?body = "Literal (answer 60 (VList []))"
  let ?http = "\<lparr>new_request = \<lambda>_. None, do_request = \<lambda>_. Ok (200, Ok ?body), reread = of_bytes\<rparr>"
  let ?params = "\<lparr>InfoHash = replicate 20 1, PeerID = replicate 20 2, rPort = 6881, Uploaded = 0, Downloaded = 0,
    Left = 5, Compact = Some 1, NoPeerId = None, rEvent = Some EventStarted, rIP = None, NumWant = None,
    Key = None, rTrackerID = None\<rparr>"
  have "slice_wf (of_bytes ?body)"
    by (rule slice_wf_of_bytes) (simp add: answer_def answer_eval)
  then have "DecodeResponse (Ok (of_bytes ?body)) (Some empty_response)
      = Ok (empty_response\<lparr>Interval := Some 60, Peers := []\<rparr>)"
    by (rule DecodeResponse_answer [of 60 "VList []", rotated 2])
      (simp_all add: in_i64_def decode_peers_def)
  then have "CreateRequest ?http (str ''t'') ?params = Ok (empty_response\<lparr>Interval := Some 60, Peers := []\<rparr>)"
    by (simp add: CreateRequest_def Params_Validate_def bad_flag_def empty_response_def)
  with create_request_checked [OF this] show ?thesis
    by (intro exI [of _ ?http] exI [of _ ?params] exI [of _ "empty_response\<lparr>Interval := Some 60, Peers := []\<rparr>"]) simp
qed

text \<open>
  No answer makes the decoding of a response panic by itself: if the bencoding decoder does not
  panic on the body, neither does \<open>DecodeResponse\<close>, whatever the dictionary holds.
\<close>

theorem decode_response_no_panic:
  assumes "\<not> is_panic (DecodeAll src)"
  shows "\<not> is_panic (DecodeResponse src (Some out))"
  using assms by (rule DecodeResponse_no_panic)

theorem decode_response_no_panic_witness:
  "\<not> is_panic (DecodeResponse (Err IoEOF) (Some empty_response))"
  using decode_response_no_panic [of "Err IoEOF" empty_response] by (simp add: DecodeAll_def)

end
