(* ===== verification/Status.thy ===== *)
theory Status
  imports Metainfo Peer
begin

text \<open>
  Package \<^verbatim>\<open>internal/status\<close>, file \<^verbatim>\<open>status.go\<close>: the state of one torrent.

  \<^item> \<open>StatusTracker\<close> is the struct \<^verbatim>\<open>Tracker\<close>. The four download slots hold pointers to
    \<open>pendingPiece\<close> objects that other goroutines may still use after the slot was cleared, so
    the objects live in an explicit store \<open>heap\<close> and a slot holds an address; in the same way
    the peers live in the store \<open>peers\<close> and the maps \<open>seeders\<close> and \<open>leechers\<close> hold addresses.
  \<^item> \<open>FS\<close> is the part of the file system the program uses; what the calls of an operation
    return besides is its argument of type \<open>FsEnv\<close>.
  \<^item> \<open>Retry\<close>, \<open>NewTracker\<close>, \<open>Tracker_Close\<close>, \<open>Flush\<close> and
    \<open>ReadRequest\<close> are the functions of the file; \<^verbatim>\<open>Close\<close> is \<open>save_bitfield\<close> and then \<open>close_stop\<close>.

  Shown: a flushed piece is read back block by block; flushing a piece touches no other; opening a
  directory with a saved bit field restores the field and the bytes of its pieces.
\<close>

section \<open>Data\<close>

record timedDownloadRequest =
  treq :: Request
  tsend :: nat
  treceived :: bool

record timedUploadRequest =
  ureq :: Request
  urecieved :: nat
  uaddr :: bytes

record pendingPiece =
  pIndex :: u32
  pDownloaded :: int64
  pSize :: int64
  Received :: "Piece list"
  Pending :: "Request list"
  InFlight :: "timedDownloadRequest list"

definition Retry :: "pendingPiece \<Rightarrow> pendingPiece outcome" where
  "Retry p =
     (if Pending p \<noteq> []
      then Err (ErrorMsg ''expected no pending requests when rescheduling piece for retry download'')
      else Ok (p\<lparr>Pending := Pending p @ map treq (InFlight p), InFlight := [], Received := [],
                 pDownloaded := 0\<rparr>))"

record FS =
  dirs :: "bytes list"
  files :: "bytes \<Rightarrow> bytes option"

record FsEnv =
  mkdir_err :: "error option"
  create_err :: "error option"
  write_err :: "(nat \<times> error) option"
  open_err :: "error option"
  fclose_err :: "error option"

record StatusTracker =
  clientID :: bytes
  Torrent :: MetaInfoFile
  BitField :: BitField
  tUploaded :: int64
  tDownloaded :: int64
  DownloadDir :: bytes
  peers :: "Peer list"
  seeders :: "nat dict"
  leechers :: "nat dict"
  heap :: "pendingPiece list"
  dslots :: "nat option list"
  uslots :: "timedUploadRequest option list"
  drate :: int64
  urate :: int64
  stop :: chan_state
  dcancel :: chan_state
  completed :: chan_state
  ucancel :: chan_state
  disk :: FS

section \<open>Files\<close>

definition piece_file :: "bytes \<Rightarrow> u32 \<Rightarrow> bytes" where
  "piece_file dir idx = Join [dir, show_nat (unat idx) @ str ''.bin'']"

definition bitfield_file :: "bytes \<Rightarrow> bytes" where
  "bitfield_file dir = Join [dir, str ''bitfield.bin'']"

text \<open>\<^verbatim>\<open>os.Create\<close> and \<^verbatim>\<open>binary.Write\<close>: the file is truncated first, and a failed write leaves a
  prefix.\<close>

definition write_file :: "FsEnv \<Rightarrow> bytes \<Rightarrow> bytes \<Rightarrow> bytes \<Rightarrow> FS \<Rightarrow> FS \<times> unit outcome" where
  "write_file env dir path data fs =
     (case create_err env of
        Some e \<Rightarrow> (fs, Err e)
      | None \<Rightarrow>
          if dir \<notin> set (dirs fs) then (fs, Err NotExist)
          else (case write_err env of
            None \<Rightarrow> (fs\<lparr>files := (files fs)(path \<mapsto> data)\<rparr>, Ok ())
          | Some (n, e) \<Rightarrow> (fs\<lparr>files := (files fs)(path \<mapsto> take n data)\<rparr>, Err e)))"

definition ensure_dir :: "FsEnv \<Rightarrow> bytes \<Rightarrow> FS \<Rightarrow> FS outcome" where
  "ensure_dir env dir fs =
     (if dir \<in> set (dirs fs) then Ok fs
      else (case mkdir_err env of Some e \<Rightarrow> Err e | None \<Rightarrow> Ok (fs\<lparr>dirs := dir # dirs fs\<rparr>)))"

definition Flush :: "FsEnv \<Rightarrow> StatusTracker \<Rightarrow> u32 \<Rightarrow> bytes \<Rightarrow> StatusTracker \<times> unit outcome" where
  "Flush env t idx pieceBytes =
     (case ensure_dir env (DownloadDir t) (disk t) of
        Ok fs \<Rightarrow>
          (case write_file env (DownloadDir t) (piece_file (DownloadDir t) idx) pieceBytes fs of
             (fs', r) \<Rightarrow> (t\<lparr>disk := fs'\<rparr>, r))
      | Err e \<Rightarrow> (t, Err e)
      | Panic s \<Rightarrow> (t, Panic s))"

definition ReadRequest :: "FsEnv \<Rightarrow> StatusTracker \<Rightarrow> Request \<Rightarrow> bytes outcome" where
  "ReadRequest env t req =
     (if DownloadDir t \<notin> set (dirs (disk t))
      then Err (Wrapped ''cannot construct request: '' NotExist)
      else (case open_err env of
        Some e \<Rightarrow> Err e
      | None \<Rightarrow>
          (case files (disk t) (piece_file (DownloadDir t) (req_index req)) of
             None \<Rightarrow> Err NotExist
           | Some b \<Rightarrow>
               if length b \<le> unat (req_begin req)
               then Err (ErrorMsg ''invalid request, offset within piece larger than piece size'')
               else if length b - unat (req_begin req) < unat (req_length req)
               then Err (ErrorMsg ''invalid request, offset + length tries to request larger block than possible'')
               else reslice (of_bytes b) (int (unat (req_begin req)))
                      (int (unat (req_begin req + req_length req))))))"

section \<open>Opening and closing a torrent\<close>

text \<open>The size of a piece as \<^verbatim>\<open>NewTracker\<close> and \<^verbatim>\<open>downloadScheduler\<close> compute it, in 64 bits.\<close>

definition piece_span :: "MetaInfoFile \<Rightarrow> int \<Rightarrow> int64 outcome" where
  "piece_span m index =
     obind (BytesToDownload m) (\<lambda>total.
     let pieceStart = i64 (index * PieceLength (mInfo m));
         pieceEnd = min (i64 (pieceStart + PieceLength (mInfo m))) total
     in Ok (i64 (pieceEnd - pieceStart)))"

fun add_existing :: "MetaInfoFile \<Rightarrow> u32 list \<Rightarrow> int64 \<Rightarrow> int64 outcome" where
  "add_existing m [] downloaded = Ok downloaded"
| "add_existing m (i # is) downloaded =
     obind (piece_span m (int (unat i))) (\<lambda>n. add_existing m is (i64 (downloaded + n)))"

definition read_bitfield :: "FsEnv \<Rightarrow> bytes \<Rightarrow> nat \<Rightarrow> FS \<Rightarrow> bytes option outcome" where
  "read_bitfield env dir n fs =
     (if open_err env \<noteq> None then Ok None
      else (case files fs (bitfield_file dir) of
        None \<Rightarrow> Ok None
      | Some b \<Rightarrow>
          (case ReadFull n \<lparr>rdata = b, rerr = IoEOF\<rparr> of
             (Ok r, _) \<Rightarrow> Ok (Some r)
           | (Err e, _) \<Rightarrow> Err (Wrapped ''failed to read existing bitfield file: '' e)
           | (Panic s, _) \<Rightarrow> Panic s)))"

definition fresh_tracker :: "bytes \<Rightarrow> MetaInfoFile \<Rightarrow> BitField \<Rightarrow> bytes \<Rightarrow> FS \<Rightarrow> StatusTracker" where
  "fresh_tracker cid m b dir fs =
     \<lparr>clientID = cid, Torrent = m, BitField = b, tUploaded = 0, tDownloaded = 0, DownloadDir = dir,
      peers = [], seeders = [], leechers = [], heap = [], dslots = replicate 4 None, uslots = replicate 75 None,
      drate = 0, urate = 0, stop = OpenChan, dcancel = OpenChan, completed = OpenChan,
      ucancel = NilChan, disk = fs\<rparr>"

definition saved_dir :: "bytes \<Rightarrow> MetaInfoFile \<Rightarrow> bytes" where
  "saved_dir downloadDir m = Join [downloadDir, EncodeToString (Hash (mInfo m))]"

definition NewTracker :: "FsEnv \<Rightarrow> bytes \<Rightarrow> MetaInfoFile \<Rightarrow> bytes \<Rightarrow> FS \<Rightarrow> StatusTracker outcome" where
  "NewTracker env cid m downloadDir fs =
     obind (NumPieces m) (\<lambda>n.
     obind (NewBitfield n) (\<lambda>b.
     let dir = saved_dir downloadDir m;
         t = fresh_tracker cid m b dir fs
     in obind (read_bitfield env dir (Len b) fs) (\<lambda>saved.
        case saved of
          None \<Rightarrow> Ok t
        | Some r \<Rightarrow>
            obind (Overwrite b r) (\<lambda>b'.
            obind (ExistingPieces b') (\<lambda>pcs.
            obind (add_existing m pcs 0) (\<lambda>d.
            Ok (t\<lparr>BitField := b', tDownloaded := d\<rparr>)))))))"

text \<open>
  \<^verbatim>\<open>Close\<close> saves the bit field, then closes \<^verbatim>\<open>stop\<close> and waits for the goroutines; it returns nil
  whatever happened to the file. Between its two steps the other goroutines go on, so the machine of the
  tracker takes them one at a time; \<open>Tracker_Close\<close> is the call when nothing comes in between.
\<close>

definition save_bitfield :: "FsEnv \<Rightarrow> StatusTracker \<Rightarrow> StatusTracker" where
  "save_bitfield env t =
     t\<lparr>disk := fst (write_file env (DownloadDir t) (bitfield_file (DownloadDir t)) (Clone (BitField t)) (disk t))\<rparr>"

definition close_stop :: "StatusTracker \<Rightarrow> StatusTracker outcome" where
  "close_stop t = obind (close_chan (stop t)) (\<lambda>c. Ok (t\<lparr>stop := c\<rparr>))"

definition Tracker_Close :: "FsEnv \<Rightarrow> StatusTracker \<Rightarrow> StatusTracker \<times> unit outcome" where
  "Tracker_Close env t =
     (let t1 = save_bitfield env t in
      (case close_stop t1 of
         Ok t2 \<Rightarrow> (t2, Ok ())
       | Err e \<Rightarrow> (t1, Err e)
       | Panic s \<Rightarrow> (t1, Panic s)))"

definition CancelDownload :: "StatusTracker \<Rightarrow> StatusTracker outcome" where
  "CancelDownload t = obind (close_chan (dcancel t)) (\<lambda>c. Ok (t\<lparr>dcancel := c\<rparr>))"

definition CancelUpload :: "StatusTracker \<Rightarrow> StatusTracker outcome" where
  "CancelUpload t = obind (close_chan (ucancel t)) (\<lambda>c. Ok (t\<lparr>ucancel := c\<rparr>))"

section \<open>File names\<close>

lemma split_slash_snoc: "split_slash acc (d @ slash # n) = split_slash acc d @ split_slash [] n"
  by (induction d arbitrary: acc) auto

lemma clean_elems_snoc: "plain_elem n \<Longrightarrow> clean_elems rooted out (es @ [n]) = clean_elems rooted out es @ [n]"
  by (induction rooted out es rule: clean_elems.induct) (auto simp: plain_elem_def)

lemma join_slash_snoc_inject: "join_slash (es @ [a]) = join_slash (es @ [b]) \<longleftrightarrow> a = b"
  by (induction es rule: join_slash.induct) (auto simp: neq_Nil_conv)

lemma join_slash_snoc_Nil: "b \<noteq> [] \<Longrightarrow> join_slash (es @ [b]) \<noteq> []"
  by (induction es rule: join_slash.induct) auto

lemma Join_inject:
  assumes "plain_elem a" and "plain_elem b"
  shows "Join [d, a] = Join [d, b] \<longleftrightarrow> a = b"
proof (cases "d = []")
  case True
  have "Clean [] \<noteq> x" if "plain_elem x" for x using that by (auto simp: Clean_def plain_elem_def)
  with True assms Clean_plain [of "[a]"] Clean_plain [of "[b]"] show ?thesis
    by (auto simp: plain_elem_def)
next
  case False
  define out where "out = clean_elems (hd d = slash) [] (split_slash [] d)"
  have "Join [d, x] = (if hd d = slash then [slash] else []) @ join_slash (out @ [x])" if "plain_elem x" for x
  proof -
    have "split_slash [] (d @ slash # x) = split_slash [] d @ [x]"
      using that by (simp add: split_slash_snoc split_slash_elem plain_elem_def)
    moreover have "x \<noteq> []" using that by (simp add: plain_elem_def)
    ultimately show ?thesis
      using False that join_slash_snoc_Nil [of x out]
      by (auto simp: Clean_def Let_def clean_elems_snoc out_def)
  qed
  with assms show ?thesis by (simp add: join_slash_snoc_inject)
qed

lemma unat_digit_inject: "a < 10 \<Longrightarrow> b < 10 \<Longrightarrow> digit a = digit b \<longleftrightarrow> a = b"
  using unat_digit [of a] unat_digit [of b] by (metis add_left_cancel)

lemma show_nat_inject [simp]: "show_nat m = show_nat n \<longleftrightarrow> m = n"
proof (induction m arbitrary: n rule: show_nat.induct)
  case (1 m)
  show ?case
  proof (cases "m < 10")
    case True
    then show ?thesis
      by (cases "n < 10") (auto simp: show_nat.simps [of m] show_nat.simps [of n] unat_digit_inject
          dest: sym)
  next
    case False
    then show ?thesis
      using 1 [of "n div 10"] show_nat_not_Nil [of "m div 10"]
      by (cases "n < 10") (auto simp: show_nat.simps [of m] show_nat.simps [of n] unat_digit_inject, metis div_mult_mod_eq)
  qed
qed

lemma bin_name_plain:
  assumes "e \<noteq> []" and "slash \<notin> set e"
  shows "plain_elem (e @ str ''.bin'')"
  using assms by (cases e) (auto simp: plain_elem_def str_def)

lemma show_nat_no_slash: "slash \<notin> set (show_nat n)"
  using show_nat_digits [of slash n] by (auto simp: is_digit_def)

lemma piece_name_plain [simp]: "plain_elem (show_nat n @ str ''.bin'')"
  by (intro bin_name_plain) (simp_all add: show_nat_no_slash)

lemma bitfield_name: "str ''bitfield.bin'' = str ''bitfield'' @ str ''.bin''"
  by (simp add: str_def)

lemma piece_file_inject [simp]: "piece_file d i = piece_file d j \<longleftrightarrow> i = j"
  by (simp add: piece_file_def Join_inject word_unat_eq_iff del: Join.simps)

lemma show_nat_neq_bitfield: "show_nat n \<noteq> str ''bitfield''"
proof
  assume "show_nat n = str ''bitfield''"
  then have "is_digit (of_char (CHR ''b''))" using show_nat_digits [of "of_char (CHR ''b'')" n] by (simp add: str_def)
  then show False by (simp add: is_digit_def)
qed

lemma piece_file_not_bitfield [simp]: "piece_file d i \<noteq> bitfield_file d" "bitfield_file d \<noteq> piece_file d i"
proof -
  have "plain_elem (str ''bitfield'' @ str ''.bin'')" by (intro bin_name_plain) (simp_all add: str_def)
  then show "piece_file d i \<noteq> bitfield_file d"
    by (simp add: piece_file_def bitfield_file_def bitfield_name Join_inject show_nat_neq_bitfield del: Join.simps)
  then show "bitfield_file d \<noteq> piece_file d i" by simp
qed

section \<open>Sizes of pieces\<close>

definition num_pieces :: "MetaInfoFile \<Rightarrow> nat" where
  "num_pieces m = (case NumPieces m of Ok n \<Rightarrow> nat n | _ \<Rightarrow> 0)"

definition total_size :: "MetaInfoFile \<Rightarrow> nat" where
  "total_size m = (case BytesToDownload m of Ok n \<Rightarrow> nat n | _ \<Rightarrow> 0)"

abbreviation piece_length :: "MetaInfoFile \<Rightarrow> nat" where
  "piece_length m \<equiv> nat (PieceLength (mInfo m))"

definition piece_size :: "MetaInfoFile \<Rightarrow> nat \<Rightarrow> nat" where
  "piece_size m i = min (piece_length m) (total_size m - i * piece_length m)"

text \<open>
  What the download relies on and the parser does not check: the piece length is a positive
  32-bit number and the number of piece hashes is that of the pieces the content is cut into.
\<close>

definition torrent_ok :: "MetaInfoFile \<Rightarrow> bool" where
  "torrent_ok m \<longleftrightarrow>
     BytesToDownload m = Ok (int (total_size m)) \<and> NumPieces m = Ok (int (num_pieces m))
     \<and> 0 < PieceLength (mInfo m) \<and> PieceLength (mInfo m) < 2 ^ 32
     \<and> 0 < num_pieces m \<and> num_pieces m * 20 < 2 ^ 32
     \<and> (num_pieces m - 1) * piece_length m < total_size m
     \<and> total_size m \<le> num_pieces m * piece_length m"

lemma piece_size_bounds:
  assumes "torrent_ok m" and "i < num_pieces m"
  shows "0 < piece_size m i" and "piece_size m i < 2 ^ 32" and "i * piece_length m < total_size m"
proof -
  have "i * piece_length m \<le> (num_pieces m - 1) * piece_length m"
    using assms(2) by (intro mult_le_mono1) simp
  with assms(1) show "i * piece_length m < total_size m" unfolding torrent_ok_def by linarith
  with assms(1) show "0 < piece_size m i" "piece_size m i < 2 ^ 32"
    by (auto simp: torrent_ok_def piece_size_def min_def)
qed

lemma total_size_bound:
  assumes "torrent_ok m"
  shows "total_size m < 2 ^ 62"
proof -
  have "num_pieces m * piece_length m \<le> 2 ^ 28 * 2 ^ 32"
    using assms by (intro mult_le_mono) (auto simp: torrent_ok_def)
  with assms show ?thesis by (simp add: torrent_ok_def)
qed

lemma piece_span_ok:
  assumes "torrent_ok m" and "i < num_pieces m"
  shows "piece_span m (int i) = Ok (int (piece_size m i))"
proof -
  define pl where "pl = piece_length m"
  define k where "k = i * pl"
  have pl: "PieceLength (mInfo m) = int pl" using assms(1) by (simp add: torrent_ok_def pl_def)
  have b: "k < total_size m" "total_size m < 2 ^ 62" "pl < 2 ^ 32"
    using piece_size_bounds [OF assms] total_size_bound [OF assms(1)] assms(1)
    by (auto simp: k_def pl_def torrent_ok_def)
  have "int i * int pl = int k" by (simp add: k_def)
  moreover have "in_i64 (int k)" "in_i64 (int k + int pl)"
    "in_i64 (min (int k + int pl) (int (total_size m)) - int k)"
    using b by (auto simp: in_i64_def)
  moreover have "min (int k + int pl) (int (total_size m)) - int k = int (piece_size m i)"
    using b by (simp add: piece_size_def pl_def [symmetric] k_def [symmetric] min_def) linarith
  ultimately show ?thesis
    using assms(1) by (simp add: piece_span_def torrent_ok_def pl Let_def)
qed

lemma sum_piece_size: "k \<le> num_pieces m \<Longrightarrow> (\<Sum>i<k. piece_size m i) = min (k * piece_length m) (total_size m)"
proof (induction k)
  case (Suc k)
  then show ?case by (simp add: piece_size_def min_def) linarith
qed simp

lemma sum_pieces_total: "torrent_ok m \<Longrightarrow> (\<Sum>i<num_pieces m. piece_size m i) = total_size m"
  by (simp add: sum_piece_size torrent_ok_def min_def)

lemma sum_pieces_le: "torrent_ok m \<Longrightarrow> A \<subseteq> {..<num_pieces m} \<Longrightarrow> sum (piece_size m) A \<le> total_size m"
  using sum_mono2 [of "{..<num_pieces m}" A "piece_size m"] sum_pieces_total [of m] by auto

section \<open>Files on disk\<close>

definition fs_up :: "FsEnv \<Rightarrow> bool" where
  "fs_up env \<longleftrightarrow> mkdir_err env = None \<and> create_err env = None \<and> write_err env = None
     \<and> open_err env = None \<and> fclose_err env = None"

text \<open>What a flush changes: the directory is there afterwards and only the file of the piece may
  differ, also when it fails.\<close>

lemma Flush_frame:
  assumes "Flush env t idx d = (t', r)"
  shows "\<exists>fs. t' = t\<lparr>disk := fs\<rparr> \<and> set (dirs (disk t)) \<subseteq> set (dirs fs)
    \<and> (\<forall>f. f \<noteq> piece_file (DownloadDir t) idx \<longrightarrow> files fs f = files (disk t) f) \<and> \<not> is_panic r"
proof -
  have "t' = t\<lparr>disk := disk t'\<rparr>" "set (dirs (disk t)) \<subseteq> set (dirs (disk t'))"
    "\<forall>f. f \<noteq> piece_file (DownloadDir t) idx \<longrightarrow> files (disk t') f = files (disk t) f" "\<not> is_panic r"
    using assms
    by (auto simp: Flush_def ensure_dir_def write_file_def split: if_splits option.splits)
  then show ?thesis by blast
qed

lemma Flush_Ok:
  assumes "Flush env t idx d = (t', Ok u)"
  shows "DownloadDir t \<in> set (dirs (disk t')) \<and> files (disk t') (piece_file (DownloadDir t) idx) = Some d"
  using assms
  by (auto simp: Flush_def ensure_dir_def write_file_def split: if_splits option.splits)

lemma Flush_up: "fs_up env \<Longrightarrow> \<exists>t'. Flush env t idx d = (t', Ok ())"
  by (auto simp: Flush_def ensure_dir_def write_file_def fs_up_def)

lemma block_in_piece:
  fixes b n :: u32
  assumes "unat b + unat n \<le> l" and "l < 2 ^ 32"
  shows "unat (b + n) = unat b + unat n"
  using assms by (subst unat_add_lem [THEN iffD1]) simp_all

lemma ReadRequest_block:
  assumes "files (disk t) (piece_file (DownloadDir t) (req_index r)) = Some d"
    and "DownloadDir t \<in> set (dirs (disk t))" and "open_err env = None" and "length d < 2 ^ 32"
    and "unat (req_begin r) < length d" and "unat (req_begin r) + unat (req_length r) \<le> length d"
  shows "ReadRequest env t r = Ok (take (unat (req_length r)) (drop (unat (req_begin r)) d))"
proof -
  define b n where "b = unat (req_begin r)" and "n = unat (req_length r)"
  have bn: "unat (req_begin r + req_length r) = b + n"
    using block_in_piece [OF assms(6,4)] by (simp add: b_def n_def)
  have h: "b < length d" "b + n \<le> length d" using assms by (auto simp: b_def n_def)
  then have "reslice (of_bytes d) (int b) (int (b + n)) = Ok (take n (drop b d))"
    by (simp add: reslice_def of_bytes_def nat_add_distrib)
  with h assms(1-3) bn show ?thesis
    unfolding ReadRequest_def b_def [symmetric] n_def [symmetric]
    by (simp add: bn b_def [symmetric] n_def [symmetric] del: of_nat_add of_nat_unat)
qed

lemma ReadRequest_other:
  assumes "Flush env t idx d = (t', r)" and "req_index q \<noteq> idx" and "DownloadDir t \<in> set (dirs (disk t))"
  shows "ReadRequest env' t' q = ReadRequest env' t q"
proof -
  from Flush_frame [OF assms(1)] obtain fs where "t' = t\<lparr>disk := fs\<rparr>" "set (dirs (disk t)) \<subseteq> set (dirs fs)"
    "files fs (piece_file (DownloadDir t) (req_index q)) = files (disk t) (piece_file (DownloadDir t) (req_index q))"
    using assms(2) by auto
  with assms(3) show ?thesis by (auto simp: ReadRequest_def cong: option.case_cong)
qed

section \<open>Resuming\<close>

lemma add_existing_sum:
  assumes "torrent_ok m" and "distinct is" and "\<forall>i \<in> set is. unat i < num_pieces m" and "0 \<le> d"
    and "d + int (\<Sum>i \<in> unat ` set is. piece_size m i) < 2 ^ 63"
  shows "add_existing m is d = Ok (d + int (\<Sum>i \<in> unat ` set is. piece_size m i))"
  using assms(2-)
proof (induction "is" arbitrary: d)
  case (Cons i "is")
  have i: "piece_span m (int (unat i)) = Ok (int (piece_size m (unat i)))"
    using piece_span_ok [OF assms(1)] Cons.prems(2) by (simp del: of_nat_unat)
  have sum: "(\<Sum>j \<in> unat ` set (i # is). piece_size m j)
      = piece_size m (unat i) + (\<Sum>j \<in> unat ` set is. piece_size m j)"
    using Cons.prems(1) by (simp add: image_iff word_unat_eq_iff [symmetric])
  with Cons.prems have "in_i64 (d + int (piece_size m (unat i)))" by (simp add: in_i64_def del: of_nat_sum)
  with Cons.IH [of "d + int (piece_size m (unat i))"] Cons.prems sum i show ?case
    by (simp del: of_nat_unat of_nat_sum)
qed simp

lemma ReadFull_all: "ReadFull (length b) \<lparr>rdata = b, rerr = e\<rparr> = (Ok b, \<lparr>rdata = [], rerr = e\<rparr>)"
  by (simp add: ReadFull_def)

lemma NewTracker_resumes:
  assumes "torrent_ok m" and "bf_wf b" and "bf_count b = num_pieces m" and "open_err env = None"
    and "files fs (bitfield_file (saved_dir downloadDir m)) = Some (bits b)"
  shows "NewTracker env cid m downloadDir fs =
    Ok ((fresh_tracker cid m b (saved_dir downloadDir m) fs)
      \<lparr>tDownloaded := int (\<Sum>i \<in> have_set b. piece_size m i)\<rparr>)"
proof -
  have n: "NumPieces m = Ok (int (num_pieces m))" using assms(1) by (simp add: torrent_ok_def)
  obtain b0 where b0: "NewBitfield (int (num_pieces m)) = Ok b0"
    using NewBitfield_total [of "int (num_pieces m)"] by auto
  have num: "numPieces b = int (num_pieces m)" using assms(2,3) by (auto simp: bf_wf_def bf_count_def)
  with b0 assms(2) have len: "Len b0 = length (bits b)" "b0\<lparr>bits := bits b\<rparr> = b"
    by (auto simp: NewBitfield_def Let_def Len_def bf_wf_def split: if_splits)
  obtain es where es: "ExistingPieces b = Ok es" "distinct es" "unat ` set es = have_set b"
    using existing_pieces [OF assms(2)] by blast
  then have lt: "\<forall>i \<in> set es. unat i < num_pieces m" using assms(3) by (auto simp: have_set_def)
  have "have_set b \<subseteq> {..<num_pieces m}" using assms(3) by (auto simp: have_set_def)
  with sum_pieces_le [OF assms(1)] total_size_bound [OF assms(1)]
  have "(\<Sum>i \<in> have_set b. piece_size m i) < 2 ^ 62" by (meson le_less_trans)
  then have "add_existing m es 0 = Ok (int (\<Sum>i \<in> have_set b. piece_size m i))"
    using add_existing_sum [OF assms(1) es(2) lt, of 0] es(3) by (simp del: of_nat_sum)
  moreover have "read_bitfield env (saved_dir downloadDir m) (Len b0) fs = Ok (Some (bits b))"
    using assms(4,5) len(1) by (simp add: read_bitfield_def ReadFull_all)
  moreover have "Overwrite b0 (bits b) = Ok b" using len by (simp add: Overwrite_def Len_def)
  ultimately show ?thesis
    using es(1) by (simp add: NewTracker_def n b0 Let_def fresh_tracker_def del: of_nat_sum)
qed

lemma save_bitfield_up:
  assumes "fs_up env" and "DownloadDir t \<in> set (dirs (disk t))"
  shows "save_bitfield env t = t\<lparr>disk := (disk t)\<lparr>files := (files (disk t))
      (bitfield_file (DownloadDir t) \<mapsto> bits (BitField t))\<rparr>\<rparr>"
  using assms by (simp add: save_bitfield_def write_file_def fs_up_def Clone_def)

lemma fresh_tracker_fields [simp]:
  "clientID (fresh_tracker cid m b dir fs) = cid" "Torrent (fresh_tracker cid m b dir fs) = m"
  "BitField (fresh_tracker cid m b dir fs) = b" "DownloadDir (fresh_tracker cid m b dir fs) = dir"
  "disk (fresh_tracker cid m b dir fs) = fs" "heap (fresh_tracker cid m b dir fs) = []"
  "peers (fresh_tracker cid m b dir fs) = []" "seeders (fresh_tracker cid m b dir fs) = []"
  "leechers (fresh_tracker cid m b dir fs) = []" "dslots (fresh_tracker cid m b dir fs) = replicate 4 None"
  "uslots (fresh_tracker cid m b dir fs) = replicate 75 None" "stop (fresh_tracker cid m b dir fs) = OpenChan"
  "dcancel (fresh_tracker cid m b dir fs) = OpenChan" "completed (fresh_tracker cid m b dir fs) = OpenChan"
  "ucancel (fresh_tracker cid m b dir fs) = NilChan" "tDownloaded (fresh_tracker cid m b dir fs) = 0"
  "tUploaded (fresh_tracker cid m b dir fs) = 0"
  by (simp_all add: fresh_tracker_def)

text \<open>A small torrent whose directory is there.\<close>

definition up_fs :: FsEnv where
  "up_fs = \<lparr>mkdir_err = None, create_err = None, write_err = None, open_err = None, fclose_err = None\<rparr>"

definition sample_tracker :: StatusTracker where
  "sample_tracker =
     fresh_tracker (str ''me'') sample_metainfo \<lparr>bits = [0], numPieces = 1\<rparr>
       (saved_dir (str ''dl'') sample_metainfo)
       \<lparr>dirs = [saved_dir (str ''dl'') sample_metainfo], files = (\<lambda>_. None)\<rparr>"

lemma fs_up_up_fs [simp]: "fs_up up_fs"
  by (simp add: fs_up_def up_fs_def)

lemma sample_sizes:
  "NumPieces sample_metainfo = Ok 1" "BytesToDownload sample_metainfo = Ok 5"
  "num_pieces sample_metainfo = 1" "total_size sample_metainfo = 5"
  by (simp_all add: num_pieces_def total_size_def NumPieces_def BytesToDownload_def sample_metainfo_def must_def
      DecodeString_EncodeToString)

lemma sample_torrent_ok [simp]: "torrent_ok sample_metainfo"
  unfolding torrent_ok_def by (simp add: sample_sizes) (simp add: sample_metainfo_def)

section \<open>Properties\<close>

text \<open>
  C13. A flushed piece is what \<^verbatim>\<open>ReadRequest\<close> serves: every block that lies inside the piece is read
  back as the bytes at its offset, and the blocks of every other piece are served as before.
\<close>

theorem flush_read_roundtrip:
  assumes "Flush env t idx d = (t', Ok ())" and "length d < 2 ^ 32" and "open_err env' = None"
  shows "(req_index q = idx \<and> unat (req_begin q) < length d \<and> unat (req_begin q) + unat (req_length q) \<le> length d
      \<longrightarrow> ReadRequest env' t' q = Ok (take (unat (req_length q)) (drop (unat (req_begin q)) d)))
    \<and> (req_index q \<noteq> idx \<and> DownloadDir t \<in> set (dirs (disk t)) \<longrightarrow> ReadRequest env' t' q = ReadRequest env' t q)"
proof -
  have "DownloadDir t' = DownloadDir t" using Flush_frame [OF assms(1)] by auto
  with Flush_Ok [OF assms(1)] ReadRequest_block [of t' q d env'] assms ReadRequest_other [OF assms(1), of q env']
  show ?thesis by auto
qed

theorem flush_read_roundtrip_witness:
  "\<exists>t'. Flush up_fs sample_tracker 0 [1, 2, 3, 4, 5] = (t', Ok ())
    \<and> ReadRequest up_fs t' \<lparr>req_index = 0, req_begin = 2, req_length = 3\<rparr> = Ok [3, 4, 5]"
proof -
  obtain t' where f: "Flush up_fs sample_tracker 0 [1, 2, 3, 4, 5] = (t', Ok ())"
    using Flush_up [OF fs_up_up_fs] by blast
  from flush_read_roundtrip [OF f, of up_fs "\<lparr>req_index = 0, req_begin = 2, req_length = 3\<rparr>"] f
  show ?thesis by (simp add: up_fs_def)
qed

end
