(* ===== verification/Swarm.thy ===== *)
theory Swarm
  imports Status
begin

text \<open>
  The peers of a torrent, shared by \<^verbatim>\<open>download.go\<close> and \<^verbatim>\<open>upload.go\<close>: calls through a peer pointer,
  and ranging over the maps of seeders and leechers.

  \<^item> The order in which \<^verbatim>\<open>sync.Map.Range\<close> visits a map is a parameter.
  \<^item> The answer of the network to a \<^verbatim>\<open>Send\<close> depends on the peer and the message.
  \<^item> \<open>swarm_ok\<close> is the invariant: every peer object has a connection, a bit field of the
    torrent's size and one of the two statuses, and the maps hold valid pointers.
\<close>

type_synonym Net = "nat \<Rightarrow> WireMsg \<Rightarrow> NetEnv"
type_synonym peer_order = "nat dict \<Rightarrow> nat dict"

section \<open>Calls through a pointer\<close>

definition call_peer ::
  "(Peer option \<Rightarrow> Peer option \<times> unit outcome) \<Rightarrow> nat option \<Rightarrow> StatusTracker
     \<Rightarrow> (StatusTracker \<times> error option) outcome" where
  "call_peer f ptr t =
     (case ptr of
        None \<Rightarrow> (case snd (f None) of Ok _ \<Rightarrow> Ok (t, None) | Err e \<Rightarrow> Ok (t, Some e) | Panic s \<Rightarrow> Panic s)
      | Some a \<Rightarrow>
          if length (peers t) \<le> a then nil_deref
          else (case f (Some (peers t ! a)) of (p, r) \<Rightarrow>
            let t' = (case p of None \<Rightarrow> t | Some p \<Rightarrow> t\<lparr>peers := (peers t)[a := p]\<rparr>) in
            (case r of Ok _ \<Rightarrow> Ok (t', None) | Err e \<Rightarrow> Ok (t', Some e) | Panic s \<Rightarrow> Panic s)))"

text \<open>A range over a map that sends something to the peers with a property; errors are logged.\<close>

fun broadcast ::
  "(Peer \<Rightarrow> bool outcome) \<Rightarrow> (nat \<Rightarrow> Peer option \<Rightarrow> Peer option \<times> unit outcome) \<Rightarrow> nat list
     \<Rightarrow> StatusTracker \<Rightarrow> StatusTracker outcome" where
  "broadcast can f [] t = Ok t"
| "broadcast can f (a # as) t =
     obind (can (peers t ! a)) (\<lambda>ok.
     if ok then obind (call_peer (f a) (Some a) t) (\<lambda>(t', err). broadcast can f as t')
     else broadcast can f as t)"

definition is_established :: "Peer \<Rightarrow> bool outcome" where
  "is_established p = obind (ConnectionStatus_of (Some p)) (\<lambda>s. Ok (s = ConnectionEstablished))"

definition can_request :: "Peer \<Rightarrow> bool outcome" where
  "can_request p = obind (is_established p) (\<lambda>e. Ok (e \<and> StatusRemote p = UnChoked))"

section \<open>The invariant\<close>

definition peer_inv :: "nat \<Rightarrow> Peer \<Rightarrow> bool" where
  "peer_inv n p \<longleftrightarrow> conn p \<noteq> None \<and> (connectionStatus p = 0 \<or> connectionStatus p = 1)
     \<and> bf_wf (PeerBitfield p) \<and> bf_count (PeerBitfield p) = n"

definition swarm_ok :: "StatusTracker \<Rightarrow> bool" where
  "swarm_ok t \<longleftrightarrow> (\<forall>p \<in> set (peers t). peer_inv (num_pieces (Torrent t)) p)
     \<and> (\<forall>a \<in> snd ` set (seeders t) \<union> snd ` set (leechers t). a < length (peers t))"

definition net_ok :: "Net \<Rightarrow> bool" where
  "net_ok net \<longleftrightarrow> (\<forall>a m. writer_ok (net a m))"

definition order_ok :: "peer_order \<Rightarrow> bool" where
  "order_ok ord \<longleftrightarrow> (\<forall>d. set (ord d) = set d)"

text \<open>What calls on peers leave alone.\<close>

definition only_peers :: "StatusTracker \<Rightarrow> StatusTracker \<Rightarrow> bool" where
  "only_peers t t' \<longleftrightarrow> swarm_ok t' \<and> (\<exists>ps. t' = t\<lparr>peers := ps\<rparr> \<and> length ps = length (peers t))"

lemma only_peers_refl: "swarm_ok t \<Longrightarrow> only_peers t t"
  unfolding only_peers_def by (auto intro: exI [of _ "peers t"])

lemma only_peers_trans: "only_peers t t1 \<Longrightarrow> only_peers t1 t2 \<Longrightarrow> only_peers t t2"
  by (auto simp: only_peers_def)

lemma only_peers_swarm: "only_peers t t' \<Longrightarrow> swarm_ok t'"
  by (simp add: only_peers_def)

lemma only_peers_length: "only_peers t t' \<Longrightarrow> length (peers t') = length (peers t)"
  by (auto simp: only_peers_def)

lemma only_peers_eq: "only_peers t t' \<Longrightarrow> t' = t\<lparr>peers := peers t'\<rparr>"
  by (auto simp: only_peers_def)

lemma only_peers_frame:
  assumes "only_peers t t'"
  shows "heap t' = heap t" "dslots t' = dslots t" "BitField t' = BitField t" "Torrent t' = Torrent t"
    "disk t' = disk t" "DownloadDir t' = DownloadDir t" "tDownloaded t' = tDownloaded t"
    "seeders t' = seeders t" "leechers t' = leechers t" "completed t' = completed t" "uslots t' = uslots t"
    "tUploaded t' = tUploaded t" "stop t' = stop t" "dcancel t' = dcancel t"
  using assms by (auto simp: only_peers_def)

lemma swarm_ok_peer: "swarm_ok t \<Longrightarrow> a < length (peers t) \<Longrightarrow> peer_inv (num_pieces (Torrent t)) (peers t ! a)"
  by (simp add: swarm_ok_def)

lemma swarm_ok_put:
  "swarm_ok t \<Longrightarrow> peer_inv (num_pieces (Torrent t)) p \<Longrightarrow> swarm_ok (t\<lparr>peers := (peers t)[a := p]\<rparr>)"
  using set_update_subset_insert [of "peers t" a p] by (auto simp: swarm_ok_def)

lemma sent_effect_inv [simp]: "peer_inv n (sent_effect m p) \<longleftrightarrow> peer_inv n p"
  by (cases m) (auto simp: peer_inv_def)

lemma send_inv:
  assumes "peer_inv n p" and "writer_ok env"
  shows "\<exists>q r. send env m (Some p) = (Some q, r) \<and> \<not> is_panic r \<and> peer_inv n q"
proof -
  obtain c where "conn p = Some c" using assms(1) by (auto simp: peer_inv_def)
  from send_total [OF this assms(2), of m] obtain q r c' where
    s: "send env m (Some p) = (Some q, r)" "\<not> is_panic r"
      "q = p\<lparr>conn := Some c'\<rparr> \<or> q = sent_effect m (p\<lparr>conn := Some c'\<rparr>)" by blast
  moreover have "peer_inv n (p\<lparr>conn := Some c'\<rparr>)" using assms(1) by (simp add: peer_inv_def)
  ultimately show ?thesis by (metis sent_effect_inv)
qed

lemma call_send:
  assumes "swarm_ok t" and "a < length (peers t)" and "writer_ok env"
  shows "\<exists>t' err. call_peer (send env m) (Some a) t = Ok (t', err) \<and> only_peers t t'"
proof -
  from send_inv [OF swarm_ok_peer [OF assms(1,2)] assms(3), of m] obtain q r where
    s: "send env m (Some (peers t ! a)) = (Some q, r)" "\<not> is_panic r" "peer_inv (num_pieces (Torrent t)) q"
    by blast
  have "only_peers t (t\<lparr>peers := (peers t)[a := q]\<rparr>)"
    using swarm_ok_put [OF assms(1) s(3)] by (auto simp: only_peers_def)
  with s assms(2) show ?thesis by (cases r) (auto simp: call_peer_def)
qed

lemma start_listener_inv:
  assumes "start_listener env p = Ok q" and "peer_wf p" and "bf_count (PeerBitfield p) = n"
  shows "peer_inv n q"
proof -
  obtain c where "conn p = Some c" using assms(2) by (auto simp: peer_wf_def)
  from start_listener_keeps [OF this assms(2), of env] assms(1,3) show ?thesis
    by (auto simp: peer_inv_def bf_count_def)
qed

lemma is_established_Ok:
  "peer_inv n p \<Longrightarrow> is_established p = Ok (connectionStatus p = 0)"
  by (auto simp: peer_inv_def is_established_def ConnectionStatus_of_def)

lemma can_request_Ok:
  "peer_inv n p \<Longrightarrow> can_request p = Ok (connectionStatus p = 0 \<and> StatusRemote p = UnChoked)"
  by (simp add: can_request_def is_established_Ok)

lemma broadcast_ok:
  assumes "swarm_ok t" and "\<forall>a \<in> set as. a < length (peers t)" and "\<And>a. f a = send (net a m) m" and "net_ok net"
    and "\<And>p n. peer_inv n p \<Longrightarrow> \<exists>x. can p = Ok x"
  shows "\<exists>t'. broadcast can f as t = Ok t' \<and> only_peers t t'"
  using assms(1,2)
proof (induction as arbitrary: t)
  case Nil
  then show ?case by (simp add: only_peers_refl)
next
  case (Cons a as)
  then obtain x where x: "can (peers t ! a) = Ok x" using assms(5) swarm_ok_peer by (metis list.set_intros(1))
  show ?case
  proof (cases x)
    case True
    from call_send [OF Cons.prems(1), of a "net a m" m] Cons.prems(2) assms(4) obtain t1 err where
      t1: "call_peer (f a) (Some a) t = Ok (t1, err)" "only_peers t t1" by (auto simp: assms(3) net_ok_def)
    with Cons.IH [of t1] Cons.prems(2) obtain t2 where "broadcast can f as t1 = Ok t2" "only_peers t1 t2"
      using only_peers_swarm [OF t1(2)] only_peers_length [OF t1(2)] by auto
    with t1 x True show ?thesis by (auto intro: only_peers_trans)
  next
    case False
    with Cons x show ?thesis by simp
  qed
qed

lemma addresses_valid:
  assumes "swarm_ok t" and "order_ok ord"
  shows "\<forall>a \<in> set (map snd (ord (seeders t))). a < length (peers t)"
    and "\<forall>a \<in> set (map snd (ord (leechers t))). a < length (peers t)"
  using assms by (auto simp: swarm_ok_def order_ok_def)

end
