(* ===== verification/Download.thy ===== *)
theory Download
  imports Swarm Tracker Sha1 "HOL-Library.Multiset"
begin

text \<open>
  Package \<^verbatim>\<open>internal/status\<close>, file \<^verbatim>\<open>download.go\<close>: scheduling, receiving and verifying pieces.

  \<^item> \<open>slot_pass\<close> is what the scheduler does with one download slot while it holds the piece's
    lock: \<open>reschedule\<close> puts requests that have been in flight for more than 8 seconds back,
    \<open>schedule\<close> sends the pending ones to random eligible seeders.
  \<^item> \<open>next_piece\<close> is the rest of a round of \<^verbatim>\<open>downloadScheduler\<close>: it finishes the download, or
    cuts a piece into blocks (\<open>block_loop\<close>) and puts it into a free slot.
  \<^item> \<open>recv_locked\<close> is what \<^verbatim>\<open>recvPieces\<close> does with a block while it holds the lock of the
    piece, and \<open>finish_piece\<close> the part of it for the last block: check the hash, write the
    piece, announce it.
  \<^item> \<open>seeder_refresh\<close> and \<open>seeder_exit\<close> are the two ways out of the select of
    \<^verbatim>\<open>keepAliveSeeders\<close>.
  \<^item> What the environment decides (clock, random choice, order of a range, network, disk) is in
    \<open>Env\<close>.
\<close>

record Env =
  e_net :: Net
  e_seeders :: peer_order
  e_leechers :: peer_order
  e_unverified :: "u32 list \<Rightarrow> u32 list"
  e_rand :: "Request \<Rightarrow> nat"
  e_now :: nat
  e_fs :: FsEnv
  e_spare :: "bytes \<Rightarrow> bytes"

section \<open>Seeders from the tracker's answer\<close>

definition JoinHostPort :: "bytes \<Rightarrow> bytes \<Rightarrow> bytes" where
  "JoinHostPort host port =
     (if 58 \<in> set host then 91 # host @ [93, 58] @ port else host @ 58 # port)"

text \<open>The result is the list of addresses a \<^verbatim>\<open>keepAliveSeeders\<close> goroutine is started for.\<close>

definition new_seeders :: "StatusTracker \<Rightarrow> PeerInfo list \<Rightarrow> bytes list" where
  "new_seeders t ps =
     filter (\<lambda>addr. dict_get (seeders t) addr = None)
       (map (\<lambda>r. JoinHostPort (piIP r) (FormatInt (piPort r))) ps)"

definition UpdateSeeders :: "StatusTracker \<Rightarrow> Response option \<Rightarrow> bytes list outcome" where
  "UpdateSeeders t resp =
     obind (BytesToDownload (Torrent t)) (\<lambda>total.
     if tDownloaded t = total then Ok []
     else (case resp of None \<Rightarrow> nil_deref | Some r \<Rightarrow> Ok (new_seeders t (Peers r))))"

section \<open>One slot of the scheduler\<close>

abbreviation seeder_range :: "Env \<Rightarrow> StatusTracker \<Rightarrow> nat list" where
  "seeder_range env t \<equiv> map snd (e_seeders env (seeders t))"

abbreviation leecher_range :: "Env \<Rightarrow> StatusTracker \<Rightarrow> nat list" where
  "leecher_range env t \<equiv> map snd (e_leechers env (leechers t))"

definition cancel_of :: "Request \<Rightarrow> Cancel" where
  "cancel_of r = \<lparr>cnc_index = req_index r, cnc_begin = req_begin r, cnc_length = req_length r\<rparr>"

definition cancel_all :: "Env \<Rightarrow> Request \<Rightarrow> StatusTracker \<Rightarrow> StatusTracker outcome" where
  "cancel_all env r t =
     broadcast can_request
       (\<lambda>a. SendCancel (e_net env a (CancelMsg (cancel_of r))) (cancel_of r)) (seeder_range env t) t"

definition expired :: "Env \<Rightarrow> timedDownloadRequest \<Rightarrow> bool" where
  "expired env r \<longleftrightarrow> \<not> treceived r \<and> 8 * 10 ^ 9 < int (e_now env) - int (tsend r)"

fun reschedule ::
  "Env \<Rightarrow> timedDownloadRequest list \<Rightarrow> StatusTracker \<Rightarrow> Request list \<Rightarrow> timedDownloadRequest list
     \<Rightarrow> (StatusTracker \<times> Request list \<times> timedDownloadRequest list) outcome" where
  "reschedule env [] t pend kept = Ok (t, pend, kept)"
| "reschedule env (r # rs) t pend kept =
     (if expired env r
      then obind (cancel_all env (treq r) t) (\<lambda>t'. reschedule env rs t' (pend @ [treq r]) kept)
      else reschedule env rs t pend (kept @ [r]))"

fun eligible :: "u32 \<Rightarrow> nat list \<Rightarrow> StatusTracker \<Rightarrow> nat list outcome" where
  "eligible idx [] t = Ok []"
| "eligible idx (a # as) t =
     obind (can_request (peers t ! a)) (\<lambda>can.
     obind (if can then Check (PeerBitfield (peers t ! a)) idx else Ok False) (\<lambda>ok.
     obind (eligible idx as t) (\<lambda>ps. Ok (if ok then a # ps else ps))))"

fun schedule ::
  "Env \<Rightarrow> Request list \<Rightarrow> StatusTracker \<Rightarrow> Request list \<Rightarrow> timedDownloadRequest list
     \<Rightarrow> (StatusTracker \<times> Request list \<times> timedDownloadRequest list) outcome" where
  "schedule env [] t left infl = Ok (t, left, infl)"
| "schedule env (r # rs) t left infl =
     obind (eligible (req_index r) (seeder_range env t) t) (\<lambda>ps.
     if ps = [] then schedule env rs t (left @ [r]) infl
     else
       let a = ps ! (e_rand env r mod length ps) in
       obind (call_peer (SendRequest (e_net env a (RequestMsg r)) r) (Some a) t) (\<lambda>(t', err).
       if err \<noteq> None then schedule env rs t' (left @ [r]) infl
       else schedule env rs t' left (infl @ [\<lparr>treq = r, tsend = e_now env, treceived = False\<rparr>])))"

definition slot_pass :: "Env \<Rightarrow> nat \<Rightarrow> StatusTracker \<Rightarrow> StatusTracker outcome" where
  "slot_pass env a t =
     (let p = heap t ! a in
      obind (reschedule env (InFlight p) t (Pending p) []) (\<lambda>(t1, pend, infl).
      obind (schedule env pend t1 [] infl) (\<lambda>(t2, left, infl').
      Ok (t2\<lparr>heap := (heap t2)[a := p\<lparr>Pending := left, InFlight := infl'\<rparr>]\<rparr>))))"

fun slots_pass :: "Env \<Rightarrow> nat option list \<Rightarrow> StatusTracker \<Rightarrow> nat \<Rightarrow> (StatusTracker \<times> nat) outcome" where
  "slots_pass env [] t freeSlots = Ok (t, freeSlots)"
| "slots_pass env (None # ss) t freeSlots = slots_pass env ss t (Suc freeSlots)"
| "slots_pass env (Some a # ss) t freeSlots = obind (slot_pass env a t) (\<lambda>t'. slots_pass env ss t' freeSlots)"

section \<open>The next piece\<close>

record Scheduler =
  unverified :: "u32 list"
  currentRate :: int64
  running :: bool

fun first_free :: "nat \<Rightarrow> 'a option list \<Rightarrow> nat option" where
  "first_free i [] = None"
| "first_free i (None # xs) = Some i"
| "first_free i (Some x # xs) = first_free (Suc i) xs"

fun some_has :: "u32 \<Rightarrow> nat list \<Rightarrow> StatusTracker \<Rightarrow> bool outcome" where
  "some_has idx [] t = Ok False"
| "some_has idx (a # as) t =
     obind (Check (PeerBitfield (peers t ! a)) idx) (\<lambda>x. if x then Ok True else some_has idx as t)"

fun pick_index :: "Env \<Rightarrow> u32 list \<Rightarrow> StatusTracker \<Rightarrow> u32 option \<Rightarrow> u32 option outcome" where
  "pick_index env [] t index = Ok index"
| "pick_index env (u # us) t index =
     obind (some_has u (seeder_range env t) t) (\<lambda>x. pick_index env us t (if x then Some u else index))"

text \<open>
  The loop that cuts a piece into blocks. Its sums stay below the size plus 16384, so they would wrap
  only for a piece of almost \<open>2 ^ 63\<close> bytes; \<^verbatim>\<open>uint32(p)\<close> truncates.
\<close>

function block_loop :: "u32 \<Rightarrow> int64 \<Rightarrow> int64 \<Rightarrow> Request list \<Rightarrow> Request list" where
  "block_loop idx pieceSize p pend =
     (if p < pieceSize then
        let nextBlockSize = (if pieceSize < p + RequestSize then pieceSize - p else RequestSize)
        in block_loop idx pieceSize (p + nextBlockSize)
             (pend @ [\<lparr>req_index = idx, req_begin = of_int p, req_length = of_int nextBlockSize\<rparr>])
      else pend)"
  by auto
termination
  by (relation "measure (\<lambda>(idx, pieceSize, p, pend). nat (pieceSize - p))")
    (auto simp: RequestSize_def)

declare block_loop.simps [simp del]

definition new_piece :: "u32 \<Rightarrow> int64 \<Rightarrow> pendingPiece" where
  "new_piece idx pieceSize =
     \<lparr>pIndex = idx, pDownloaded = 0, pSize = pieceSize, Received = [],
      Pending = block_loop idx pieceSize 0 [], InFlight = []\<rparr>"

definition start_piece :: "nat \<Rightarrow> u32 \<Rightarrow> StatusTracker \<times> Scheduler \<Rightarrow> (StatusTracker \<times> Scheduler) outcome" where
  "start_piece slot index = (\<lambda>(t, s).
     obind (piece_span (Torrent t) (int (unat index))) (\<lambda>pieceSize.
     if dslots t ! slot \<noteq> None then Ok (t, s)
     else Ok (t\<lparr>heap := heap t @ [new_piece index pieceSize],
                dslots := (dslots t)[slot := Some (length (heap t))]\<rparr>,
              s\<lparr>unverified := removeAll index (unverified s)\<rparr>)))"

definition next_piece :: "Env \<Rightarrow> nat \<Rightarrow> StatusTracker \<times> Scheduler \<Rightarrow> (StatusTracker \<times> Scheduler) outcome" where
  "next_piece env freeSlots = (\<lambda>(t, s).
     if unverified s = [] then
       (if freeSlots = length (dslots t)
        then obind (close_chan (completed t)) (\<lambda>c. Ok (t\<lparr>completed := c\<rparr>, s\<lparr>running := False\<rparr>))
        else Ok (t, s))
     else (case first_free 0 (dslots t) of
       None \<Rightarrow> Ok (t, s)
     | Some slot \<Rightarrow>
         obind (pick_index env (e_unverified env (unverified s)) t None) (\<lambda>index.
         case index of None \<Rightarrow> Ok (t, s) | Some i \<Rightarrow> start_piece slot i (t, s))))"

definition scheduler_round :: "Env \<Rightarrow> StatusTracker \<times> Scheduler \<Rightarrow> (StatusTracker \<times> Scheduler) outcome" where
  "scheduler_round env = (\<lambda>(t, s).
     obind (slots_pass env (dslots t) t 0) (\<lambda>(t', freeSlots). next_piece env freeSlots (t', s)))"

definition rate_tick :: "StatusTracker \<times> Scheduler \<Rightarrow> StatusTracker \<times> Scheduler" where
  "rate_tick = (\<lambda>(t, s).
     (t\<lparr>drate := max 0 (i64 (tDownloaded t - currentRate s))\<rparr>, s\<lparr>currentRate := tDownloaded t\<rparr>))"

text \<open>
  One turn of the select. A case can be taken only when its channel is ready: \<^verbatim>\<open>stop\<close> or \<^verbatim>\<open>cancel\<close> is
  closed, or the ticker has fired; the default case is taken only when none of these is ready. The
  result is \<open>None\<close> for a case that is not ready.
\<close>

datatype SchedEvent = SchedStop | SchedCancel | SchedTick | SchedRound Env

fun scheduler_select :: "SchedEvent \<Rightarrow> StatusTracker \<times> Scheduler \<Rightarrow> (StatusTracker \<times> Scheduler) outcome option" where
  "scheduler_select SchedStop (t, s) =
     (if stop t = ClosedChan then Some (Ok (t, s\<lparr>running := False\<rparr>)) else None)"
| "scheduler_select SchedCancel (t, s) =
     (if dcancel t = ClosedChan then Some (Ok (t, s\<lparr>running := False\<rparr>)) else None)"
| "scheduler_select SchedTick ts = Some (Ok (rate_tick ts))"
| "scheduler_select (SchedRound env) (t, s) =
     (if stop t \<noteq> ClosedChan \<and> dcancel t \<noteq> ClosedChan then Some (scheduler_round env (t, s)) else None)"

definition scheduler_init :: "StatusTracker \<Rightarrow> Scheduler outcome" where
  "scheduler_init t =
     obind (MissingPieces (BitField t)) (\<lambda>ms.
     Ok \<lparr>unverified = ms, currentRate = 0, running = True\<rparr>)"

section \<open>Receiving a block\<close>

fun IndexFunc :: "('a \<Rightarrow> bool) \<Rightarrow> 'a list \<Rightarrow> nat option" where
  "IndexFunc f [] = None"
| "IndexFunc f (x # xs) = (if f x then Some 0 else map_option Suc (IndexFunc f xs))"

fun find_slot :: "u32 \<Rightarrow> nat \<Rightarrow> nat option list \<Rightarrow> StatusTracker \<Rightarrow> (nat \<times> nat) option" where
  "find_slot idx i [] t = None"
| "find_slot idx i (None # ss) t = find_slot idx (Suc i) ss t"
| "find_slot idx i (Some a # ss) t =
     (if pIndex (heap t ! a) = idx then Some (i, a) else find_slot idx (Suc i) ss t)"

definition request_of :: "Piece \<Rightarrow> Request" where
  "request_of recv =
     \<lparr>req_index = pc_index recv, req_begin = pc_begin recv, req_length = of_nat (length (pc_block recv))\<rparr>"

definition duplicate :: "Piece \<Rightarrow> Piece \<Rightarrow> bool" where
  "duplicate other recv \<longleftrightarrow> pc_begin other = pc_begin recv \<and> pc_index other = pc_index recv
     \<and> length (pc_block other) = length (pc_block recv)"

definition retry_piece :: "nat \<Rightarrow> pendingPiece \<Rightarrow> StatusTracker \<Rightarrow> StatusTracker outcome" where
  "retry_piece a p t =
     (let t1 = t\<lparr>tDownloaded := i64 (tDownloaded t - pSize p)\<rparr> in
      (case Retry p of
         Ok p' \<Rightarrow> Ok (t1\<lparr>heap := (heap t1)[a := p']\<rparr>)
       | _ \<Rightarrow> Panic ''malformed state, expected no pending requests when rescheduling piece for retry download''))"

definition announce_have :: "Env \<Rightarrow> u32 \<Rightarrow> StatusTracker \<Rightarrow> StatusTracker outcome" where
  "announce_have env idx t =
     (let h = \<lparr>have_index = idx\<rparr>; f = (\<lambda>a. SendHave (e_net env a (HaveMsg h)) h) in
      obind (broadcast is_established f (seeder_range env t) t) (\<lambda>t1.
      broadcast is_established f (leecher_range env t1) t1))"

definition assemble :: "Piece list \<Rightarrow> bytes" where
  "assemble ps = concat (map pc_block ps)"

definition finish_piece ::
  "Env \<Rightarrow> nat \<Rightarrow> nat \<Rightarrow> u32 \<Rightarrow> pendingPiece \<Rightarrow> StatusTracker \<Rightarrow> StatusTracker outcome" where
  "finish_piece env pieceIdx a idx p0 t =
     (let p = p0\<lparr>Received := sort_key pc_begin (Received p0)\<rparr>; data = assemble (Received p) in
      obind (PieceHash (e_spare env) (Torrent t) idx) (\<lambda>h.
      if sha1 data \<noteq> h then retry_piece a p t
      else (case Flush (e_fs env) t idx data of
        (t1, Err e) \<Rightarrow> retry_piece a p t1
      | (t1, Panic s) \<Rightarrow> Panic s
      | (t1, Ok _) \<Rightarrow>
          obind (Set_piece (BitField t1) idx) (\<lambda>b.
          obind (announce_have env idx (t1\<lparr>BitField := b\<rparr>)) (\<lambda>t2.
          let t3 = t2\<lparr>heap := (heap t2)[a := p]\<rparr> in
          Ok (if dslots t3 ! pieceIdx = Some a
              then t3\<lparr>dslots := (dslots t3)[pieceIdx := None]\<rparr> else t3))))))"

definition recv_locked :: "Env \<Rightarrow> nat \<Rightarrow> nat \<Rightarrow> Piece \<Rightarrow> StatusTracker \<Rightarrow> StatusTracker outcome" where
  "recv_locked env pieceIdx a recv t =
     (let p = heap t ! a; n = int (length (pc_block recv)) in
      (case IndexFunc (\<lambda>r. treq r = request_of recv) (InFlight p) of
         None \<Rightarrow> Ok t
       | Some req \<Rightarrow>
           if list_ex (\<lambda>other. duplicate other recv) (Received p) then Ok t
           else
             let p1 = p\<lparr>pDownloaded := i64 (pDownloaded p + n)\<rparr> in
             if pSize p1 < pDownloaded p1 then Panic ''recieved more data than expected for piece %v''
             else
               let t1 = t\<lparr>tDownloaded := i64 (tDownloaded t + n)\<rparr>;
                   p2 = p1\<lparr>Received := Received p1 @ [recv],
                           InFlight := (InFlight p1)[req := (InFlight p1 ! req)\<lparr>treceived := True\<rparr>]\<rparr>
               in if pDownloaded p2 = pSize p2 then finish_piece env pieceIdx a (pc_index recv) p2 t1
                  else Ok (t1\<lparr>heap := (heap t1)[a := p2]\<rparr>)))"

definition recv_piece :: "Env \<Rightarrow> Piece \<Rightarrow> StatusTracker \<Rightarrow> StatusTracker outcome" where
  "recv_piece env recv t =
     (case find_slot (pc_index recv) 0 (dslots t) t of
        None \<Rightarrow> Ok t
      | Some (pieceIdx, a) \<Rightarrow> recv_locked env pieceIdx a recv t)"

fun recvPieces :: "(Env \<times> Piece) list \<Rightarrow> StatusTracker \<Rightarrow> StatusTracker outcome" where
  "recvPieces [] t = Ok t"
| "recvPieces ((env, recv) # ps) t = obind (recv_piece env recv t) (recvPieces ps)"

section \<open>Keeping a seeder\<close>

text \<open>
  One refresh: the pointer \<open>ptr\<close> is the local variable \<^verbatim>\<open>p\<close> of the goroutine. \<open>live\<close> says
  whether the listener of an established peer still runs. A killed connection has no listener left.
\<close>

definition close_peer ::
  "NetEnv \<Rightarrow> (nat \<Rightarrow> error option) \<Rightarrow> bool \<Rightarrow> nat option \<Rightarrow> StatusTracker \<Rightarrow> StatusTracker outcome option" where
  "close_peer nenv deadline live ptr t =
     (case ptr of
        None \<Rightarrow> Some (Ok t)
      | Some a \<Rightarrow>
          if length (peers t) \<le> a then Some nil_deref
          else map_option (\<lambda>(p, r). case r of
                 Panic s \<Rightarrow> Panic s
               | _ \<Rightarrow> Ok (case p of None \<Rightarrow> t | Some p \<Rightarrow> t\<lparr>peers := (peers t)[a := p]\<rparr>))
                 (Peer_Close nenv deadline live (Some (peers t ! a))))"

definition greet :: "Env \<Rightarrow> nat \<Rightarrow> StatusTracker \<Rightarrow> StatusTracker outcome" where
  "greet env a t =
     (let b = Clone (BitField t) in
      obind (call_peer (SendBitfield (e_net env a (BitfieldMsg \<lparr>bitfield_bits = b\<rparr>)) b) (Some a) t) (\<lambda>(t1, _).
      obind (call_peer (SendInterested (e_net env a InterestMsg)) (Some a) t1) (\<lambda>(t2, _).
      Ok t2)))"

definition connect_seeder ::
  "Env \<Rightarrow> NetEnv \<Rightarrow> Conn outcome \<Rightarrow> bytes \<Rightarrow> StatusTracker \<Rightarrow> (StatusTracker \<times> nat option) outcome" where
  "connect_seeder env nenv dial addr t0 =
     (let t = t0\<lparr>seeders := dict_del addr (seeders t0)\<rparr> in
      obind (NumPieces (Torrent t)) (\<lambda>n.
      (case NewSeederConnection nenv dial addr n (Hash (mInfo (Torrent t))) (clientID t) of
         Panic s \<Rightarrow> Panic s
       | Err e \<Rightarrow> Ok (t, None)
       | Ok p \<Rightarrow>
           let a = length (peers t);
               t1 = t\<lparr>peers := peers t @ [p], seeders := dict_set addr a (seeders t)\<rparr>
           in obind (greet env a t1) (\<lambda>t2. Ok (t2, Some a)))))"

definition seeder_refresh ::
  "Env \<Rightarrow> NetEnv \<Rightarrow> (nat \<Rightarrow> error option) \<Rightarrow> bool \<Rightarrow> Conn outcome \<Rightarrow> bytes \<Rightarrow> nat option \<Rightarrow> StatusTracker
     \<Rightarrow> (StatusTracker \<times> nat option) outcome option" where
  "seeder_refresh env nenv deadline live dial addr ptr t =
     (case ConnectionStatus_of (map_option (\<lambda>a. peers t ! a) ptr) of
        Panic s \<Rightarrow> Some (Panic s)
      | Err e \<Rightarrow> Some (Err e)
      | Ok ConnectionKilled \<Rightarrow>
          map_option (\<lambda>r. obind r (connect_seeder env nenv dial addr)) (close_peer nenv deadline False ptr t)
      | Ok ConnectionEstablished \<Rightarrow>
          (case call_peer (SendKeepAlive (e_net env (the ptr) KeepAliveMsg)) ptr t of
             Ok (t1, None) \<Rightarrow> Some (Ok (t1, ptr))
           | Ok (t1, Some e) \<Rightarrow>
               map_option (\<lambda>r. obind r (\<lambda>t2. Ok (t2, ptr))) (close_peer nenv deadline live ptr t1)
           | Err e \<Rightarrow> Some (Err e)
           | Panic s \<Rightarrow> Some (Panic s)))"

definition seeder_exit ::
  "Env \<Rightarrow> NetEnv \<Rightarrow> (nat \<Rightarrow> error option) \<Rightarrow> bool \<Rightarrow> nat option \<Rightarrow> StatusTracker \<Rightarrow> StatusTracker outcome option" where
  "seeder_exit env nenv deadline live ptr t =
     (case call_peer (SendNotInterested (e_net env (the ptr) NotInterestMsg)) ptr t of
        Ok (t1, _) \<Rightarrow> close_peer nenv deadline live ptr t1
      | Err e \<Rightarrow> Some (Err e)
      | Panic s \<Rightarrow> Some (Panic s))"

section \<open>The blocks of a piece\<close>

definition block_count :: "nat \<Rightarrow> nat" where
  "block_count sz = (sz + 16383) div 16384"

definition block_at :: "u32 \<Rightarrow> nat \<Rightarrow> nat \<Rightarrow> Request" where
  "block_at idx sz k =
     \<lparr>req_index = idx, req_begin = of_nat (k * 16384), req_length = of_nat (min 16384 (sz - k * 16384))\<rparr>"

definition block_list :: "u32 \<Rightarrow> nat \<Rightarrow> Request list" where
  "block_list idx sz = map (block_at idx sz) [0..<block_count sz]"

lemma block_count_less: "k < block_count sz \<longleftrightarrow> k * 16384 < sz"
  by (auto simp: block_count_def)

lemma block_loop_from:
  "k \<le> block_count sz \<Longrightarrow>
     block_loop idx (int sz) (int (min (k * 16384) sz)) pend
       = pend @ map (block_at idx sz) [k..<block_count sz]"
proof (induction "block_count sz - k" arbitrary: k pend)
  case 0
  then have "k = block_count sz" by simp
  then have "\<not> k * 16384 < sz" using block_count_less [of k sz] by simp
  with \<open>k = _\<close> show ?case by (subst block_loop.simps) simp
next
  case (Suc n)
  then have k: "k < block_count sz" by linarith
  then have less: "k * 16384 < sz" by (simp add: block_count_less)
  let ?b = "if int sz < int (k * 16384) + RequestSize then int sz - int (k * 16384) else RequestSize"
  have b: "?b = int (min 16384 (sz - k * 16384))" using less by (auto simp: RequestSize_def)
  have step: "int (k * 16384) + int (min 16384 (sz - k * 16384)) = int (min (Suc k * 16384) sz)"
    using less by auto
  have "block_loop idx (int sz) (int (min (k * 16384) sz)) pend
      = block_loop idx (int sz) (int (min (Suc k * 16384) sz)) (pend @ [block_at idx sz k])"
    using less unfolding block_loop.simps [of idx "int sz" "int (min (k * 16384) sz)" pend] Let_def
    by (simp only: min.absorb1 less_imp_le step b) (simp add: block_at_def)
  also have "\<dots> = pend @ map (block_at idx sz) [k..<block_count sz]"
    using Suc.hyps(1) [of "Suc k" "pend @ [block_at idx sz k]"] Suc.hyps(2) k
    by (simp add: upt_conv_Cons)
  finally show ?case .
qed

lemma block_loop_eq: "block_loop idx (int sz) 0 [] = block_list idx sz"
  using block_loop_from [of 0 sz idx "[]"] by (simp add: block_list_def)

lemma unat_block_at:
  assumes "sz < 2 ^ 32" and "k < block_count sz"
  shows "unat (req_begin (block_at idx sz k)) = k * 16384"
    and "unat (req_length (block_at idx sz k)) = min 16384 (sz - k * 16384)"
proof -
  have "k * 16384 < 2 ^ 32" using assms by (simp add: block_count_less)
  then show "unat (req_begin (block_at idx sz k)) = k * 16384"
    unfolding block_at_def by (simp add: unat_of_nat_u32 del: of_nat_mult)
  have "min 16384 (sz - k * 16384) < 2 ^ 32" by simp
  then show "unat (req_length (block_at idx sz k)) = min 16384 (sz - k * 16384)"
    unfolding block_at_def using unat_of_nat_u32 by (simp del: of_nat_min of_nat_diff)
qed

lemma block_list_sorted:
  assumes "sz < 2 ^ 32"
  shows "sorted_wrt (<) (map req_begin (block_list idx sz))"
proof -
  have "req_begin (block_at idx sz i) < req_begin (block_at idx sz j)" if "i < j" "j < block_count sz" for i j
    using that unat_block_at(1) [OF assms] by (simp add: word_less_nat_alt)
  then show ?thesis by (auto simp: block_list_def sorted_wrt_map sorted_wrt_iff_nth_less)
qed

lemma block_list_distinct: "sz < 2 ^ 32 \<Longrightarrow> distinct (map req_begin (block_list idx sz))"
  using block_list_sorted strict_sorted_iff by blast

lemma chunks_take: "concat (map (\<lambda>i. take k (drop (i * k) xs)) [0..<n]) = take (n * k) xs"
proof (induction n)
  case (Suc n)
  then show ?case using take_add [of "n * k" k xs] by (simp add: add.commute)
qed simp

lemma block_list_covers:
  assumes "sz < 2 ^ 32" and "length d = sz"
  shows "concat (map (\<lambda>r. take (unat (req_length r)) (drop (unat (req_begin r)) d)) (block_list idx sz)) = d"
proof -
  have "take (unat (req_length (block_at idx sz k))) (drop (unat (req_begin (block_at idx sz k))) d)
      = take 16384 (drop (k * 16384) d)" if "k < block_count sz" for k
    using unat_block_at [OF assms(1) that] assms(2) by (simp add: min_def)
  then have "map (\<lambda>r. take (unat (req_length r)) (drop (unat (req_begin r)) d)) (block_list idx sz)
      = map (\<lambda>k. take 16384 (drop (k * 16384) d)) [0..<block_count sz]"
    by (simp add: block_list_def)
  moreover have "sz \<le> block_count sz * 16384" using block_count_less [of "block_count sz" sz] by simp
  ultimately show ?thesis using assms(2) by (simp only: chunks_take) simp
qed

definition weight :: "Request multiset \<Rightarrow> nat" where
  "weight rs = (\<Sum>r \<in># rs. unat (req_length r))"

lemma weight_plus [simp]: "weight (A + B) = weight A + weight B"
  by (simp add: weight_def)

lemma weight_add [simp]: "weight (add_mset r A) = unat (req_length r) + weight A"
  by (simp add: weight_def)

lemma weight_block_list: "sz < 2 ^ 32 \<Longrightarrow> weight (mset (block_list idx sz)) = sz"
proof -
  assume s: "sz < 2 ^ 32"
  obtain d :: bytes where d: "length d = sz" by (rule that [of "replicate sz 0"]) simp
  have "length (take (unat (req_length r)) (drop (unat (req_begin r)) d)) = unat (req_length r)"
    if "r \<in> set (block_list idx sz)" for r
    using that unat_block_at [OF s] d by (auto simp: block_list_def)
  then have "(\<Sum>r \<leftarrow> block_list idx sz. length (take (unat (req_length r)) (drop (unat (req_begin r)) d)))
      = (\<Sum>r \<leftarrow> block_list idx sz. unat (req_length r))"
    by (intro arg_cong [where f = sum_list] map_cong) auto
  with arg_cong [OF block_list_covers [OF s d, of idx], of length] d
  have "(\<Sum>r \<leftarrow> block_list idx sz. unat (req_length r)) = sz" by (simp add: length_concat comp_def)
  then show ?thesis unfolding weight_def mset_map [symmetric] sum_mset_sum_list .
qed

lemma block_list_positive:
  assumes "sz < 2 ^ 32" and "r \<in> set (block_list idx sz)"
  shows "0 < unat (req_length r)" and "req_index r = idx"
  using assms unat_block_at(2) [OF assms(1)]
  by (auto simp: block_list_def block_count_less) (auto simp: block_at_def)

section \<open>The invariant of a piece\<close>

text \<open>
  Every block of the piece is exactly once pending or in flight; the received blocks are those whose
  request is marked, and \<^verbatim>\<open>Downloaded\<close> counts their bytes.
\<close>

definition piece_inv :: "MetaInfoFile \<Rightarrow> pendingPiece \<Rightarrow> bool" where
  "piece_inv m p \<longleftrightarrow>
     unat (pIndex p) < num_pieces m \<and> pSize p = int (piece_size m (unat (pIndex p)))
     \<and> mset (Pending p) + mset (map treq (InFlight p))
         = mset (block_list (pIndex p) (piece_size m (unat (pIndex p))))
     \<and> mset (map request_of (Received p)) = mset (map treq (filter treceived (InFlight p)))
     \<and> pDownloaded p = int (\<Sum>pc \<leftarrow> Received p. length (pc_block pc))
     \<and> (\<forall>pc \<in> set (Received p). length (pc_block pc) < 2 ^ 32)"

lemma new_piece_inv:
  assumes "torrent_ok m" and "unat idx < num_pieces m"
  shows "piece_inv m (new_piece idx (int (piece_size m (unat idx))))"
  using assms(2) by (simp add: piece_inv_def new_piece_def block_loop_eq)

lemma received_weight:
  "\<forall>pc \<in> set ps. length (pc_block pc) < 2 ^ 32 \<Longrightarrow>
     (\<Sum>pc \<leftarrow> ps. length (pc_block pc)) = weight (mset (map request_of ps))"
  by (induction ps) (simp_all add: weight_def request_of_def unat_of_nat_u32)

lemma weight_zero:
  assumes "weight A = 0" and "\<forall>r \<in># A. 0 < unat (req_length r)"
  shows "A = {#}"
  using assms by (induction A) (auto simp: weight_def)

definition open_requests :: "pendingPiece \<Rightarrow> Request multiset" where
  "open_requests p = mset (Pending p) + mset (map treq (filter (\<lambda>r. \<not> treceived r) (InFlight p)))"

definition received_requests :: "pendingPiece \<Rightarrow> Request multiset" where
  "received_requests p = mset (map request_of (Received p))"

abbreviation blocks_of :: "MetaInfoFile \<Rightarrow> pendingPiece \<Rightarrow> Request list" where
  "blocks_of m p \<equiv> block_list (pIndex p) (piece_size m (unat (pIndex p)))"

lemma split_in_flight:
  "mset (map treq xs) = mset (map treq (filter (\<lambda>r. \<not> treceived r) xs)) + mset (map treq (filter treceived xs))"
  by (induction xs) auto

lemma piece_inv_blocks: "piece_inv m p \<Longrightarrow> open_requests p + received_requests p = mset (blocks_of m p)"
  using split_in_flight [of "InFlight p"]
  by (simp add: piece_inv_def open_requests_def received_requests_def add.assoc)

lemma piece_inv_size:
  assumes "torrent_ok m" and "piece_inv m p"
  shows "piece_size m (unat (pIndex p)) < 2 ^ 32" and "pSize p = int (piece_size m (unat (pIndex p)))"
  using assms piece_size_bounds(2) by (auto simp: piece_inv_def)

lemma downloaded_weight: "piece_inv m p \<Longrightarrow> pDownloaded p = int (weight (received_requests p))"
  by (simp add: piece_inv_def received_weight received_requests_def del: mset_map)

lemma piece_weight:
  assumes "torrent_ok m" and "piece_inv m p"
  shows "int (weight (open_requests p)) + pDownloaded p = pSize p"
proof -
  have "weight (open_requests p + received_requests p) = piece_size m (unat (pIndex p))"
    using weight_block_list [OF piece_inv_size(1) [OF assms]] by (simp only: piece_inv_blocks [OF assms(2)])
  with downloaded_weight [OF assms(2)] piece_inv_size(2) [OF assms] show ?thesis by simp
qed

lemma piece_complete:
  assumes "torrent_ok m" and "piece_inv m p" and "pDownloaded p = pSize p"
  shows "Pending p = []" and "mset (map request_of (Received p)) = mset (blocks_of m p)"
proof -
  have "weight (open_requests p) = 0" using piece_weight [OF assms(1,2)] assms(3) by simp
  moreover have "\<forall>r \<in># open_requests p. 0 < unat (req_length r)"
  proof
    fix r
    assume "r \<in># open_requests p"
    then have "r \<in># mset (blocks_of m p)" using piece_inv_blocks [OF assms(2)] by (metis union_iff)
    then show "0 < unat (req_length r)"
      using block_list_positive(1) [OF piece_inv_size(1) [OF assms(1,2)]] by simp
  qed
  ultimately have e: "open_requests p = {#}" by (rule weight_zero)
  then show "Pending p = []" by (simp add: open_requests_def)
  show "mset (map request_of (Received p)) = mset (blocks_of m p)"
    using piece_inv_blocks [OF assms(2)] by (simp only: e received_requests_def add_0)
qed

lemma Retry_inv:
  assumes "torrent_ok m" and "piece_inv m p" and "pDownloaded p = pSize p"
  shows "\<exists>p'. Retry p = Ok p' \<and> piece_inv m p' \<and> pDownloaded p' = 0 \<and> pIndex p' = pIndex p"
  using piece_complete [OF assms] assms(2) by (simp add: Retry_def piece_inv_def)

lemma mark_received:
  "i < length xs \<Longrightarrow> \<not> treceived (xs ! i) \<Longrightarrow>
     mset (map treq (filter treceived (xs[i := (xs ! i)\<lparr>treceived := True\<rparr>])))
       = add_mset (treq (xs ! i)) (mset (map treq (filter treceived xs)))"
  by (induction xs arbitrary: i) (auto split: nat.splits)

lemma mark_treq: "i < length xs \<Longrightarrow> map treq (xs[i := (xs ! i)\<lparr>treceived := b\<rparr>]) = map treq xs"
  by (induction xs arbitrary: i) (auto split: nat.splits)

lemma IndexFunc_SomeD: "IndexFunc f xs = Some i \<Longrightarrow> i < length xs \<and> f (xs ! i)"
  by (induction xs arbitrary: i) (auto split: if_splits)

lemma duplicate_iff:
  assumes "length (pc_block a) < 2 ^ 32" and "length (pc_block b) < 2 ^ 32"
  shows "duplicate a b \<longleftrightarrow> request_of a = request_of b"
proof -
  have "(of_nat (length (pc_block a)) :: u32) = of_nat (length (pc_block b)) \<longleftrightarrow> length (pc_block a) = length (pc_block b)"
    using assms by (metis unat_of_nat_u32)
  then show ?thesis by (auto simp: duplicate_def request_of_def)
qed

definition accept :: "pendingPiece \<Rightarrow> nat \<Rightarrow> Piece \<Rightarrow> pendingPiece" where
  "accept p req recv =
     p\<lparr>pDownloaded := pDownloaded p + int (length (pc_block recv)), Received := Received p @ [recv],
       InFlight := (InFlight p)[req := (InFlight p ! req)\<lparr>treceived := True\<rparr>]\<rparr>"

lemma accept_inv:
  assumes "torrent_ok m" and "piece_inv m p" and "IndexFunc (\<lambda>r. treq r = request_of recv) (InFlight p) = Some req"
    and "\<not> list_ex (\<lambda>other. duplicate other recv) (Received p)" and "length (pc_block recv) < 2 ^ 32"
  shows "piece_inv m (accept p req recv)" and "pDownloaded (accept p req recv) \<le> pSize p"
proof -
  from IndexFunc_SomeD [OF assms(3)] have req: "req < length (InFlight p)" "treq (InFlight p ! req) = request_of recv"
    by auto
  have "request_of other \<noteq> request_of recv" if "other \<in> set (Received p)" for other
    using that assms(2,4,5) duplicate_iff [of other recv] by (auto simp: list_ex_iff piece_inv_def)
  then have "request_of recv \<notin> set (map request_of (Received p))" by force
  moreover have "set (map request_of (Received p)) = set (map treq (filter treceived (InFlight p)))"
    using assms(2) unfolding piece_inv_def by (metis set_mset_mset)
  ultimately have "\<not> treceived (InFlight p ! req)" using req nth_mem [OF req(1)]
      image_eqI [of "request_of recv" treq "InFlight p ! req" "{x \<in> set (InFlight p). treceived x}"] by auto
  from mark_received [OF req(1) this] mark_treq [OF req(1)] req(2) assms(2,5)
  show inv: "piece_inv m (accept p req recv)"
    unfolding piece_inv_def accept_def by (simp del: mset_map mset_filter)
  show "pDownloaded (accept p req recv) \<le> pSize p"
    using piece_weight [OF assms(1) inv] by (simp add: accept_def)
qed

lemma assemble_received:
  assumes "torrent_ok m" and "piece_inv m p" and "pDownloaded p = pSize p"
  shows "map request_of (sort_key pc_begin (Received p)) = block_list (pIndex p) (piece_size m (unat (pIndex p)))"
proof -
  let ?bs = "block_list (pIndex p) (piece_size m (unat (pIndex p)))"
  have sz: "piece_size m (unat (pIndex p)) < 2 ^ 32"
    using piece_size_bounds(2) [OF assms(1)] assms(2) by (simp add: piece_inv_def)
  have "sorted (map req_begin (map request_of (sort_key pc_begin (Received p))))"
    using sorted_sort_key [of pc_begin "Received p"] by (simp add: comp_def request_of_def)
  moreover have "mset ?bs = mset (map request_of (sort_key pc_begin (Received p)))"
    using piece_complete(2) [OF assms] by simp
  moreover have "inj_on req_begin (set ?bs)" using block_list_distinct [OF sz] by (simp add: distinct_map)
  ultimately have "sort_key req_begin ?bs = map request_of (sort_key pc_begin (Received p))"
    by (intro sort_key_inj_key_eq)
  moreover have "sort_key req_begin ?bs = ?bs"
    using block_list_sorted [OF sz, of "pIndex p"] by (intro sort_key_id_if_sorted) (metis strict_sorted_iff)
  ultimately show ?thesis by simp
qed

lemma assemble_length:
  assumes "torrent_ok m" and "piece_inv m p" and "pDownloaded p = pSize p"
  shows "length (assemble (sort_key pc_begin (Received p))) = piece_size m (unat (pIndex p))"
proof -
  have "mset (map (length \<circ> pc_block) (sort_key pc_begin (Received p))) = mset (map (length \<circ> pc_block) (Received p))" by simp
  then have "(\<Sum>pc \<leftarrow> sort_key pc_begin (Received p). length (pc_block pc)) = (\<Sum>pc \<leftarrow> Received p. length (pc_block pc))"
    unfolding comp_def by (metis sum_mset_sum_list)
  with assms(2,3) show ?thesis by (simp add: assemble_def length_concat comp_def piece_inv_def)
qed

text \<open>A block that is the part of the content its request asks for.\<close>

definition honest :: "bytes \<Rightarrow> Piece \<Rightarrow> bool" where
  "honest d pc \<longleftrightarrow> pc_block pc = take (length (pc_block pc)) (drop (unat (pc_begin pc)) d)"

lemma assemble_honest:
  assumes "torrent_ok m" and "piece_inv m p" and "pDownloaded p = pSize p"
    and "\<forall>pc \<in> set (Received p). honest d pc" and "length d = piece_size m (unat (pIndex p))"
  shows "assemble (sort_key pc_begin (Received p)) = d"
proof -
  let ?cut = "\<lambda>r. take (unat (req_length r)) (drop (unat (req_begin r)) d)"
  have "pc_block pc = ?cut (request_of pc)" if "pc \<in> set (Received p)" for pc
    using that assms(2,4) by (auto simp: honest_def request_of_def piece_inv_def unat_of_nat_u32)
  then have "map pc_block (sort_key pc_begin (Received p)) = map (?cut \<circ> request_of) (sort_key pc_begin (Received p))"
    by (intro map_cong) auto
  then have "assemble (sort_key pc_begin (Received p)) = concat (map (?cut \<circ> request_of) (sort_key pc_begin (Received p)))"
    by (simp only: assemble_def)
  also have "\<dots> = concat (map ?cut (block_list (pIndex p) (piece_size m (unat (pIndex p)))))"
    by (simp only: assemble_received [OF assms(1-3), symmetric] map_map)
  also have "\<dots> = d"
    using block_list_covers [OF piece_inv_size(1) [OF assms(1,2)] assms(5)] .
  finally show ?thesis .
qed

section \<open>A pass of the scheduler over a slot\<close>

definition env_ok :: "Env \<Rightarrow> bool" where
  "env_ok env \<longleftrightarrow> net_ok (e_net env) \<and> order_ok (e_seeders env) \<and> order_ok (e_leechers env)
     \<and> (\<forall>us. set (e_unverified env us) = set us)"

lemma send_forms:
  "SendCancel nenv c = send nenv (CancelMsg c)" "SendHave nenv h = send nenv (HaveMsg h)"
  "SendRequest nenv r = send nenv (RequestMsg r)" "SendInterested nenv = send nenv InterestMsg"
  "SendBitfield nenv b = send nenv (BitfieldMsg \<lparr>bitfield_bits = b\<rparr>)" "SendKeepAlive nenv = send nenv KeepAliveMsg"
  "SendNotInterested nenv = send nenv NotInterestMsg" "SendUnchoke nenv = send nenv UnchokeMsg"
  "SendPiece nenv pc = send nenv (PieceMsg pc)"
  by (rule ext; simp)+

lemma cancel_all_ok:
  assumes "swarm_ok t" and "env_ok env"
  shows "\<exists>t'. cancel_all env r t = Ok t' \<and> only_peers t t'"
  unfolding cancel_all_def
  by (rule broadcast_ok [where net = "e_net env" and m = "CancelMsg (cancel_of r)"])
    (use assms addresses_valid [OF assms(1), of "e_seeders env"] can_request_Ok in
      \<open>auto simp: env_ok_def send_forms simp del: send.simps\<close>)

lemma reschedule_ok:
  assumes "env_ok env" and "swarm_ok t"
  shows "\<exists>t' pend' kept'. reschedule env rs t pend kept = Ok (t', pend', kept') \<and> only_peers t t'
    \<and> mset pend' + mset (map treq kept') = mset pend + mset (map treq kept) + mset (map treq rs)
    \<and> filter treceived kept' = filter treceived kept @ filter treceived rs"
  using assms(2)
proof (induction rs arbitrary: t pend kept)
  case Nil
  then show ?case by (simp add: only_peers_refl)
next
  case (Cons r rs)
  show ?case
  proof (cases "expired env r")
    case True
    from cancel_all_ok [OF Cons.prems assms(1)] obtain t1 where
      t1: "cancel_all env (treq r) t = Ok t1" "only_peers t t1" by blast
    from Cons.IH [OF only_peers_swarm [OF t1(2)], of "pend @ [treq r]" kept] t1 True show ?thesis
      by (auto simp: expired_def intro: only_peers_trans)
  next
    case False
    with Cons.IH [OF Cons.prems, of pend "kept @ [r]"] show ?thesis by auto
  qed
qed

lemma eligible_ok:
  assumes "swarm_ok t" and "\<forall>a \<in> set as. a < length (peers t)" and "unat idx < num_pieces (Torrent t)"
  shows "\<exists>ps. eligible idx as t = Ok ps \<and> set ps \<subseteq> set as"
  using assms(2)
proof (induction as)
  case (Cons a as)
  then have "peer_inv (num_pieces (Torrent t)) (peers t ! a)" using assms(1) swarm_ok_peer by simp
  with Cons assms(3) can_request_Ok check_piece show ?case by (auto simp: peer_inv_def)
qed simp

lemma schedule_ok:
  assumes "env_ok env" and "swarm_ok t" and "\<forall>r \<in> set rs. unat (req_index r) < num_pieces (Torrent t)"
  shows "\<exists>t' left' infl'. schedule env rs t left infl = Ok (t', left', infl') \<and> only_peers t t'
    \<and> mset left' + mset (map treq infl') = mset left + mset (map treq infl) + mset rs
    \<and> filter treceived infl' = filter treceived infl"
  using assms(2,3)
proof (induction rs arbitrary: t left infl)
  case Nil
  then show ?case by (simp add: only_peers_refl)
next
  case (Cons r rs)
  have valid: "\<forall>a \<in> set (seeder_range env t). a < length (peers t)"
    using addresses_valid(1) [OF Cons.prems(1), of "e_seeders env"] assms(1) by (simp add: env_ok_def)
  from eligible_ok [OF Cons.prems(1) valid, of "req_index r"] Cons.prems(2) obtain ps where
    ps: "eligible (req_index r) (seeder_range env t) t = Ok ps" "set ps \<subseteq> set (seeder_range env t)" by auto
  show ?case
  proof (cases "ps = []")
    case True
    with ps Cons.IH [of t "left @ [r]" infl] Cons.prems show ?thesis by auto
  next
    case False
    let ?a = "ps ! (e_rand env r mod length ps)"
    have "?a \<in> set ps" using False by simp
    then have "?a < length (peers t)" using ps(2) valid by blast
    from call_send [OF Cons.prems(1) this, of "e_net env ?a (RequestMsg r)" "RequestMsg r"] assms(1) obtain t1 err where
      t1: "call_peer (SendRequest (e_net env ?a (RequestMsg r)) r) (Some ?a) t = Ok (t1, err)" "only_peers t t1"
      by (auto simp: env_ok_def net_ok_def send_forms simp del: send.simps)
    have rest: "\<forall>q \<in> set rs. unat (req_index q) < num_pieces (Torrent t1)"
      using Cons.prems(2) only_peers_frame(4) [OF t1(2)] by simp
    show ?thesis
    proof (cases err)
      case None
      from Cons.IH [OF only_peers_swarm [OF t1(2)] rest, of left
          "infl @ [\<lparr>treq = r, tsend = e_now env, treceived = False\<rparr>]"] None ps t1 False
      show ?thesis by (auto intro: only_peers_trans)
    next
      case (Some e)
      from Cons.IH [OF only_peers_swarm [OF t1(2)] rest, of "left @ [r]" infl] Some ps t1 False
      show ?thesis by (auto intro: only_peers_trans)
    qed
  qed
qed

definition same_piece :: "pendingPiece \<Rightarrow> pendingPiece \<Rightarrow> bool" where
  "same_piece p p' \<longleftrightarrow> pIndex p' = pIndex p \<and> pSize p' = pSize p \<and> pDownloaded p' = pDownloaded p
     \<and> Received p' = Received p"

lemma slot_pass_ok:
  assumes "env_ok env" and "swarm_ok t" and "torrent_ok (Torrent t)" and "piece_inv (Torrent t) (heap t ! a)"
  shows "\<exists>t1 p'. slot_pass env a t = Ok (t1\<lparr>heap := (heap t)[a := p']\<rparr>) \<and> only_peers t t1
    \<and> piece_inv (Torrent t) p' \<and> same_piece (heap t ! a) p'"
proof -
  let ?p = "heap t ! a"
  from reschedule_ok [OF assms(1,2), of "InFlight ?p" "Pending ?p" "[]"] obtain t1 pend infl where
    1: "reschedule env (InFlight ?p) t (Pending ?p) [] = Ok (t1, pend, infl)" "only_peers t t1"
      "mset pend + mset (map treq infl) = mset (Pending ?p) + mset (map treq (InFlight ?p))"
      "filter treceived infl = filter treceived (InFlight ?p)" by auto
  have blocks: "mset pend + mset (map treq infl) = mset (blocks_of (Torrent t) ?p)"
    using 1(3) assms(4) by (simp only: piece_inv_def)
  have "req_index r = pIndex ?p" if "r \<in> set pend" for r
  proof -
    have "r \<in># mset (blocks_of (Torrent t) ?p)" using that blocks by (metis set_mset_mset union_iff)
    then show ?thesis using block_list_positive(2) piece_inv_size(1) [OF assms(3,4)] by simp
  qed
  then have "\<forall>r \<in> set pend. unat (req_index r) < num_pieces (Torrent t1)"
    using assms(4) only_peers_frame(4) [OF 1(2)] by (simp add: piece_inv_def)
  from schedule_ok [OF assms(1) only_peers_swarm [OF 1(2)] this, of "[]" infl] obtain t2 left infl' where
    2: "schedule env pend t1 [] infl = Ok (t2, left, infl')" "only_peers t1 t2"
      "mset left + mset (map treq infl') = mset pend + mset (map treq infl)"
      "filter treceived infl' = filter treceived infl" by auto
  have "piece_inv (Torrent t) (?p\<lparr>Pending := left, InFlight := infl'\<rparr>)"
    using assms(4) 1(4) 2(3,4) blocks by (simp add: piece_inv_def)
  moreover have "only_peers t t2" using only_peers_trans 1(2) 2(2) by blast
  moreover have "heap t2 = heap t" using only_peers_frame(1) [OF \<open>only_peers t t2\<close>] .
  ultimately show ?thesis
    using 1(1) 2(1) by (intro exI [of _ t2]) (auto simp: slot_pass_def same_piece_def Let_def)
qed

end
