(* ===== verification/Machine.thy ===== *)
theory Machine
  imports Main
begin

text \<open>
  State machines. \<open>step_invariant\<close> is the contract of an invariant: every step keeps it, so every
  reachable state has it. \<open>simulation\<close> adds an abstract machine that follows every step, so every
  run of the concrete machine is one of the abstract machine.
\<close>

locale step_invariant =
  fixes step :: "'s \<Rightarrow> 's \<Rightarrow> bool"
    and inv :: "'s \<Rightarrow> bool"
  assumes step_inv: "inv s \<Longrightarrow> step s s' \<Longrightarrow> inv s'"
begin

lemma reach_inv: "rtranclp step s s' \<Longrightarrow> inv s \<Longrightarrow> inv s'"
  by (induction rule: rtranclp_induct) (auto intro: step_inv)

lemma reach_frame:
  assumes "rtranclp step s s'" and "inv s" and "\<And>x y. inv x \<Longrightarrow> step x y \<Longrightarrow> f y = f x"
  shows "f s' = f s"
  using assms(1)
proof (induction rule: rtranclp_induct)
  case (step y z)
  then show ?case using assms(3) [OF reach_inv [OF step(1) assms(2)] step(2)] by simp
qed simp

end

locale simulation = step_invariant step inv
  for step :: "'s \<Rightarrow> 's \<Rightarrow> bool" and inv :: "'s \<Rightarrow> bool" +
  fixes abs_step :: "'a \<Rightarrow> 'a \<Rightarrow> bool"
    and abs :: "'s \<Rightarrow> 'a"
  assumes follows: "inv s \<Longrightarrow> step s s' \<Longrightarrow> rtranclp abs_step (abs s) (abs s')"
begin

lemma reach_abs:
  assumes "rtranclp step s s'" and "inv s"
  shows "rtranclp abs_step (abs s) (abs s')"
  using assms(1)
proof (induction rule: rtranclp_induct)
  case (step y z)
  from step(3) follows [OF reach_inv [OF step(1) assms(2)] step(2)] show ?case by (rule rtranclp_trans)
qed simp

end

end
