(* ===== verification/DownloadInvariant.thy ===== *)
theory DownloadInvariant
  imports Download Machine
begin

text \<open>
  The download as a whole: the invariant of the state that \<^verbatim>\<open>downloadScheduler\<close>, \<^verbatim>\<open>recvPieces\<close>
  and \<^verbatim>\<open>keepAliveSeeders\<close> share, and the machine whose steps are their critical sections.

  \<^item> \<open>dl_inv\<close>: every piece of the torrent is verified, in a slot or waiting, in exactly one of
    them; \<^verbatim>\<open>Downloaded\<close> counts the verified pieces and the blocks received for the slots; a
    verified piece is on disk with its hash.
  \<^item> \<open>dl_step\<close> and \<open>dstep\<close>: a step is one pass over a slot, the choice of the next piece, one received block
    (also one whose slot was looked up before another goroutine freed it), or anything the rest of
    the program does to peers, uploads and the saved bit field.
\<close>

section \<open>The invariant of a download\<close>

definition hash_of :: "MetaInfoFile \<Rightarrow> nat \<Rightarrow> bytes" where
  "hash_of m i = (case DecodeString (Pieces (mInfo m)) of Ok b \<Rightarrow> take 20 (drop (20 * i) b) | _ \<Rightarrow> [])"

lemma PieceHash_ok:
  assumes "torrent_ok m" and "unat idx < num_pieces m"
  shows "PieceHash spare m idx = Ok (hash_of m (unat idx))"
proof -
  from assms(1) obtain b where b: "DecodeString (Pieces (mInfo m)) = Ok b" "num_pieces m = length b div 20"
    by (auto simp: torrent_ok_def NumPieces_def must_def outcome_simps split: outcome.splits if_splits)
  obtain n where n: "unat idx = n" by simp
  with assms(2) b(2) have "n * 20 + 20 \<le> length b" by linarith
  moreover have "n * 20 + 20 < 2 ^ 32"
    using assms n unfolding torrent_ok_def by linarith
  then have "unat (idx * 20) = n * 20" "unat (idx * 20 + 20) = n * 20 + 20"
    using n block_in_piece [of "idx * 20" 20 "n * 20 + 20"] by (simp_all add: unat_word_ariths)
  then have "uint (idx * 20) = int (n * 20)" "uint (idx * 20 + 20) = int (n * 20 + 20)" by (metis uint_nat)+
  ultimately show ?thesis
    by (simp add: PieceHash_def must_def b hash_of_def n reslice_def nat_add_distrib nat_mult_distrib mult.commute)
qed

definition active :: "StatusTracker \<Rightarrow> nat set" where
  "active t = {a. Some a \<in> set (dslots t)}"

definition active_pieces :: "StatusTracker \<Rightarrow> nat set" where
  "active_pieces t = (\<lambda>a. unat (pIndex (heap t ! a))) ` active t"

definition on_disk :: "StatusTracker \<Rightarrow> nat \<Rightarrow> bool" where
  "on_disk t i \<longleftrightarrow> DownloadDir t \<in> set (dirs (disk t))
     \<and> (\<exists>d. files (disk t) (piece_file (DownloadDir t) (of_nat i)) = Some d
          \<and> length d = piece_size (Torrent t) i \<and> sha1 d = hash_of (Torrent t) i)"

definition slots_ok :: "StatusTracker \<Rightarrow> bool" where
  "slots_ok t \<longleftrightarrow> length (dslots t) = 4
     \<and> (\<forall>i < length (dslots t). \<forall>j < length (dslots t). dslots t ! i = dslots t ! j \<longrightarrow> dslots t ! i \<noteq> None \<longrightarrow> i = j)
     \<and> (\<forall>a \<in> active t. a < length (heap t)) \<and> inj_on (\<lambda>a. pIndex (heap t ! a)) (active t)"

definition tracker_wf :: "StatusTracker \<Rightarrow> bool" where
  "tracker_wf t \<longleftrightarrow> torrent_ok (Torrent t) \<and> bf_wf (BitField t)
     \<and> bf_count (BitField t) = num_pieces (Torrent t) \<and> swarm_ok t \<and> slots_ok t
     \<and> (\<forall>p \<in> set (heap t). piece_inv (Torrent t) p)"

definition disjoint_cover :: "nat set \<Rightarrow> nat set \<Rightarrow> nat set \<Rightarrow> nat set \<Rightarrow> bool" where
  "disjoint_cover H A U N \<longleftrightarrow> H \<union> A \<union> U = N \<and> H \<inter> A = {} \<and> H \<inter> U = {} \<and> A \<inter> U = {}"

lemma move_element:
  "disjoint_cover H A U N \<Longrightarrow> i \<in> A \<Longrightarrow> disjoint_cover (insert i H) (A - {i}) U N"
  "disjoint_cover H A U N \<Longrightarrow> i \<in> U \<Longrightarrow> disjoint_cover H (insert i A) (U - {i}) N"
  unfolding disjoint_cover_def by blast+

text \<open>Every piece of the torrent is in exactly one of three places.\<close>

definition partitioned :: "StatusTracker \<times> Scheduler \<Rightarrow> bool" where
  "partitioned = (\<lambda>(t, s).
     distinct (unverified s)
     \<and> disjoint_cover (have_set (BitField t)) (active_pieces t) (unat ` set (unverified s))
         {..<num_pieces (Torrent t)})"

definition accounted :: "StatusTracker \<Rightarrow> bool" where
  "accounted t \<longleftrightarrow> tDownloaded t =
     int (\<Sum>i \<in> have_set (BitField t). piece_size (Torrent t) i) + (\<Sum>a \<in> active t. pDownloaded (heap t ! a))"

definition stale_complete :: "StatusTracker \<Rightarrow> bool" where
  "stale_complete t \<longleftrightarrow>
     (\<forall>a < length (heap t). if a \<in> active t then pDownloaded (heap t ! a) < pSize (heap t ! a)
        else pDownloaded (heap t ! a) = pSize (heap t ! a))"

definition dl_inv :: "StatusTracker \<times> Scheduler \<Rightarrow> bool" where
  "dl_inv = (\<lambda>(t, s).
     tracker_wf t \<and> partitioned (t, s) \<and> accounted t \<and> stale_complete t
     \<and> (\<forall>i \<in> have_set (BitField t). on_disk t i)
     \<and> (running s \<longrightarrow> completed t = OpenChan)
     \<and> (completed t = ClosedChan \<longrightarrow> unverified s = [] \<and> active t = {}))"

lemma active_frame [simp]:
  "active (t\<lparr>heap := h\<rparr>) = active t" "active (t\<lparr>tDownloaded := d\<rparr>) = active t" "active (t\<lparr>disk := fs\<rparr>) = active t"
  "active (t\<lparr>peers := ps\<rparr>) = active t" "active (t\<lparr>BitField := b\<rparr>) = active t" "active (t\<lparr>completed := c\<rparr>) = active t"
  "active (t\<lparr>seeders := sd\<rparr>) = active t" "active (t\<lparr>leechers := sd\<rparr>) = active t"
  "active (t\<lparr>dslots := ds\<rparr>) = {a. Some a \<in> set ds}"
  by (simp_all add: active_def)

text \<open>The fields a verified piece depends on.\<close>

definition core :: "StatusTracker \<Rightarrow> MetaInfoFile \<times> BitField \<times> FS \<times> bytes" where
  "core t = (Torrent t, BitField t, disk t, DownloadDir t)"

lemma finite_active [simp]: "finite (active t)"
proof -
  have "Some ` active t \<subseteq> set (dslots t)" by (auto simp: active_def)
  then show ?thesis by (meson finite_imageD finite_set finite_subset inj_Some)
qed

lemma active_clear:
  assumes "slots_ok t" and "i < length (dslots t)" and "dslots t ! i = Some a"
  shows "{b. Some b \<in> set ((dslots t)[i := None])} = active t - {a}"
proof -
  have "b \<in> {b. Some b \<in> set ((dslots t)[i := None])} \<longleftrightarrow> b \<in> active t - {a}" for b
  proof -
    have "Some b \<in> set ((dslots t)[i := None]) \<longleftrightarrow> (\<exists>j < length (dslots t). j \<noteq> i \<and> dslots t ! j = Some b)"
      unfolding in_set_conv_nth by (metis length_list_update nth_list_update_eq nth_list_update_neq option.distinct(1))
    also have "\<dots> \<longleftrightarrow> Some b \<in> set (dslots t) \<and> b \<noteq> a"
      using assms unfolding slots_ok_def in_set_conv_nth by (metis option.distinct(1) option.sel)
    finally show ?thesis by (simp add: active_def)
  qed
  then show ?thesis by blast
qed

lemma active_fill:
  assumes "i < length (dslots t)" and "dslots t ! i = None"
  shows "{b. Some b \<in> set ((dslots t)[i := Some a])} = insert a (active t)"
proof -
  have "Some b \<in> set ((dslots t)[i := Some a]) \<longleftrightarrow> b = a \<or> Some b \<in> set (dslots t)" for b
    using assms unfolding in_set_conv_nth
    by (metis length_list_update nth_list_update_eq nth_list_update_neq option.distinct(1) option.inject)
  then show ?thesis by (auto simp: active_def)
qed

lemma heap_piece_inv: "tracker_wf t \<Longrightarrow> a < length (heap t) \<Longrightarrow> piece_inv (Torrent t) (heap t ! a)"
  by (simp add: tracker_wf_def)

lemma active_valid: "tracker_wf t \<Longrightarrow> a \<in> active t \<Longrightarrow> a < length (heap t)"
  by (simp add: tracker_wf_def slots_ok_def)

text \<open>The invariant depends on a few fields only.\<close>

lemma dl_inv_swarm:
  assumes "dl_inv (t, s)" and "t' = t\<lparr>peers := peers t', seeders := seeders t', leechers := leechers t'\<rparr>" and "swarm_ok t'"
  shows "dl_inv (t', s)"
proof -
  obtain ps sd lc where t': "t' = t\<lparr>peers := ps, seeders := sd, leechers := lc\<rparr>" using assms(2) by blast
  show ?thesis
    using assms(1,3) unfolding t'
    by (simp add: dl_inv_def tracker_wf_def slots_ok_def active_def partitioned_def accounted_def
        stale_complete_def on_disk_def active_pieces_def)
qed

lemma dl_inv_only_peers: "dl_inv (t, s) \<Longrightarrow> only_peers t t' \<Longrightarrow> dl_inv (t', s)"
  by (rule dl_inv_swarm) (auto simp: only_peers_def)

lemma unat_injD: "unat (x :: u32) = unat y \<Longrightarrow> x = y"
  by (simp add: word_unat_eq_iff)

lemma sum_update:
  fixes f :: "pendingPiece \<Rightarrow> int"
  assumes "finite A" and "a < length h"
  shows "(\<Sum>b \<in> A. f (h[a := p] ! b)) = (\<Sum>b \<in> A. f (h ! b)) + (if a \<in> A then f p - f (h ! a) else 0)"
proof (cases "a \<in> A")
  case True
  have "(\<Sum>b \<in> A - {a}. f (h[a := p] ! b)) = (\<Sum>b \<in> A - {a}. f (h ! b))" by (intro sum.cong) auto
  with True assms show ?thesis by (simp add: sum.remove [of A a])
next
  case False
  then have "(\<Sum>b \<in> A. f (h[a := p] ! b)) = (\<Sum>b \<in> A. f (h ! b))"
    by (intro sum.cong refl arg_cong [where f = f]) (metis nth_list_update_neq)
  with False show ?thesis by simp
qed

lemma heap_update_index:
  assumes "a < length h" and "pIndex p = pIndex (h ! a)"
  shows "pIndex (h[a := p] ! b) = pIndex (h ! b)"
  using assms by (cases "b = a") auto

lemma tracker_wf_update:
  assumes "tracker_wf t" and "a < length (heap t)" and "piece_inv (Torrent t) p" and "pIndex p = pIndex (heap t ! a)"
  shows "tracker_wf (t\<lparr>heap := (heap t)[a := p], tDownloaded := d, disk := fs\<rparr>)"
  using assms set_update_subset_insert [of "heap t" a p] heap_update_index [OF assms(2,4)]
  by (auto simp: tracker_wf_def swarm_ok_def slots_ok_def active_def inj_on_def)

definition disk_frame :: "StatusTracker \<Rightarrow> u32 \<Rightarrow> FS \<Rightarrow> bool" where
  "disk_frame t idx fs \<longleftrightarrow> set (dirs (disk t)) \<subseteq> set (dirs fs)
     \<and> (\<forall>f. f \<noteq> piece_file (DownloadDir t) idx \<longrightarrow> files fs f = files (disk t) f)"

lemma disk_frame_same [simp]: "disk_frame t idx (disk t)"
  by (simp add: disk_frame_def)

lemma on_disk_frame:
  assumes "on_disk t i" and "disk_frame t idx fs" and "i \<noteq> unat idx" and "i < 2 ^ 32"
  shows "on_disk (t\<lparr>disk := fs\<rparr>) i"
proof -
  have "of_nat i \<noteq> idx" using assms(3,4) unat_of_nat_u32 by metis
  then have "files fs (piece_file (DownloadDir t) (of_nat i)) = files (disk t) (piece_file (DownloadDir t) (of_nat i))"
    using assms(2) by (simp add: disk_frame_def)
  with assms(1,2) show ?thesis by (auto simp: on_disk_def disk_frame_def)
qed

lemma have_set_bound: "tracker_wf t \<Longrightarrow> i \<in> have_set (BitField t) \<Longrightarrow> i < num_pieces (Torrent t) \<and> i < 2 ^ 32"
  using bf.count_bound [of "BitField t"] by (auto simp: tracker_wf_def have_set_def)

lemma on_disk_update [simp]:
  "on_disk (t\<lparr>heap := h\<rparr>) i = on_disk t i" "on_disk (t\<lparr>tDownloaded := d\<rparr>) i = on_disk t i"
  "on_disk (t\<lparr>heap := h, tDownloaded := d, disk := fs\<rparr>) i = on_disk (t\<lparr>disk := fs\<rparr>) i"
  "on_disk (t\<lparr>dslots := ds\<rparr>) i = on_disk t i" "on_disk (t\<lparr>BitField := b\<rparr>) i = on_disk t i"
  "on_disk (t\<lparr>completed := c\<rparr>) i = on_disk t i"
  by (simp_all add: on_disk_def)

lemma dl_inv_update:
  assumes inv: "dl_inv (t, s)" and a: "a < length (heap t)" and p: "piece_inv (Torrent t) p" "pIndex p = pIndex (heap t ! a)"
    and d: "if a \<in> active t then pDownloaded p < pSize p else pDownloaded p = pSize p"
    and fs: "disk_frame t (pIndex p) fs" "a \<in> active t \<or> fs = disk t"
  shows "dl_inv (t\<lparr>heap := (heap t)[a := p],
    tDownloaded := tDownloaded t + (pDownloaded p - pDownloaded (heap t ! a)), disk := fs\<rparr>, s)"
proof -
  let ?t = "t\<lparr>heap := (heap t)[a := p], tDownloaded := tDownloaded t + (pDownloaded p - pDownloaded (heap t ! a)), disk := fs\<rparr>"
  have wf: "tracker_wf t" using inv by (simp add: dl_inv_def)
  have act: "active ?t = active t" by simp
  have "pSize p = pSize (heap t ! a)" using p heap_piece_inv [OF wf a] by (simp add: piece_inv_def)
  with inv d a have gap: "a \<notin> active t \<Longrightarrow> pDownloaded p = pDownloaded (heap t ! a)"
    by (auto simp: dl_inv_def stale_complete_def)
  have "tracker_wf ?t" using tracker_wf_update [OF wf a p] .
  moreover have "partitioned (?t, s)"
    using inv heap_update_index [OF a p(2)] by (simp add: dl_inv_def partitioned_def active_pieces_def act)
  moreover have "accounted ?t"
    using inv sum_update [OF finite_active a, where f = pDownloaded and p = p, of t] gap
    by (auto simp: dl_inv_def accounted_def)
  moreover have "stale_complete ?t"
    using inv d a by (auto simp: dl_inv_def stale_complete_def act nth_list_update)
  moreover have "on_disk ?t i" if i: "i \<in> have_set (BitField t)" for i
  proof (cases "a \<in> active t")
    case True
    then have "unat (pIndex p) \<in> active_pieces t" by (auto simp: active_pieces_def p(2))
    then have "i \<noteq> unat (pIndex p)" using inv i by (auto simp: dl_inv_def partitioned_def disjoint_cover_def)
    with on_disk_frame [OF _ fs(1), of i] have_set_bound [OF wf i] inv i show ?thesis by (simp add: dl_inv_def)
  next
    case False
    with fs inv i show ?thesis by (simp add: dl_inv_def)
  qed
  ultimately show ?thesis using inv act by (simp add: dl_inv_def)
qed

lemma slot_pass_inv:
  assumes "dl_inv (t, s)" and "env_ok env" and "a < length (heap t)"
  shows "\<exists>t'. slot_pass env a t = Ok t' \<and> dl_inv (t', s) \<and> dslots t' = dslots t \<and> length (heap t') = length (heap t)
    \<and> core t' = core t \<and> (\<forall>b. pIndex (heap t' ! b) = pIndex (heap t ! b))"
proof -
  have wf: "tracker_wf t" using assms(1) by (simp add: dl_inv_def)
  then obtain t1 p where t1: "slot_pass env a t = Ok (t1\<lparr>heap := (heap t)[a := p]\<rparr>)" "only_peers t t1"
      "piece_inv (Torrent t) p" "same_piece (heap t ! a) p"
    using slot_pass_ok [OF assms(2), of t a] heap_piece_inv [OF wf assms(3)] by (auto simp: tracker_wf_def)
  note fr = only_peers_frame [OF t1(2)]
  have "if a \<in> active t then pDownloaded p < pSize p else pDownloaded p = pSize p"
    using assms(1,3) t1(4) by (auto simp: dl_inv_def stale_complete_def same_piece_def split: if_splits)
  then have "dl_inv (t\<lparr>heap := (heap t)[a := p]\<rparr>, s)"
    using dl_inv_update [OF assms(1,3) t1(3), of "disk t"] t1(4) by (simp add: same_piece_def)
  moreover have "only_peers (t\<lparr>heap := (heap t)[a := p]\<rparr>) (t1\<lparr>heap := (heap t)[a := p]\<rparr>)"
    using t1(2) by (auto simp: only_peers_def swarm_ok_def)
  ultimately have "dl_inv (t1\<lparr>heap := (heap t)[a := p]\<rparr>, s)" by (rule dl_inv_only_peers)
  moreover have "pIndex ((heap t)[a := p] ! b) = pIndex (heap t ! b)" for b
    using heap_update_index [OF assms(3), of p] t1(4) by (simp add: same_piece_def)
  ultimately show ?thesis using t1(1) by (simp add: fr core_def)
qed

section \<open>Starting a piece\<close>

lemma some_has_ok:
  assumes "swarm_ok t" and "\<forall>a \<in> set as. a < length (peers t)" and "unat idx < num_pieces (Torrent t)"
  shows "\<exists>x. some_has idx as t = Ok x"
  using assms(2)
proof (induction as)
  case (Cons a as)
  then have "peer_inv (num_pieces (Torrent t)) (peers t ! a)" using assms(1) swarm_ok_peer by simp
  with assms(3) check_piece [of "PeerBitfield (peers t ! a)" idx] obtain x where
    "Check (PeerBitfield (peers t ! a)) idx = Ok x" by (auto simp: peer_inv_def)
  with Cons show ?case by (cases x) auto
qed (auto intro: exI [of _ False])

lemma pick_index_ok:
  assumes "swarm_ok t" and "env_ok env" and "\<forall>u \<in> set us. unat u < num_pieces (Torrent t)"
  shows "\<exists>index. pick_index env us t i0 = Ok index \<and> (index = i0 \<or> (\<exists>u \<in> set us. index = Some u))"
  using assms(3)
proof (induction us arbitrary: i0)
  case (Cons u us)
  have "\<forall>a \<in> set (seeder_range env t). a < length (peers t)"
    using addresses_valid(1) [OF assms(1), of "e_seeders env"] assms(2) by (simp add: env_ok_def)
  from some_has_ok [OF assms(1) this, of u] Cons.prems obtain x where
    "some_has u (seeder_range env t) t = Ok x" by auto
  with Cons.IH [of "if x then Some u else i0"] Cons.prems show ?case by auto
qed simp

lemma partition_index:
  assumes "dl_inv (t, s)"
  shows "u \<in> set (unverified s) \<Longrightarrow> unat u < num_pieces (Torrent t)"
    and "a \<in> active t \<Longrightarrow> unat (pIndex (heap t ! a)) < num_pieces (Torrent t)"
    and "i \<in> have_set (BitField t) \<Longrightarrow> i < num_pieces (Torrent t)"
  using assms by (fastforce simp: dl_inv_def partitioned_def disjoint_cover_def active_pieces_def)+

lemma start_piece_inv:
  assumes inv: "dl_inv (t, s)" and slot: "slot < length (dslots t)" "dslots t ! slot = None"
    and idx: "idx \<in> set (unverified s)"
  shows "\<exists>t' s'. start_piece slot idx (t, s) = Ok (t', s') \<and> dl_inv (t', s') \<and> core t' = core t
    \<and> active_pieces t' = insert (unat idx) (active_pieces t) \<and> unverified s' = removeAll idx (unverified s)"
proof -
  let ?n = "length (heap t)" and ?p = "new_piece idx (int (piece_size (Torrent t) (unat idx)))"
  let ?t = "t\<lparr>heap := heap t @ [?p], dslots := (dslots t)[slot := Some ?n]\<rparr>"
  let ?s = "s\<lparr>unverified := removeAll idx (unverified s)\<rparr>"
  have wf: "tracker_wf t" and tok: "torrent_ok (Torrent t)" using inv by (auto simp: dl_inv_def tracker_wf_def)
  have lt: "unat idx < num_pieces (Torrent t)" using partition_index(1) [OF inv idx] .
  have run: "start_piece slot idx (t, s) = Ok (?t, ?s)"
    using slot(2) by (simp add: start_piece_def piece_span_ok [OF tok lt] del: of_nat_unat)
  have act: "active ?t = insert ?n (active t)" using active_fill [OF slot] by (simp add: active_def)
  have old: "a < ?n" "a \<noteq> ?n" "(heap t @ [?p]) ! a = heap t ! a" if "a \<in> active t" for a
    using active_valid [OF wf that] by (simp_all add: nth_append)
  have p: "pIndex ?p = idx" "pDownloaded ?p = 0" "pSize ?p = int (piece_size (Torrent t) (unat idx))"
    by (simp_all add: new_piece_def)
  have pieces: "active_pieces ?t = insert (unat idx) (active_pieces t)"
    unfolding active_pieces_def act using old p by (auto simp: image_iff)
  have fresh: "unat idx \<notin> active_pieces t" using inv idx by (auto simp: dl_inv_def partitioned_def disjoint_cover_def)
  have slots: "slots_ok ?t"
    unfolding slots_ok_def
  proof (intro conjI)
    show "\<forall>i < length (dslots ?t). \<forall>j < length (dslots ?t).
        dslots ?t ! i = dslots ?t ! j \<longrightarrow> dslots ?t ! i \<noteq> None \<longrightarrow> i = j"
    proof (intro allI impI)
      fix i j
      assume ij: "i < length (dslots ?t)" "j < length (dslots ?t)" "dslots ?t ! i = dslots ?t ! j" "dslots ?t ! i \<noteq> None"
      have "dslots t ! k \<noteq> Some ?n" if "k < length (dslots t)" for k
        using that old(2) unfolding active_def by (metis mem_Collect_eq nth_mem)
      with ij wf slot show "i = j"
        by (auto simp: tracker_wf_def slots_ok_def nth_list_update split: if_splits)
    qed
    show "inj_on (\<lambda>a. pIndex (heap ?t ! a)) (active ?t)"
      using wf fresh old p unfolding act
      by (auto simp: inj_on_def tracker_wf_def slots_ok_def active_pieces_def image_iff)
    show "\<forall>a \<in> active ?t. a < length (heap ?t)" unfolding act using old(1) by (auto intro: less_SucI)
  qed (use wf in \<open>simp add: tracker_wf_def slots_ok_def\<close>)
  have "tracker_wf ?t"
    using wf slots new_piece_inv [OF tok lt] by (auto simp: tracker_wf_def swarm_ok_def)
  moreover have "partitioned (?t, ?s)"
  proof -
    have "unat ` set (removeAll idx (unverified s)) = unat ` set (unverified s) - {unat idx}"
      by (auto dest: unat_injD)
    moreover have "distinct (unverified s)" and "disjoint_cover (have_set (BitField t)) (active_pieces t)
        (unat ` set (unverified s)) {..<num_pieces (Torrent t)}"
      using inv by (simp_all add: dl_inv_def partitioned_def)
    ultimately show ?thesis
      using move_element(2) [of _ _ "unat ` set (unverified s)" _ "unat idx"] idx
      by (simp add: partitioned_def pieces distinct_removeAll)
  qed
  moreover have "accounted ?t"
  proof -
    have "(\<Sum>a \<in> active t. pDownloaded ((heap t @ [?p]) ! a)) = (\<Sum>a \<in> active t. pDownloaded (heap t ! a))"
      by (intro sum.cong) (simp_all add: old)
    moreover have "?n \<notin> active t" using old(2) by blast
    ultimately show ?thesis using inv p unfolding accounted_def act by (simp add: dl_inv_def accounted_def)
  qed
  moreover have "stale_complete ?t"
    using inv p piece_size_bounds(1) [OF tok lt] unfolding stale_complete_def act
    by (auto simp: dl_inv_def stale_complete_def nth_append less_Suc_eq)
  ultimately have "dl_inv (?t, ?s)"
    using inv idx by (auto simp: dl_inv_def on_disk_def)
  with run pieces show ?thesis by (simp add: core_def)
qed

lemma first_free_SomeD: "first_free k xs = Some i \<Longrightarrow> k \<le> i \<and> i < k + length xs \<and> xs ! (i - k) = None"
proof (induction k xs rule: first_free.induct)
  case (3 k x xs)
  then have "Suc k \<le> i" "i < Suc k + length xs" "xs ! (i - Suc k) = None" by auto
  moreover from this have "i - k = Suc (i - Suc k)" by simp
  ultimately show ?case by simp
qed auto

lemma next_piece_inv:
  assumes inv: "dl_inv (t, s)" and "env_ok env" and "running s" and free: "freeSlots = length (dslots t) \<longrightarrow> active t = {}"
  shows "\<exists>t' s'. next_piece env freeSlots (t, s) = Ok (t', s') \<and> dl_inv (t', s') \<and> core t' = core t
    \<and> (active_pieces t' = active_pieces t \<and> unverified s' = unverified s
      \<or> (\<exists>idx \<in> set (unverified s). active_pieces t' = insert (unat idx) (active_pieces t)
          \<and> unverified s' = removeAll idx (unverified s)))"
proof (cases "unverified s = []")
  case True
  with assms show ?thesis
    by (auto simp: next_piece_def dl_inv_def tracker_wf_def swarm_ok_def slots_ok_def partitioned_def
        active_pieces_def accounted_def stale_complete_def core_def)
next
  case False
  show ?thesis
  proof (cases "first_free 0 (dslots t)")
    case None
    with inv False show ?thesis by (auto simp: next_piece_def)
  next
    case (Some slot)
    have "swarm_ok t" using inv by (simp add: dl_inv_def tracker_wf_def)
    from pick_index_ok [OF this assms(2), of "e_unverified env (unverified s)" None] partition_index(1) [OF inv] assms(2)
    obtain index where index: "pick_index env (e_unverified env (unverified s)) t None = Ok index"
      "index = None \<or> (\<exists>u \<in> set (unverified s). index = Some u)" by (auto simp: env_ok_def)
    have slot: "slot < length (dslots t)" "dslots t ! slot = None" using first_free_SomeD [OF Some] by auto
    show ?thesis
    proof (cases index)
      case None
      with index Some False inv show ?thesis by (simp add: next_piece_def)
    next
      case u: (Some u)
      with index have "u \<in> set (unverified s)" by simp
      from start_piece_inv [OF inv slot this] index u Some False show ?thesis
        unfolding next_piece_def by fastforce
    qed
  qed
qed

section \<open>Receiving a block\<close>

lemma announce_have_ok:
  assumes "swarm_ok t" and "env_ok env"
  shows "\<exists>t'. announce_have env idx t = Ok t' \<and> only_peers t t'"
proof -
  let ?h = "\<lparr>have_index = idx\<rparr>"
  let ?f = "\<lambda>a. SendHave (e_net env a (HaveMsg ?h)) ?h"
  have f: "?f a = send (e_net env a (HaveMsg ?h)) (HaveMsg ?h)" for a by (simp only: send_forms)
  have net: "net_ok (e_net env)" and ord: "order_ok (e_seeders env)" "order_ok (e_leechers env)"
    using assms(2) by (simp_all add: env_ok_def)
  note bc = broadcast_ok [where can = is_established and m = "HaveMsg ?h", OF _ _ f net]
  from bc [OF assms(1) addresses_valid(1) [OF assms(1) ord(1)]] is_established_Ok obtain t1 where
    t1: "broadcast is_established ?f (seeder_range env t) t = Ok t1" "only_peers t t1" by blast
  note sw = only_peers_swarm [OF t1(2)]
  from bc [OF sw addresses_valid(2) [OF sw ord(2)]] is_established_Ok obtain t2 where
    "broadcast is_established ?f (leecher_range env t1) t1 = Ok t2" "only_peers t1 t2" by blast
  with t1 show ?thesis by (auto simp: announce_have_def Let_def intro: only_peers_trans)
qed

lemma dl_inv_verified:
  assumes inv: "dl_inv (t, s)" and i: "i < length (dslots t)" "dslots t ! i = Some a"
    and p: "piece_inv (Torrent t) p" "pIndex p = pIndex (heap t ! a)" "pDownloaded p = pSize p"
    and fs: "disk_frame t (pIndex p) fs" and here: "on_disk (t\<lparr>disk := fs\<rparr>) (unat (pIndex p))"
    and b: "Set_piece (BitField t) (pIndex p) = Ok b"
  shows "dl_inv (t\<lparr>heap := (heap t)[a := p], tDownloaded := tDownloaded t + (pDownloaded p - pDownloaded (heap t ! a)),
      disk := fs, BitField := b, dslots := (dslots t)[i := None]\<rparr>, s)"
proof -
  let ?idx = "unat (pIndex p)"
  let ?t = "t\<lparr>heap := (heap t)[a := p], tDownloaded := tDownloaded t + (pDownloaded p - pDownloaded (heap t ! a)),
      disk := fs, BitField := b, dslots := (dslots t)[i := None]\<rparr>"
  have wf: "tracker_wf t" and tok: "torrent_ok (Torrent t)" using inv by (auto simp: dl_inv_def tracker_wf_def)
  have a: "a \<in> active t" "a < length (heap t)"
    using i active_valid [OF wf] nth_mem [OF i(1)] by (auto simp: active_def)
  have act: "active ?t = active t - {a}" using active_clear [OF _ i] wf by (simp add: tracker_wf_def)
  have index: "pIndex (heap ?t ! b) = pIndex (heap t ! b)" for b using heap_update_index [OF a(2) p(2)] by simp
  have inj: "inj_on (\<lambda>a. pIndex (heap t ! a)) (active t)" using wf by (simp add: tracker_wf_def slots_ok_def)
  have here_active: "?idx \<in> active_pieces t" using a(1) by (auto simp: active_pieces_def p(2))
  have pieces: "active_pieces ?t = active_pieces t - {?idx}"
  proof -
    have "active_pieces ?t = (\<lambda>a. unat (pIndex (heap t ! a))) ` (active t - {a})"
      unfolding active_pieces_def act by (simp only: index)
    also have "\<dots> = active_pieces t - {?idx}"
      using inj a(1) unfolding active_pieces_def p(2) inj_on_def by (auto dest!: unat_injD)
    finally show ?thesis .
  qed
  have lt: "?idx < num_pieces (Torrent t)" using p(1) by (simp add: piece_inv_def)
  have bwf: "bf_wf (BitField t)" "bf_count (BitField t) = num_pieces (Torrent t)" using wf by (auto simp: tracker_wf_def)
  have have_b: "have_set b = insert ?idx (have_set (BitField t))" "bf_wf b" "bf_count b = num_pieces (Torrent t)"
    using have_set_Set_piece [OF bwf(1) b] bf.store_wf [OF bwf(1) b] lt bwf(2) by auto
  have new: "?idx \<notin> have_set (BitField t)" using inv here_active by (auto simp: dl_inv_def partitioned_def disjoint_cover_def)
  have "tracker_wf ?t"
  proof -
    have "slots_ok ?t"
      unfolding slots_ok_def
    proof (intro conjI)
      show "\<forall>j < length (dslots ?t). \<forall>k < length (dslots ?t).
          dslots ?t ! j = dslots ?t ! k \<longrightarrow> dslots ?t ! j \<noteq> None \<longrightarrow> j = k"
      proof -
        have "dslots ?t ! k = (if k = i then None else dslots t ! k)" for k using i(1) by (cases "k = i") auto
        then show ?thesis using wf by (auto simp: tracker_wf_def slots_ok_def split: if_splits)
      qed
      show "inj_on (\<lambda>a. pIndex (heap ?t ! a)) (active ?t)"
        unfolding act index by (rule inj_on_subset [OF inj]) simp
    qed (use wf act in \<open>simp_all add: tracker_wf_def slots_ok_def\<close>)
    then show ?thesis
      using wf have_b p(1) set_update_subset_insert [of "heap t" a p] by (auto simp: tracker_wf_def swarm_ok_def)
  qed
  moreover have "partitioned (?t, s)"
  proof -
    have "distinct (unverified s)" and "disjoint_cover (have_set (BitField t)) (active_pieces t)
        (unat ` set (unverified s)) {..<num_pieces (Torrent t)}"
      using inv by (simp_all add: dl_inv_def partitioned_def)
    from this(1) move_element(1) [OF this(2) here_active] show ?thesis by (simp add: partitioned_def pieces have_b)
  qed
  moreover have "accounted ?t"
  proof -
    have "(\<Sum>b \<in> active t - {a}. pDownloaded ((heap t)[a := p] ! b)) = (\<Sum>b \<in> active t - {a}. pDownloaded (heap t ! b))"
      by (intro sum.cong) auto
    moreover have "(\<Sum>b \<in> active t. pDownloaded (heap t ! b))
        = pDownloaded (heap t ! a) + (\<Sum>b \<in> active t - {a}. pDownloaded (heap t ! b))"
      using a(1) by (simp add: sum.remove)
    moreover have "finite (have_set (BitField t))" by (simp add: have_set_def)
    moreover have "pDownloaded p = int (piece_size (Torrent t) ?idx)" using p by (simp add: piece_inv_def)
    ultimately show ?thesis
      using inv new unfolding accounted_def act by (simp add: dl_inv_def accounted_def have_b)
  qed
  moreover have "stale_complete ?t"
    using inv p(3) a unfolding stale_complete_def act
    by (auto simp: dl_inv_def stale_complete_def nth_list_update split: if_splits)
  moreover have "on_disk ?t j" if "j \<in> have_set b" for j
  proof (cases "j = ?idx")
    case True
    then show ?thesis using here by (simp add: on_disk_def)
  next
    case False
    with that have j: "j \<in> have_set (BitField t)" by (simp add: have_b)
    from on_disk_frame [OF _ fs False] have_set_bound [OF wf j] inv j show ?thesis by (simp add: dl_inv_def on_disk_def)
  qed
  moreover have "completed t \<noteq> ClosedChan" and "running s \<longrightarrow> completed t = OpenChan"
    using inv a(1) by (auto simp: dl_inv_def)
  ultimately show ?thesis by (simp add: dl_inv_def)
qed

lemma downloaded_bound:
  assumes "dl_inv (t, s)"
  shows "0 \<le> tDownloaded t" and "tDownloaded t \<le> int (total_size (Torrent t))"
proof -
  let ?m = "Torrent t"
  have wf: "tracker_wf t" and tok: "torrent_ok ?m" using assms by (auto simp: dl_inv_def tracker_wf_def)
  have inj: "inj_on (\<lambda>a. unat (pIndex (heap t ! a))) (active t)"
    using wf by (auto simp: tracker_wf_def slots_ok_def inj_on_def dest!: unat_injD)
  have p: "0 \<le> pDownloaded (heap t ! a)" "pDownloaded (heap t ! a) \<le> int (piece_size ?m (unat (pIndex (heap t ! a))))"
    if "a \<in> active t" for a
    using heap_piece_inv [OF wf active_valid [OF wf that]] assms that active_valid [OF wf that]
    by (auto simp: piece_inv_def dl_inv_def stale_complete_def)
  have "(\<Sum>a \<in> active t. pDownloaded (heap t ! a)) \<le> (\<Sum>a \<in> active t. int (piece_size ?m (unat (pIndex (heap t ! a)))))"
    using p by (intro sum_mono)
  also have "\<dots> = int (\<Sum>i \<in> active_pieces t. piece_size ?m i)"
    unfolding active_pieces_def by (simp add: sum.reindex [OF inj] comp_def)
  finally have le: "(\<Sum>a \<in> active t. pDownloaded (heap t ! a)) \<le> int (\<Sum>i \<in> active_pieces t. piece_size ?m i)" .
  have "(\<Sum>i \<in> have_set (BitField t). piece_size ?m i) + (\<Sum>i \<in> active_pieces t. piece_size ?m i)
      = (\<Sum>i \<in> have_set (BitField t) \<union> active_pieces t. piece_size ?m i)"
    using assms by (intro sum.union_disjoint [symmetric])
      (auto simp: dl_inv_def partitioned_def disjoint_cover_def have_set_def active_pieces_def)
  also have "\<dots> \<le> total_size ?m"
    using assms by (intro sum_pieces_le [OF tok]) (auto simp: dl_inv_def partitioned_def disjoint_cover_def)
  finally show "tDownloaded t \<le> int (total_size ?m)"
    using le assms by (simp add: dl_inv_def accounted_def del: of_nat_sum)
  have "0 \<le> (\<Sum>a \<in> active t. pDownloaded (heap t ! a))" using p(1) by (intro sum_nonneg)
  then show "0 \<le> tDownloaded t" using assms by (simp add: dl_inv_def accounted_def del: of_nat_sum)
qed

text \<open>What a block does to the download; \<open>p\<close> is the piece as it is afterwards.\<close>

inductive received :: "StatusTracker \<Rightarrow> nat \<Rightarrow> nat \<Rightarrow> Piece \<Rightarrow> pendingPiece \<Rightarrow> StatusTracker \<Rightarrow> bool" for t pieceIdx a recv where
  ignored: "received t pieceIdx a recv (heap t ! a) t"
| stored: "received t pieceIdx a recv p (t\<lparr>heap := (heap t)[a := p],
      tDownloaded := tDownloaded t + (pDownloaded p - pDownloaded (heap t ! a)), disk := disk t\<rparr>)"
    if "a \<in> active t" "piece_inv (Torrent t) p" "pIndex p = pIndex (heap t ! a)" "pDownloaded p < pSize p"
      "Received p = Received (heap t ! a) @ [recv]"
| retried: "received t pieceIdx a recv p (t\<lparr>heap := (heap t)[a := p],
      tDownloaded := tDownloaded t + (pDownloaded p - pDownloaded (heap t ! a)), disk := fs\<rparr>)"
    if "a \<in> active t" "piece_inv (Torrent t) p" "pIndex p = pIndex (heap t ! a)" "pDownloaded p = 0"
      "disk_frame t (pIndex p) fs"
| checked: "received t pieceIdx a recv p (t'\<lparr>heap := (heap t)[a := p], dslots := (dslots t)[pieceIdx := None]\<rparr>)"
    if "a \<in> active t" "piece_inv (Torrent t) p" "pIndex p = pIndex (heap t ! a)" "pDownloaded p = pSize p"
      "disk_frame t (pIndex p) fs" "on_disk (t\<lparr>disk := fs\<rparr>) (unat (pIndex p))"
      "Set_piece (BitField t) (pIndex p) = Ok b"
      "only_peers (t\<lparr>tDownloaded := tDownloaded t + (pDownloaded p - pDownloaded (heap t ! a)), disk := fs, BitField := b\<rparr>) t'"

lemma received_inv:
  assumes "received t pieceIdx a recv p t'" and "dl_inv (t, s)" and "a < length (heap t)"
    and slot: "a \<in> active t \<longrightarrow> pieceIdx < length (dslots t) \<and> dslots t ! pieceIdx = Some a"
  shows "dl_inv (t', s)"
  using assms(1)
proof cases
  case ignored
  then show ?thesis using assms(2) by simp
next
  case stored
  from dl_inv_update [OF assms(2,3) stored(3,4), of "disk t"] stored show ?thesis by simp
next
  case (retried fs)
  have "0 < pSize p"
    using retried(3) piece_size_bounds(1) assms(2) by (auto simp: piece_inv_def dl_inv_def tracker_wf_def)
  from dl_inv_update [OF assms(2,3) retried(3,4), of fs] retried this show ?thesis by simp
next
  case (checked fs b t1)
  let ?t = "t\<lparr>tDownloaded := tDownloaded t + (pDownloaded p - pDownloaded (heap t ! a)), disk := fs, BitField := b\<rparr>"
  let ?up = "\<lambda>u. u\<lparr>heap := (heap t)[a := p], dslots := (dslots t)[pieceIdx := None]\<rparr>"
  have "dl_inv (t\<lparr>heap := (heap t)[a := p], tDownloaded := tDownloaded t + (pDownloaded p - pDownloaded (heap t ! a)),
      disk := fs, BitField := b, dslots := (dslots t)[pieceIdx := None]\<rparr>, s)" (is "dl_inv (?v, s)")
    using dl_inv_verified [OF assms(2)] slot checked(2-8) by blast
  moreover have "?v = ?up ?t" by (cases t) simp
  ultimately have "dl_inv (?up ?t, s)" by simp
  moreover have "only_peers (?up ?t) (?up t1)" using checked(9) by (auto simp: only_peers_def swarm_ok_def)
  ultimately show ?thesis unfolding checked(1) by (rule dl_inv_only_peers)
qed

lemma sort_received_inv:
  "piece_inv m p \<Longrightarrow> piece_inv m (p\<lparr>Received := sort_key pc_begin (Received p)\<rparr>)"
proof -
  have "(\<Sum>pc \<leftarrow> sort_key pc_begin (Received p). length (pc_block pc)) = (\<Sum>pc \<leftarrow> Received p. length (pc_block pc))"
    unfolding sum_mset_sum_list [symmetric] by (simp only: mset_map mset_sort)
  then show "piece_inv m p \<Longrightarrow> ?thesis" by (simp add: piece_inv_def)
qed

lemma retry_piece_received:
  assumes inv: "dl_inv (t, s)" and a: "a \<in> active t" and p: "piece_inv (Torrent t) p" "pIndex p = pIndex (heap t ! a)"
    "pDownloaded p = pSize p" and fs: "disk_frame t (pIndex p) fs"
  shows "\<exists>t' q. retry_piece a p (t\<lparr>tDownloaded := tDownloaded t + (pDownloaded p - pDownloaded (heap t ! a)), disk := fs\<rparr>) = Ok t'
    \<and> received t pieceIdx a recv q t'"
proof -
  have wf: "tracker_wf t" and tok: "torrent_ok (Torrent t)" using inv by (auto simp: dl_inv_def tracker_wf_def)
  from Retry_inv [OF tok p(1,3)] obtain q where
    q: "Retry p = Ok q" "piece_inv (Torrent t) q" "pDownloaded q = 0" "pIndex q = pIndex p" by blast
  let ?d = "tDownloaded t + (pDownloaded q - pDownloaded (heap t ! a))"
  have "0 \<le> pDownloaded (heap t ! a)" "pDownloaded (heap t ! a) \<le> pSize (heap t ! a)" "pSize (heap t ! a) < 2 ^ 32"
    using heap_piece_inv [OF wf active_valid [OF wf a]] inv active_valid [OF wf a] a
      piece_inv_size [OF tok heap_piece_inv [OF wf active_valid [OF wf a]]]
    by (auto simp: piece_inv_def dl_inv_def stale_complete_def)
  then have "in_i64 ?d"
    using downloaded_bound [OF inv] total_size_bound [OF tok] q(3) by (simp add: in_i64_def)
  then have "i64 (tDownloaded t + (pDownloaded p - pDownloaded (heap t ! a)) - pSize p) = ?d"
    using p(3) q(3) by (simp add: algebra_simps)
  moreover have "t\<lparr>tDownloaded := ?d, disk := fs, heap := (heap t)[a := q]\<rparr>
      = t\<lparr>heap := (heap t)[a := q], tDownloaded := ?d, disk := fs\<rparr>" by (cases t) simp
  ultimately have "retry_piece a p (t\<lparr>tDownloaded := tDownloaded t + (pDownloaded p - pDownloaded (heap t ! a)), disk := fs\<rparr>)
      = Ok (t\<lparr>heap := (heap t)[a := q], tDownloaded := ?d, disk := fs\<rparr>)"
    using q(1) by (simp add: retry_piece_def Let_def)
  moreover have "received t pieceIdx a recv q (t\<lparr>heap := (heap t)[a := q], tDownloaded := ?d, disk := fs\<rparr>)"
    using q a p(2) fs by (intro received.retried) auto
  ultimately show ?thesis by blast
qed

lemma finish_piece_received:
  assumes inv: "dl_inv (t, s)" and env: "env_ok env" and a: "a \<in> active t" "dslots t ! pieceIdx = Some a"
    and p: "piece_inv (Torrent t) p" "pIndex p = pIndex (heap t ! a)" "pDownloaded p = pSize p"
  defines "t1 \<equiv> t\<lparr>tDownloaded := tDownloaded t + (pDownloaded p - pDownloaded (heap t ! a))\<rparr>"
    and "data \<equiv> assemble (sort_key pc_begin (Received p))"
  shows "\<exists>t' q. finish_piece env pieceIdx a (pIndex p) p t1 = Ok t' \<and> received t pieceIdx a recv q t'
    \<and> (sha1 data = hash_of (Torrent t) (unat (pIndex p)) \<and> snd (Flush (e_fs env) t1 (pIndex p) data) = Ok ()
        \<longrightarrow> have_set (BitField t') = insert (unat (pIndex p)) (have_set (BitField t))
          \<and> files (disk t') (piece_file (DownloadDir t) (pIndex p)) = Some data
          \<and> dslots t' = (dslots t)[pieceIdx := None])"
proof -
  let ?q = "p\<lparr>Received := sort_key pc_begin (Received p)\<rparr>" and ?i = "unat (pIndex p)"
  have wf: "tracker_wf t" and tok: "torrent_ok (Torrent t)" using inv by (auto simp: dl_inv_def tracker_wf_def)
  have lt: "?i < num_pieces (Torrent t)" using p(1) by (simp add: piece_inv_def)
  have q: "piece_inv (Torrent t) ?q" "pIndex ?q = pIndex (heap t ! a)" "pDownloaded ?q = pSize ?q"
    using sort_received_inv [OF p(1)] p(2,3) by simp_all
  obtain t2 r where fl: "Flush (e_fs env) t1 (pIndex p) data = (t2, r)" by force
  from Flush_frame [OF fl] obtain fs where fs: "t2 = t1\<lparr>disk := fs\<rparr>" "disk_frame t (pIndex p) fs" "\<not> is_panic r"
    by (auto simp: disk_frame_def t1_def)
  have hash: "PieceHash (e_spare env) (Torrent t1) (pIndex p) = Ok (hash_of (Torrent t) ?i)"
    using PieceHash_ok [OF tok lt] by (simp add: t1_def)
  have unfold: "finish_piece env pieceIdx a (pIndex p) p t1 = (if sha1 data \<noteq> hash_of (Torrent t) ?i then retry_piece a ?q t1
      else (case r of Err e \<Rightarrow> retry_piece a ?q t2 | Panic s \<Rightarrow> Panic s
        | Ok _ \<Rightarrow> obind (Set_piece (BitField t2) (pIndex p)) (\<lambda>b.
            obind (announce_have env (pIndex p) (t2\<lparr>BitField := b\<rparr>)) (\<lambda>t2.
            let t3 = t2\<lparr>heap := (heap t2)[a := ?q]\<rparr> in
            Ok (if dslots t3 ! pieceIdx = Some a then t3\<lparr>dslots := (dslots t3)[pieceIdx := None]\<rparr> else t3)))))"
    using fl by (cases r) (simp_all add: finish_piece_def hash data_def [symmetric] Let_def cong: if_cong)
  note retry = retry_piece_received [OF inv a(1) q]
  show ?thesis
  proof (cases "sha1 data = hash_of (Torrent t) ?i \<and> r = Ok ()")
    case False
    have "\<exists>t' q. finish_piece env pieceIdx a (pIndex p) p t1 = Ok t' \<and> received t pieceIdx a recv q t'"
    proof (cases "sha1 data = hash_of (Torrent t) ?i")
      case True
      with False fs obtain e where "r = Err e" by (cases r) auto
      with True unfold retry [of fs] fs(1,2) show ?thesis by (simp add: t1_def)
    next
      case False
      with unfold retry [of "disk t"] show ?thesis by (simp add: t1_def)
    qed
    with False fl show ?thesis by auto
  next
    case True
    have "bf_wf (BitField t)" "?i < bf_count (BitField t)" using wf lt by (auto simp: tracker_wf_def)
    from bf.store_total [OF this] obtain b where b: "Set_piece (BitField t) (pIndex p) = Ok b" by blast
    have "swarm_ok (t2\<lparr>BitField := b\<rparr>)" using wf by (simp add: fs(1) t1_def tracker_wf_def swarm_ok_def)
    from announce_have_ok [OF this env] obtain t3 where
      t3: "announce_have env (pIndex p) (t2\<lparr>BitField := b\<rparr>) = Ok t3" "only_peers (t2\<lparr>BitField := b\<rparr>) t3" by blast
    note fr = only_peers_frame [OF t3(2)]
    have run: "finish_piece env pieceIdx a (pIndex p) p t1
        = Ok (t3\<lparr>heap := (heap t)[a := ?q], dslots := (dslots t)[pieceIdx := None]\<rparr>)"
      using True b t3(1) a(2) unfold by (simp add: fs(1) t1_def fr Let_def)
    have here: "on_disk (t\<lparr>disk := fs\<rparr>) (unat (pIndex ?q))"
      using Flush_Ok [of "e_fs env" t1 "pIndex p" data t2] fl True fs(1) assemble_length [OF tok p(1,3)]
      by (auto simp: on_disk_def t1_def data_def)
    have "received t pieceIdx a recv ?q (t3\<lparr>heap := (heap t)[a := ?q], dslots := (dslots t)[pieceIdx := None]\<rparr>)"
      using b t3(2) fs(2) by (intro received.checked [OF a(1) q _ here]) (simp_all add: fs(1) t1_def)
    moreover have "files fs (piece_file (DownloadDir t) (pIndex p)) = Some data"
      using Flush_Ok [of "e_fs env" t1 "pIndex p" data t2] fl True fs(1) by (simp add: t1_def)
    moreover have "have_set b = insert ?i (have_set (BitField t))"
      using have_set_Set_piece [OF _ b] wf lt by (simp add: tracker_wf_def)
    ultimately show ?thesis
      by (intro exI [of _ "t3\<lparr>heap := (heap t)[a := ?q], dslots := (dslots t)[pieceIdx := None]\<rparr>"] exI [of _ ?q])
        (simp add: run [unfolded t1_def] fr fs(1) t1_def)
  qed
qed

text \<open>A block that is taken in belongs to an active piece and is not empty.\<close>

lemma accepted_active:
  assumes inv: "dl_inv (t, s)" and a: "a < length (heap t)"
    and acc: "IndexFunc (\<lambda>r. treq r = request_of recv) (InFlight (heap t ! a)) = Some req"
      "\<not> list_ex (\<lambda>other. duplicate other recv) (Received (heap t ! a))" "length (pc_block recv) < 2 ^ 32"
  shows "a \<in> active t"
proof (rule ccontr)
  assume "a \<notin> active t"
  have tok: "torrent_ok (Torrent t)" and p: "piece_inv (Torrent t) (heap t ! a)"
    using inv a by (auto simp: dl_inv_def tracker_wf_def)
  have "pDownloaded (heap t ! a) = pSize (heap t ! a)"
    using inv a \<open>a \<notin> active t\<close> by (auto simp: dl_inv_def stale_complete_def)
  moreover have "pDownloaded (heap t ! a) + int (length (pc_block recv)) \<le> pSize (heap t ! a)"
    using accept_inv(2) [OF tok p acc] by (simp add: accept_def)
  ultimately have "length (pc_block recv) = 0" by simp
  moreover have "request_of recv \<in> set (map treq (InFlight (heap t ! a)))"
    using IndexFunc_SomeD [OF acc(1)] by (metis length_map nth_map nth_mem)
  then have "request_of recv \<in># mset (blocks_of (Torrent t) (heap t ! a))"
    using p unfolding piece_inv_def by (metis set_mset_mset union_iff)
  then have "0 < unat (req_length (request_of recv))"
    using block_list_positive(1) [OF piece_inv_size(1) [OF tok p]] by simp
  ultimately show False by (simp add: request_of_def)
qed

lemma recv_locked_accepts:
  assumes inv: "dl_inv (t, s)" and a: "a < length (heap t)"
    and recv: "pIndex (heap t ! a) = pc_index recv" "length (pc_block recv) < 2 ^ 32"
    and acc: "IndexFunc (\<lambda>r. treq r = request_of recv) (InFlight (heap t ! a)) = Some req"
      "\<not> list_ex (\<lambda>other. duplicate other recv) (Received (heap t ! a))"
  defines "q \<equiv> accept (heap t ! a) req recv"
    and "t1 \<equiv> t\<lparr>tDownloaded := tDownloaded t + (pDownloaded (accept (heap t ! a) req recv) - pDownloaded (heap t ! a))\<rparr>"
  shows "recv_locked env pieceIdx a recv t =
    (if pDownloaded q = pSize q then finish_piece env pieceIdx a (pIndex q) q t1 else Ok (t1\<lparr>heap := (heap t)[a := q]\<rparr>))"
    and "piece_inv (Torrent t) q" and "pIndex q = pIndex (heap t ! a)" and "pDownloaded q \<le> pSize q"
    and "Received q = Received (heap t ! a) @ [recv]"
proof -
  let ?p = "heap t ! a" and ?n = "int (length (pc_block recv))"
  have tok: "torrent_ok (Torrent t)" and p: "piece_inv (Torrent t) ?p"
    using inv a by (auto simp: dl_inv_def tracker_wf_def)
  show q: "piece_inv (Torrent t) q" "pIndex q = pIndex ?p" "Received q = Received ?p @ [recv]"
    using accept_inv(1) [OF tok p acc recv(2)] by (simp_all add: accept_def q_def)
  show le: "pDownloaded q \<le> pSize q" using accept_inv(2) [OF tok p acc recv(2)] by (simp add: q_def accept_def)
  have "0 \<le> pDownloaded ?p" "pSize ?p < 2 ^ 32" using p piece_inv_size [OF tok p] by (auto simp: piece_inv_def)
  then have "i64 (pDownloaded ?p + ?n) = pDownloaded ?p + ?n" "i64 (tDownloaded t + ?n) = tDownloaded t + ?n"
    using le downloaded_bound [OF inv] total_size_bound [OF tok] recv(2)
    by (intro i64_id; simp add: in_i64_def q_def accept_def)+
  then show "recv_locked env pieceIdx a recv t =
    (if pDownloaded q = pSize q then finish_piece env pieceIdx a (pIndex q) q t1 else Ok (t1\<lparr>heap := (heap t)[a := q]\<rparr>))"
    using acc le recv(1) by (simp add: recv_locked_def Let_def q_def t1_def accept_def) (metis add_diff_cancel_left')
qed

lemma recv_locked_received:
  assumes inv: "dl_inv (t, s)" and env: "env_ok env" and a: "a < length (heap t)"
    and slot: "a \<in> active t \<longrightarrow> dslots t ! pieceIdx = Some a"
    and recv: "pIndex (heap t ! a) = pc_index recv" "length (pc_block recv) < 2 ^ 32"
  shows "\<exists>t' p. recv_locked env pieceIdx a recv t = Ok t' \<and> received t pieceIdx a recv p t'"
proof (cases "IndexFunc (\<lambda>r. treq r = request_of recv) (InFlight (heap t ! a)) = None
    \<or> list_ex (\<lambda>other. duplicate other recv) (Received (heap t ! a))")
  case True
  then have "recv_locked env pieceIdx a recv t = Ok t" by (auto simp: recv_locked_def Let_def split: option.splits)
  then show ?thesis using received.ignored by blast
next
  case False
  then obtain req where acc: "IndexFunc (\<lambda>r. treq r = request_of recv) (InFlight (heap t ! a)) = Some req"
    "\<not> list_ex (\<lambda>other. duplicate other recv) (Received (heap t ! a))" by auto
  let ?q = "accept (heap t ! a) req recv"
  have act: "a \<in> active t" using accepted_active [OF inv a acc recv(2)] .
  note q = recv_locked_accepts [OF inv a recv acc]
  show ?thesis
  proof (cases "pDownloaded ?q = pSize ?q")
    case True
    from finish_piece_received [OF inv env act _ q(2,3) True, of pieceIdx recv] slot act
    show ?thesis unfolding q(1) if_P [OF True] by blast
  next
    case False
    then have "pDownloaded ?q < pSize ?q" using q(4) by simp
    let ?d = "tDownloaded t + (pDownloaded ?q - pDownloaded (heap t ! a))"
    have "t\<lparr>tDownloaded := ?d, heap := (heap t)[a := ?q]\<rparr> = t\<lparr>heap := (heap t)[a := ?q], tDownloaded := ?d, disk := disk t\<rparr>"
      by (cases t) simp
    with received.stored [where pieceIdx = pieceIdx, OF act q(2,3) \<open>pDownloaded ?q < pSize ?q\<close> q(5)]
    show ?thesis unfolding q(1) if_not_P [OF False] by metis
  qed
qed

lemma recv_locked_inv:
  assumes "dl_inv (t, s)" and "env_ok env" and "a < length (heap t)"
    and "a \<in> active t \<longrightarrow> pieceIdx < length (dslots t) \<and> dslots t ! pieceIdx = Some a"
    and "pIndex (heap t ! a) = pc_index recv" "length (pc_block recv) < 2 ^ 32"
  shows "\<exists>t'. recv_locked env pieceIdx a recv t = Ok t' \<and> dl_inv (t', s)"
  using recv_locked_received [OF assms(1-3) _ assms(5,6), of pieceIdx] received_inv [OF _ assms(1,3,4)] assms(4) by blast

lemma find_slot_SomeD:
  "find_slot idx k ss t = Some (i, a) \<Longrightarrow> k \<le> i \<and> i < k + length ss \<and> ss ! (i - k) = Some a \<and> pIndex (heap t ! a) = idx"
proof (induction idx k ss t rule: find_slot.induct)
  case (2 idx k ss t)
  then have "Suc k \<le> i" "i < Suc k + length ss" "ss ! (i - Suc k) = Some a" "pIndex (heap t ! a) = idx" by auto
  moreover from this have "i - k = Suc (i - Suc k)" by simp
  ultimately show ?case by simp
next
  case (3 idx k b ss t)
  show ?case
  proof (cases "pIndex (heap t ! b) = idx")
    case True
    with 3 show ?thesis by simp
  next
    case False
    with 3 have "Suc k \<le> i" "i < Suc k + length ss" "ss ! (i - Suc k) = Some a" "pIndex (heap t ! a) = idx" by auto
    moreover from this have "i - k = Suc (i - Suc k)" by simp
    ultimately show ?thesis by simp
  qed
qed simp

section \<open>The machine\<close>

text \<open>What the other goroutines of the tracker do to the fields the download does not own.\<close>

definition around :: "StatusTracker \<Rightarrow> StatusTracker \<Rightarrow> bool" where
  "around t t' \<longleftrightarrow> swarm_ok t'
     \<and> t' = t\<lparr>peers := peers t', seeders := seeders t', leechers := leechers t', uslots := uslots t',
         tUploaded := tUploaded t', urate := urate t', stop := stop t', dcancel := dcancel t', disk := disk t'\<rparr>
     \<and> set (dirs (disk t)) \<subseteq> set (dirs (disk t'))
     \<and> (\<forall>f. f \<noteq> bitfield_file (DownloadDir t) \<longrightarrow> files (disk t') f = files (disk t) f)"

inductive dl_step :: "StatusTracker \<times> Scheduler \<Rightarrow> StatusTracker \<times> Scheduler \<Rightarrow> bool" where
  pass: "dl_step (t, s) (t', s)"
    if "running s" "env_ok env" "a < length (heap t)" "slot_pass env a t = Ok t'"
| plan: "dl_step (t, s) (t', s')"
    if "running s" "env_ok env" "freeSlots \<le> length (filter (\<lambda>x. x = None) (dslots t))"
      "next_piece env freeSlots (t, s) = Ok (t', s')"
| tick: "dl_step ts (rate_tick ts)" if "running (snd ts)"
| halt: "dl_step (t, s) (t, s\<lparr>running := False\<rparr>)" if "stop t = ClosedChan \<or> dcancel t = ClosedChan"
| recv: "dl_step (t, s) (t', s)"
    if "env_ok env" "a < length (heap t)" "pIndex (heap t ! a) = pc_index recv" "length (pc_block recv) < 2 ^ 32"
      "a \<in> active t \<longrightarrow> pieceIdx < length (dslots t) \<and> dslots t ! pieceIdx = Some a"
      "recv_locked env pieceIdx a recv t = Ok t'"

inductive dstep :: "StatusTracker \<times> Scheduler \<Rightarrow> StatusTracker \<times> Scheduler \<Rightarrow> bool" where
  own: "dstep ts ts'" if "dl_step ts ts'"
| other: "dstep (t, s) (t', s)" if "around t t'"

inductive_cases dstepE: "dstep ts ts'"

lemma all_free: "length (filter (\<lambda>x. x = None) xs) = length xs \<Longrightarrow> {a. Some a \<in> set xs} = {}"
  using length_filter_less [of "Some a" xs "\<lambda>x. x = None" for a] by force

lemma around_frame:
  assumes "around t t'"
  shows "Torrent t' = Torrent t" "BitField t' = BitField t" "heap t' = heap t" "dslots t' = dslots t"
    "tDownloaded t' = tDownloaded t" "DownloadDir t' = DownloadDir t" "completed t' = completed t"
proof -
  have eq: "t' = t\<lparr>peers := peers t', seeders := seeders t', leechers := leechers t', uslots := uslots t',
      tUploaded := tUploaded t', urate := urate t', stop := stop t', dcancel := dcancel t', disk := disk t'\<rparr>"
    using assms unfolding around_def by blast
  show "Torrent t' = Torrent t" "BitField t' = BitField t" "heap t' = heap t" "dslots t' = dslots t"
    "tDownloaded t' = tDownloaded t" "DownloadDir t' = DownloadDir t" "completed t' = completed t"
    by (subst eq, simp)+
qed

lemma dl_inv_around:
  assumes "dl_inv (t, s)" and "around t t'"
  shows "dl_inv (t', s)"
proof -
  note fr = around_frame [OF assms(2)]
  have act: "active t' = active t" by (simp add: active_def fr)
  have "on_disk t' i" if "on_disk t i" for i
    using that assms(2) by (auto simp: on_disk_def around_def fr)
  then show ?thesis
    using assms unfolding dl_inv_def tracker_wf_def slots_ok_def partitioned_def accounted_def stale_complete_def
      active_pieces_def
    by (simp add: fr act) (simp add: around_def)
qed

lemma dl_inv_rate:
  "dl_inv (t, s) \<Longrightarrow> dl_inv (t\<lparr>drate := d\<rparr>, s\<lparr>currentRate := r\<rparr>)"
  unfolding dl_inv_def tracker_wf_def slots_ok_def swarm_ok_def partitioned_def accounted_def stale_complete_def
    active_pieces_def active_def on_disk_def by simp

lemma dl_step_inv:
  assumes "dl_step ts ts'" and "dl_inv ts"
  shows "dl_inv ts'"
  using assms
proof cases
  case (pass s env a t t')
  then show ?thesis using slot_pass_inv [of t s env a] assms(2) by auto
next
  case (plan s env freeSlots t t' s')
  have "freeSlots = length (dslots t) \<longrightarrow> active t = {}"
    using plan(5) all_free [of "dslots t"] length_filter_le [of "\<lambda>x. x = None" "dslots t"]
    unfolding active_def by (metis le_antisym)
  then show ?thesis using next_piece_inv [of t s env freeSlots] plan assms(2) by auto
next
  case tick
  then show ?thesis
    using dl_inv_rate [of "fst ts" "snd ts"] assms(2) by (simp add: rate_tick_def split_def)
next
  case (halt t s)
  then show ?thesis using assms(2) by (simp add: dl_inv_def partitioned_def)
next
  case (recv env a t rc pieceIdx t' s)
  then show ?thesis using recv_locked_inv [of t s env a pieceIdx rc] assms(2) by auto
qed

lemma dstep_inv: "dstep ts ts' \<Longrightarrow> dl_inv ts \<Longrightarrow> dl_inv ts'"
  by (elim dstepE) (auto intro: dl_step_inv dl_inv_around)

interpretation dl: step_invariant dstep dl_inv
  by unfold_locales (rule dstep_inv)

text \<open>
  The counter \<^verbatim>\<open>Downloaded\<close> is read without a lock. The last block of a piece adds its bytes before the hash of the
  piece is checked, and the piece is stored or its bytes are taken back only later, so a reader can also
  see the counter with the missing bytes of pieces in slots whose last block is being handled.
\<close>

definition visible :: "StatusTracker \<Rightarrow> int64 \<Rightarrow> bool" where
  "visible t d \<longleftrightarrow> (\<exists>S \<subseteq> active t. d = tDownloaded t + (\<Sum>a \<in> S. pSize (heap t ! a) - pDownloaded (heap t ! a)))"

lemma visible_settled: "visible t (tDownloaded t)"
  unfolding visible_def by (rule exI [of _ "{}"]) simp

lemma active_remaining:
  assumes "dl_inv (t, s)" and "a \<in> active t"
  shows "0 \<le> pDownloaded (heap t ! a)" and "pDownloaded (heap t ! a) < pSize (heap t ! a)"
    and "pSize (heap t ! a) = int (piece_size (Torrent t) (unat (pIndex (heap t ! a))))"
proof -
  have wf: "tracker_wf t" using assms(1) by (simp add: dl_inv_def)
  note al = active_valid [OF wf assms(2)]
  from heap_piece_inv [OF wf al] assms al
  show "0 \<le> pDownloaded (heap t ! a)" "pDownloaded (heap t ! a) < pSize (heap t ! a)"
    "pSize (heap t ! a) = int (piece_size (Torrent t) (unat (pIndex (heap t ! a))))"
    by (auto simp: piece_inv_def dl_inv_def stale_complete_def)
qed

lemma slots_fit:
  assumes "dl_inv (t, s)"
  shows "tDownloaded t + (\<Sum>a \<in> active t. pSize (heap t ! a) - pDownloaded (heap t ! a)) \<le> int (total_size (Torrent t))"
proof -
  let ?m = "Torrent t" and ?H = "have_set (BitField t)" and ?idx = "\<lambda>a. unat (pIndex (heap t ! a))"
  have m: "torrent_ok ?m" and part: "disjoint_cover ?H (active_pieces t) (unat ` set (unverified s)) {..<num_pieces ?m}"
    and inj: "inj_on ?idx (active t)"
    using assms by (auto simp: dl_inv_def tracker_wf_def partitioned_def slots_ok_def inj_on_def dest!: unat_injD)
  have fin: "finite ?H" "finite (active_pieces t)" by (auto simp: have_set_def active_pieces_def)
  have "(\<Sum>a \<in> active t. pSize (heap t ! a)) = int (\<Sum>i \<in> active_pieces t. piece_size ?m i)"
    unfolding active_pieces_def using active_remaining(3) [OF assms] by (simp add: sum.reindex [OF inj] comp_def)
  moreover have "(\<Sum>i \<in> ?H. piece_size ?m i) + (\<Sum>i \<in> active_pieces t. piece_size ?m i) \<le> total_size ?m"
    using sum.union_disjoint [OF fin, of "piece_size ?m"] sum_pieces_le [OF m, of "?H \<union> active_pieces t"] part
    by (auto simp: disjoint_cover_def)
  ultimately show ?thesis
    using assms by (simp add: dl_inv_def accounted_def sum_subtractf del: of_nat_sum)
qed

lemma visible_bound:
  assumes "dl_inv (t, s)" and "visible t d"
  shows "0 \<le> d" and "d \<le> int (total_size (Torrent t))"
proof -
  let ?rest = "\<lambda>a. pSize (heap t ! a) - pDownloaded (heap t ! a)"
  from assms(2) obtain S where S: "S \<subseteq> active t" "d = tDownloaded t + (\<Sum>a \<in> S. ?rest a)" by (auto simp: visible_def)
  have "0 \<le> (\<Sum>a \<in> S. ?rest a)" using active_remaining(2) [OF assms(1)] S(1) by (intro sum_nonneg) force
  then show "0 \<le> d" using downloaded_bound(1) [OF assms(1)] S(2) by simp
  have "(\<Sum>a \<in> S. ?rest a) \<le> (\<Sum>a \<in> active t. ?rest a)"
    using active_remaining(2) [OF assms(1)] S(1) by (intro sum_mono2) force+
  then show "d \<le> int (total_size (Torrent t))" using slots_fit [OF assms(1)] S(2) by simp
qed

section \<open>The start\<close>

lemma NewTracker_spec:
  assumes "torrent_ok m" and "NewTracker env cid m downloadDir fs = Ok t"
  shows "\<exists>b. bf_wf b \<and> bf_count b = num_pieces m
    \<and> t = (fresh_tracker cid m b (saved_dir downloadDir m) fs)\<lparr>tDownloaded := int (\<Sum>i \<in> have_set b. piece_size m i)\<rparr>"
proof -
  have n: "NumPieces m = Ok (int (num_pieces m))" and le: "num_pieces m \<le> 2 ^ 32"
    using assms(1) by (auto simp: torrent_ok_def)
  obtain b where b: "NewBitfield (int (num_pieces m)) = Ok b" using NewBitfield_total [of "int (num_pieces m)"] by auto
  have wf: "bf_wf b" "numPieces b = int (num_pieces m)"
    using NewBitfield_wf [OF _ _ b] le b by (auto simp: NewBitfield_def Let_def split: if_splits)
  from assms(2) obtain saved where "read_bitfield env (saved_dir downloadDir m) (Len b) fs = Ok saved"
    and run: "(case saved of None \<Rightarrow> Ok (fresh_tracker cid m b (saved_dir downloadDir m) fs)
      | Some r \<Rightarrow> obind (Overwrite b r) (\<lambda>b'. obind (ExistingPieces b') (\<lambda>pcs. obind (add_existing m pcs 0) (\<lambda>d.
          Ok ((fresh_tracker cid m b (saved_dir downloadDir m) fs)\<lparr>BitField := b', tDownloaded := d\<rparr>))))) = Ok t"
    by (auto simp: NewTracker_def n b Let_def outcome_simps)
  show ?thesis
  proof (cases saved)
    case None
    have "have_set b = {}" using NewBitfield_empty [OF _ _ b] le wf bf.count_bound [OF wf(1)]
      by (auto simp: have_set_def bf_count_def unat_of_nat_u32)
    with None run wf show ?thesis by (intro exI [of _ b]) (auto simp: bf_count_def fresh_tracker_def)
  next
    case (Some r)
    from run Some obtain b' pcs d where
      b': "Overwrite b r = Ok b'" "ExistingPieces b' = Ok pcs" "add_existing m pcs 0 = Ok d"
      and t: "t = (fresh_tracker cid m b (saved_dir downloadDir m) fs)\<lparr>BitField := b', tDownloaded := d\<rparr>"
      by (auto simp: outcome_simps)
    have wf': "bf_wf b'" "bf_count b' = num_pieces m"
      using Overwrite_wf [OF wf(1) b'(1)] wf(2) by (auto simp: bf_count_def)
    then have sub: "have_set b' \<subseteq> {..<num_pieces m}" by (auto simp: have_set_def)
    from existing_pieces [OF wf'(1)] b'(2) have pcs: "distinct pcs" "unat ` set pcs = have_set b'" by auto
    then have "\<forall>i \<in> set pcs. unat i < num_pieces m" using sub by auto
    from add_existing_sum [OF assms(1) pcs(1) this, of 0] sum_pieces_le [OF assms(1) sub] total_size_bound [OF assms(1)]
    have "d = int (\<Sum>i \<in> have_set b'. piece_size m i)" using b'(3) pcs(2) by (simp del: of_nat_sum)
    with t wf' show ?thesis by (intro exI [of _ b']) (simp add: fresh_tracker_def)
  qed
qed

lemma start_inv:
  assumes "torrent_ok m" and "NewTracker env cid m downloadDir fs = Ok t" and "scheduler_init t = Ok s"
    and "\<forall>i \<in> have_set (BitField t). on_disk t i"
  shows "dl_inv (t, s)" and "Torrent t = m"
proof -
  from NewTracker_spec [OF assms(1,2)] obtain b where b: "bf_wf b" "bf_count b = num_pieces m"
    and t: "t = (fresh_tracker cid m b (saved_dir downloadDir m) fs)\<lparr>tDownloaded := int (\<Sum>i \<in> have_set b. piece_size m i)\<rparr>"
    by blast
  show "Torrent t = m" by (simp add: t)
  from missing_pieces [OF b(1)] assms(3) have s: "distinct (unverified s)"
    "unat ` set (unverified s) = {..<num_pieces m} - have_set b"
    by (auto simp: scheduler_init_def t outcome_simps b(2))
  have "have_set b \<subseteq> {..<num_pieces m}" using b(2) by (auto simp: have_set_def)
  then have "disjoint_cover (have_set b) {} (unat ` set (unverified s)) {..<num_pieces m}"
    unfolding s(2) disjoint_cover_def by blast
  moreover have "active t = {}" by (auto simp: active_def t)
  moreover have "slots_ok t" unfolding slots_ok_def \<open>active t = {}\<close> by (simp add: t nth_Cons' numeral_eq_Suc)
  ultimately show "dl_inv (t, s)"
    using assms(1,4) b s(1)
    by (simp add: dl_inv_def tracker_wf_def partitioned_def accounted_def stale_complete_def swarm_ok_def
        active_pieces_def t del: of_nat_sum)
qed

section \<open>Rounds as sequences of steps\<close>

lemma slots_pass_reach:
  assumes "dl_inv (t, s)" and "running s" and "env_ok env" and "\<forall>a. Some a \<in> set ss \<longrightarrow> a < length (heap t)"
  shows "\<exists>t'. slots_pass env ss t k = Ok (t', k + length (filter (\<lambda>x. x = None) ss))
    \<and> rtranclp dstep (t, s) (t', s) \<and> dslots t' = dslots t"
  using assms(1,4)
proof (induction ss arbitrary: t k)
  case (Cons x ss)
  show ?case
  proof (cases x)
    case None
    with Cons.IH [OF Cons.prems(1), of "Suc k"] Cons.prems(2) show ?thesis by auto
  next
    case (Some a)
    then have a: "a < length (heap t)" using Cons.prems(2) by simp
    from slot_pass_inv [OF Cons.prems(1) assms(3) a] obtain t1 where
      t1: "slot_pass env a t = Ok t1" "dl_inv (t1, s)" "dslots t1 = dslots t" "length (heap t1) = length (heap t)" by blast
    have "dstep (t, s) (t1, s)" using dl_step.pass dstep.own assms(2,3) a t1(1) by blast
    with Cons.IH [OF t1(2), of k] Cons.prems(2) Some t1 show ?thesis
      by (auto intro: converse_rtranclp_into_rtranclp)
  qed
qed simp

lemma scheduler_round_reach:
  assumes "dl_inv (t, s)" and "running s" and "env_ok env"
  shows "\<exists>t' s'. scheduler_round env (t, s) = Ok (t', s') \<and> rtranclp dstep (t, s) (t', s')"
proof -
  have "\<forall>a. Some a \<in> set (dslots t) \<longrightarrow> a < length (heap t)"
    using active_valid assms(1) by (simp add: dl_inv_def active_def)
  from slots_pass_reach [OF assms this, of 0] obtain t1 where
    t1: "slots_pass env (dslots t) t 0 = Ok (t1, length (filter (\<lambda>x. x = None) (dslots t)))"
      "rtranclp dstep (t, s) (t1, s)" "dslots t1 = dslots t" by auto
  let ?free = "length (filter (\<lambda>x. x = None) (dslots t1))"
  have inv: "dl_inv (t1, s)" using dl.reach_inv [OF t1(2) assms(1)] .
  have "?free = length (dslots t1) \<longrightarrow> active t1 = {}" using all_free [of "dslots t1"] by (simp add: active_def)
  from next_piece_inv [OF inv assms(3,2) this] obtain t2 s2 where
    t2: "next_piece env ?free (t1, s) = Ok (t2, s2)" by blast
  then have "dstep (t1, s) (t2, s2)" using dl_step.plan dstep.own assms(2,3) by blast
  with t1 t2 show ?thesis by (auto simp: scheduler_round_def intro: rtranclp.rtrancl_into_rtrancl)
qed

lemma recv_piece_reach:
  assumes "dl_inv (t, s)" and "env_ok env" and "length (pc_block recv) < 2 ^ 32"
  shows "\<exists>t'. recv_piece env recv t = Ok t' \<and> rtranclp dstep (t, s) (t', s)"
proof (cases "find_slot (pc_index recv) 0 (dslots t) t")
  case None
  then show ?thesis by (simp add: recv_piece_def)
next
  case (Some ia)
  obtain i a where ia: "ia = (i, a)" by force
  have f: "i < length (dslots t)" "dslots t ! i = Some a" "pIndex (heap t ! a) = pc_index recv"
    using find_slot_SomeD [of "pc_index recv" 0 "dslots t" t i a] Some ia by auto
  then have "a \<in> active t" by (metis active_def mem_Collect_eq nth_mem)
  then have a: "a < length (heap t)" using active_valid assms(1) by (simp add: dl_inv_def)
  from recv_locked_inv [OF assms(1,2) a _ f(3) assms(3), of i] f obtain t' where
    "recv_locked env i a recv t = Ok t'" by blast
  moreover from this have "dstep (t, s) (t', s)" using dl_step.recv dstep.own assms(2,3) a f by blast
  ultimately show ?thesis using Some ia by (auto simp: recv_piece_def)
qed

section \<open>The abstract download\<close>

text \<open>
  What a download promises: a store of pieces that only grows, where a piece is stored only if it was
  being fetched and its bytes have the size and the hash of the torrent file.
\<close>

record Spec =
  stored :: "nat \<rightharpoonup> bytes"
  fetching :: "nat set"
  waiting :: "nat set"

inductive spec_step :: "MetaInfoFile \<Rightarrow> Spec \<Rightarrow> Spec \<Rightarrow> bool" for m where
  fetch: "spec_step m x (x\<lparr>fetching := insert i (fetching x), waiting := waiting x - {i}\<rparr>)"
    if "i \<in> waiting x"
| verify: "spec_step m x (x\<lparr>stored := (stored x)(i \<mapsto> d), fetching := fetching x - {i}\<rparr>)"
    if "i \<in> fetching x" "stored x i = None" "length d = piece_size m i" "sha1 d = hash_of m i"

definition stored_pieces :: "StatusTracker \<Rightarrow> nat \<rightharpoonup> bytes" where
  "stored_pieces t i =
     (if i \<in> have_set (BitField t) then files (disk t) (piece_file (DownloadDir t) (of_nat i)) else None)"

definition abs_dl :: "StatusTracker \<times> Scheduler \<Rightarrow> Spec" where
  "abs_dl = (\<lambda>(t, s). \<lparr>stored = stored_pieces t, fetching = active_pieces t, waiting = unat ` set (unverified s)\<rparr>)"

definition dl_inv_for :: "MetaInfoFile \<Rightarrow> StatusTracker \<times> Scheduler \<Rightarrow> bool" where
  "dl_inv_for m ts \<longleftrightarrow> dl_inv ts \<and> Torrent (fst ts) = m"

lemma stored_core: "core t' = core t \<Longrightarrow> stored_pieces t' = stored_pieces t"
  by (rule ext) (simp add: stored_pieces_def core_def)

lemma stored_frame:
  assumes "dl_inv (t, s)" and "unat idx \<notin> have_set (BitField t)" and "disk_frame t idx (disk t')"
    and "BitField t' = BitField t" and "DownloadDir t' = DownloadDir t"
  shows "stored_pieces t' = stored_pieces t"
proof
  fix i
  have "of_nat i \<noteq> idx" if i: "i \<in> have_set (BitField t)"
  proof
    assume "of_nat i = idx"
    then have "unat idx = i" using have_set_bound [OF _ i] assms(1) unat_of_nat_u32 by (auto simp: dl_inv_def)
    with assms(2) i show False by simp
  qed
  then show "stored_pieces t' i = stored_pieces t i"
    using assms(3-5) by (simp add: stored_pieces_def disk_frame_def)
qed

lemma active_not_stored: "dl_inv (t, s) \<Longrightarrow> a \<in> active t \<Longrightarrow> unat (pIndex (heap t ! a)) \<notin> have_set (BitField t)"
  by (auto simp: dl_inv_def partitioned_def disjoint_cover_def active_pieces_def)

lemma active_pieces_update:
  assumes "a < length (heap t)" and "pIndex p = pIndex (heap t ! a)" and "dslots t' = dslots t" and "heap t' = (heap t)[a := p]"
  shows "active_pieces t' = active_pieces t"
  using heap_update_index [OF assms(1,2)] assms(3,4) by (simp add: active_pieces_def active_def)

lemma received_follows:
  assumes rec: "received t pieceIdx a recv p t'" and inv: "dl_inv (t, s)" and a: "a < length (heap t)"
    and slot: "a \<in> active t \<longrightarrow> pieceIdx < length (dslots t) \<and> dslots t ! pieceIdx = Some a"
  shows "rtranclp (spec_step (Torrent t)) (abs_dl (t, s)) (abs_dl (t', s)) \<and> Torrent t' = Torrent t"
  using rec
proof cases
  case stored
  have "active_pieces t' = active_pieces t" using stored by (intro active_pieces_update [OF a stored(4)]) auto
  moreover have "stored_pieces t' = stored_pieces t" using stored(1) by (intro stored_core) (simp add: core_def)
  ultimately show ?thesis using stored(1) by (simp add: abs_dl_def)
next
  case (retried fs)
  have "active_pieces t' = active_pieces t" using retried by (intro active_pieces_update [OF a retried(4)]) auto
  moreover have "stored_pieces t' = stored_pieces t"
    using retried active_not_stored [OF inv retried(2)] by (intro stored_frame [OF inv, of "pIndex p"]) auto
  ultimately show ?thesis using retried(1) by (simp add: abs_dl_def)
next
  case (checked fs b t1)
  let ?i = "unat (pIndex p)"
  note fr = only_peers_frame [OF checked(9), simplified]
  have wf: "tracker_wf t" using inv by (simp add: dl_inv_def)
  from checked(7) obtain d where d: "files fs (piece_file (DownloadDir t) (pIndex p)) = Some d"
      "length d = piece_size (Torrent t) ?i" "sha1 d = hash_of (Torrent t) ?i" by (auto simp: on_disk_def)
  have fetching: "?i \<in> active_pieces t" using checked(2,4) by (auto simp: active_pieces_def)
  have new: "?i \<notin> have_set (BitField t)" using active_not_stored [OF inv checked(2)] checked(4) by simp
  have hb: "have_set b = insert ?i (have_set (BitField t))"
    using have_set_Set_piece [OF _ checked(8)] wf checked(3) by (auto simp: tracker_wf_def piece_inv_def)
  have "inj_on (\<lambda>a. pIndex (heap t ! a)) (active t)" using wf by (simp add: tracker_wf_def slots_ok_def)
  then have "active_pieces t' = active_pieces t - {?i}"
    using active_clear [of t pieceIdx a] slot checked(2) wf heap_update_index [OF a checked(4)] checked(4)
    by (simp add: active_pieces_def checked(1) tracker_wf_def) (auto simp: inj_on_def dest!: unat_injD)
  moreover have "stored_pieces t' = (stored_pieces t)(?i \<mapsto> d)"
  proof
    fix j
    show "stored_pieces t' j = ((stored_pieces t)(?i \<mapsto> d)) j"
    proof (cases "j = ?i")
      case True
      then show ?thesis using d hb by (simp add: stored_pieces_def checked(1) fr)
    next
      case False
      have "of_nat j \<noteq> pIndex p" if "j \<in> have_set (BitField t)"
        using have_set_bound [OF wf that] unat_of_nat_u32 [of j] False by metis
      with False hb checked(6) show ?thesis by (simp add: stored_pieces_def checked(1) fr disk_frame_def)
    qed
  qed
  ultimately have "abs_dl (t', s) = (abs_dl (t, s))\<lparr>stored := (stored (abs_dl (t, s)))(?i \<mapsto> d), fetching := fetching (abs_dl (t, s)) - {?i}\<rparr>"
    by (simp add: abs_dl_def)
  moreover have "spec_step (Torrent t) (abs_dl (t, s)) ((abs_dl (t, s))\<lparr>stored := (stored (abs_dl (t, s)))(?i \<mapsto> d),
      fetching := fetching (abs_dl (t, s)) - {?i}\<rparr>)"
    using fetching new d(2,3) by (intro spec_step.verify) (simp_all add: abs_dl_def stored_pieces_def)
  ultimately show ?thesis by (auto simp: checked(1) fr)
qed simp

lemma dl_step_follows:
  assumes "dl_step ts ts'" and "dl_inv ts"
  shows "rtranclp (spec_step (Torrent (fst ts))) (abs_dl ts) (abs_dl ts') \<and> Torrent (fst ts') = Torrent (fst ts)"
  using assms
proof cases
  case (pass s env a t t')
  then have "dslots t' = dslots t" "core t' = core t" "\<forall>b. pIndex (heap t' ! b) = pIndex (heap t ! b)"
    using slot_pass_inv [of t s env a] assms(2) by auto
  then show ?thesis
    using stored_core [of t' t] pass(1,2) by (simp add: abs_dl_def active_pieces_def active_def core_def)
next
  case (plan s env freeSlots t t' s')
  have "freeSlots = length (dslots t) \<longrightarrow> active t = {}"
    using plan(5) all_free [of "dslots t"] length_filter_le [of "\<lambda>x. x = None" "dslots t"]
    unfolding active_def by (metis le_antisym)
  with next_piece_inv [of t s env freeSlots] plan assms(2) have c: "core t' = core t"
    and or: "active_pieces t' = active_pieces t \<and> unverified s' = unverified s
      \<or> (\<exists>idx \<in> set (unverified s). active_pieces t' = insert (unat idx) (active_pieces t)
          \<and> unverified s' = removeAll idx (unverified s))" by auto
  have "rtranclp (spec_step (Torrent t)) (abs_dl (t, s)) (abs_dl (t', s'))"
    using or
  proof
    assume "active_pieces t' = active_pieces t \<and> unverified s' = unverified s"
    then show ?thesis using stored_core [OF c] by (simp add: abs_dl_def)
  next
    assume "\<exists>idx \<in> set (unverified s). active_pieces t' = insert (unat idx) (active_pieces t)
        \<and> unverified s' = removeAll idx (unverified s)"
    then obtain idx where idx: "idx \<in> set (unverified s)" "active_pieces t' = insert (unat idx) (active_pieces t)"
      "unverified s' = removeAll idx (unverified s)" by blast
    have "unat ` set (removeAll idx (unverified s)) = unat ` set (unverified s) - {unat idx}"
      by (auto dest: unat_injD)
    then have "abs_dl (t', s') = (abs_dl (t, s))\<lparr>fetching := insert (unat idx) (fetching (abs_dl (t, s))),
        waiting := waiting (abs_dl (t, s)) - {unat idx}\<rparr>"
      using idx stored_core [OF c] by (simp add: abs_dl_def)
    then show ?thesis
      using spec_step.fetch [of "unat idx" "abs_dl (t, s)" "Torrent t"] idx(1) by (auto simp: abs_dl_def)
  qed
  with c plan(1,2) show ?thesis by (simp add: core_def)
next
  case tick
  then show ?thesis
    using stored_core [of "(fst ts)\<lparr>drate := r\<rparr>" "fst ts" for r]
    by (cases ts) (simp add: rate_tick_def abs_dl_def active_pieces_def active_def core_def)
next
  case (halt t s)
  then show ?thesis by (simp add: abs_dl_def)
next
  case (recv env a t rc pieceIdx t' s)
  from recv_locked_received [of t s env a pieceIdx rc] recv assms(2) obtain p where "received t pieceIdx a rc p t'" by auto
  from received_follows [OF this, of s] recv assms(2) show ?thesis by simp
qed

lemma dstep_follows:
  assumes "dstep ts ts'" and "dl_inv ts"
  shows "rtranclp (spec_step (Torrent (fst ts))) (abs_dl ts) (abs_dl ts') \<and> Torrent (fst ts') = Torrent (fst ts)"
  using assms(1)
proof cases
  case own
  then show ?thesis using assms(2) by (rule dl_step_follows)
next
  case (other t t' s)
  note fr = around_frame [OF other(3)]
  have "files (disk t') (piece_file (DownloadDir t) i) = files (disk t) (piece_file (DownloadDir t) i)" for i
    using other(3) by (simp add: around_def)
  then have "stored_pieces t' = stored_pieces t" by (simp add: fun_eq_iff stored_pieces_def fr)
  with fr other(1,2) show ?thesis by (simp add: abs_dl_def active_pieces_def active_def)
qed

interpretation dl_spec: simulation dstep "dl_inv_for m" "spec_step m" abs_dl for m
proof unfold_locales
  show "dl_inv_for m s'" if "dl_inv_for m s" "dstep s s'" for s s'
    using that dstep_inv [of s s'] dstep_follows [of s s'] by (simp add: dl_inv_for_def)
  show "rtranclp (spec_step m) (abs_dl s) (abs_dl s')" if "dl_inv_for m s" "dstep s s'" for s s'
    using that dstep_follows [of s s'] by (simp add: dl_inv_for_def)
qed

lemma spec_grows: "rtranclp (spec_step m) x y \<Longrightarrow> stored x \<subseteq>\<^sub>m stored y"
proof (induction rule: rtranclp_induct)
  case (step y z)
  from step(2) have "stored y \<subseteq>\<^sub>m stored z" by cases (auto simp: map_le_def)
  with step(3) show ?case by (rule map_le_trans)
qed (simp add: map_le_refl)

lemma dstep_dir:
  assumes "dl_inv ts" and "dstep ts ts'"
  shows "DownloadDir (fst ts') = DownloadDir (fst ts)"
  using assms(2)
proof cases
  case own
  then show ?thesis
  proof cases
    case (pass s env a t t')
    then show ?thesis using slot_pass_inv [of t s env a] assms(1) by (auto simp: core_def)
  next
    case (plan s env freeSlots t t' s')
    then show ?thesis by (auto simp: next_piece_def start_piece_def outcome_simps split: if_splits option.splits)
  next
    case tick
    then show ?thesis by (cases ts) (simp add: rate_tick_def)
  next
    case (recv env a t rc pieceIdx t' s)
    from recv_locked_received [of t s env a pieceIdx rc] recv assms(1) obtain p where "received t pieceIdx a rc p t'" by auto
    then have "DownloadDir t' = DownloadDir t" by cases (auto simp: only_peers_def)
    with recv show ?thesis by simp
  qed simp
next
  case (other t t' s)
  then show ?thesis by (simp add: around_frame)
qed

section \<open>Delivery in any order\<close>

text \<open>
  A piece of which all blocks are requested, and arrivals \<open>ps\<close> that cover the ones still missing; there may be
  others among them, and the same one several times. All blocks are from the content \<open>d\<close>.
\<close>

definition awaiting :: "MetaInfoFile \<Rightarrow> bytes \<Rightarrow> Piece list \<Rightarrow> pendingPiece \<Rightarrow> bool" where
  "awaiting m d ps p \<longleftrightarrow> Pending p = [] \<and> list_all (honest d) (Received p)
     \<and> list_all (\<lambda>pc. honest d pc \<and> length (pc_block pc) < 2 ^ 32 \<and> pc_index pc = pIndex p) ps
     \<and> set_mset (open_requests p) \<subseteq> request_of ` set ps
     \<and> length d = piece_size m (unat (pIndex p)) \<and> sha1 d = hash_of m (unat (pIndex p))"

lemma find_slot_found:
  "i < length ss \<Longrightarrow> ss ! i = Some a \<Longrightarrow> pIndex (heap t ! a) = idx \<Longrightarrow>
     (\<And>j b. j < length ss \<Longrightarrow> ss ! j = Some b \<Longrightarrow> pIndex (heap t ! b) = idx \<Longrightarrow> j = i) \<Longrightarrow>
     find_slot idx k ss t = Some (k + i, a)"
proof (induction ss arbitrary: i k)
  case (Cons x ss)
  show ?case
  proof (cases i)
    case 0
    with Cons.prems show ?thesis by simp
  next
    case (Suc j)
    have "find_slot idx (Suc k) ss t = Some (Suc k + j, a)"
      using Cons.prems Suc by (intro Cons.IH) fastforce+
    moreover have "pIndex (heap t ! b) \<noteq> idx" if "x = Some b" for b using Cons.prems(4) [of 0 b] that Suc by auto
    ultimately show ?thesis using Suc by (cases x) auto
  qed
qed simp

lemma slot_unique:
  assumes "dl_inv (t, s)" and "i < length (dslots t)" and "dslots t ! i = Some a"
  shows "find_slot (pIndex (heap t ! a)) 0 (dslots t) t = Some (i, a)"
proof -
  have sl: "slots_ok t" using assms(1) by (simp add: dl_inv_def tracker_wf_def)
  have act: "b \<in> active t" if "j < length (dslots t)" "dslots t ! j = Some b" for j b
    using that unfolding active_def by (metis mem_Collect_eq nth_mem)
  have "j = i" if j: "j < length (dslots t)" "dslots t ! j = Some b" "pIndex (heap t ! b) = pIndex (heap t ! a)" for j b
  proof -
    have "b = a" using sl j(3) act [OF j(1,2)] act [OF assms(2,3)] by (auto simp: slots_ok_def inj_on_def)
    with sl j assms(2,3) show ?thesis by (auto simp: slots_ok_def)
  qed
  from find_slot_found [OF assms(2,3) refl this, where k = 0] show ?thesis by simp
qed

lemma IndexFunc_found: "x \<in> set xs \<Longrightarrow> f x \<Longrightarrow> \<exists>i. IndexFunc f xs = Some i"
  by (induction xs) auto

text \<open>No block is both open and received.\<close>

lemma open_not_received:
  assumes "torrent_ok m" and "piece_inv m p" and "r \<in># open_requests p"
  shows "r \<notin># received_requests p" and "count (open_requests p) r = 1"
proof -
  have "distinct (blocks_of m p)"
    using block_list_distinct [OF piece_inv_size(1) [OF assms(1,2)], of "pIndex p"] by (simp add: distinct_map)
  then have "count (open_requests p + received_requests p) r \<le> 1"
    unfolding piece_inv_blocks [OF assms(2)] by (simp add: distinct_count_atmost_1)
  then have "count (open_requests p) r + count (received_requests p) r \<le> 1" by (simp only: count_union)
  moreover have "0 < count (open_requests p) r" using assms(3) by (simp only: count_greater_zero_iff)
  ultimately have "count (open_requests p) r = 1 \<and> count (received_requests p) r = 0" by linarith
  then show "r \<notin># received_requests p" "count (open_requests p) r = 1" by (simp_all add: not_in_iff)
qed

lemma ignored_not_open:
  assumes "torrent_ok m" and "piece_inv m p" and "Pending p = []" and "length (pc_block pc) < 2 ^ 32"
    and "IndexFunc (\<lambda>r. treq r = request_of pc) (InFlight p) = None \<or> list_ex (\<lambda>other. duplicate other pc) (Received p)"
  shows "request_of pc \<notin># open_requests p"
  using assms(5)
proof
  assume none: "IndexFunc (\<lambda>r. treq r = request_of pc) (InFlight p) = None"
  show ?thesis
  proof
    assume "request_of pc \<in># open_requests p"
    then obtain r where "r \<in> set (InFlight p)" "treq r = request_of pc" by (auto simp: open_requests_def assms(3))
    then show False using IndexFunc_found [of r "InFlight p" "\<lambda>r. treq r = request_of pc"] none by auto
  qed
next
  assume "list_ex (\<lambda>other. duplicate other pc) (Received p)"
  then obtain other where other: "other \<in> set (Received p)" "duplicate other pc" by (auto simp: list_ex_iff)
  moreover have "length (pc_block other) < 2 ^ 32" using assms(2) other(1) by (simp add: piece_inv_def)
  ultimately have "request_of pc = request_of other" using duplicate_iff [of other pc] assms(4) by simp
  with other(1) have "request_of pc \<in># received_requests p" by (simp add: received_requests_def)
  then show ?thesis using open_not_received(1) [OF assms(1,2)] by blast
qed

lemma awaiting_ignored:
  assumes "torrent_ok m" and "piece_inv m p" and "awaiting m d (pc # ps) p"
    and "IndexFunc (\<lambda>r. treq r = request_of pc) (InFlight p) = None \<or> list_ex (\<lambda>other. duplicate other pc) (Received p)"
  shows "awaiting m d ps p"
  using ignored_not_open [OF assms(1,2) _ _ assms(4)] assms(3) by (auto simp: awaiting_def)

lemma awaiting_accepted:
  assumes tok: "torrent_ok m" and p: "piece_inv m p" and aw: "awaiting m d (pc # ps) p"
    and req: "IndexFunc (\<lambda>r. treq r = request_of pc) (InFlight p) = Some req"
      "\<not> list_ex (\<lambda>other. duplicate other pc) (Received p)"
  shows "awaiting m d ps (accept p req pc)"
proof -
  let ?q = "accept p req pc"
  have len: "length (pc_block pc) < 2 ^ 32" and pend: "Pending p = []" using aw by (simp_all add: awaiting_def)
  have q: "piece_inv m ?q" "pIndex ?q = pIndex p" "Pending ?q = []" "Received ?q = Received p @ [pc]"
    using accept_inv(1) [OF tok p req len] pend by (simp_all add: accept_def)
  have "open_requests ?q + add_mset (request_of pc) (received_requests p) = open_requests p + received_requests p"
    using piece_inv_blocks [OF p] piece_inv_blocks [OF q(1)] by (simp add: q received_requests_def)
  then have op: "open_requests p = add_mset (request_of pc) (open_requests ?q)" by simp
  then have "request_of pc \<notin># open_requests ?q"
    using open_not_received(2) [OF tok p, of "request_of pc"] by (simp add: not_in_iff)
  then have "set_mset (open_requests ?q) \<subseteq> request_of ` set ps" using aw op by (auto simp: awaiting_def)
  then show ?thesis using aw by (simp add: awaiting_def q)
qed

lemma complete_iff_no_open:
  assumes "torrent_ok m" and "piece_inv m p"
  shows "pDownloaded p = pSize p \<longleftrightarrow> open_requests p = {#}"
proof
  assume "pDownloaded p = pSize p"
  from piece_complete(2) [OF assms this] piece_inv_blocks [OF assms(2)] show "open_requests p = {#}"
    by (simp add: received_requests_def)
next
  assume "open_requests p = {#}"
  with piece_weight [OF assms] show "pDownloaded p = pSize p" by (simp add: weight_def)
qed

text \<open>Blocks that come after their piece was verified find no slot.\<close>

lemma late_blocks:
  assumes "dl_inv (t, s)" and "unat idx \<in> have_set (BitField t)" and "list_all (\<lambda>(env, pc). pc_index pc = idx) eps"
  shows "recvPieces eps t = Ok t"
proof -
  have "find_slot idx 0 (dslots t) t = None"
  proof (rule ccontr)
    assume "find_slot idx 0 (dslots t) t \<noteq> None"
    then obtain i a where "find_slot idx 0 (dslots t) t = Some (i, a)" by auto
    from find_slot_SomeD [OF this] have "a \<in> active t" "pIndex (heap t ! a) = idx"
      by (auto simp: active_def) (metis nth_mem)
    with active_not_stored [OF assms(1)] assms(2) show False by blast
  qed
  with assms(3) show ?thesis by (induction eps) (auto simp: recv_piece_def)
qed

lemma deliver:
  assumes "dl_inv (t, s)" and "i < length (dslots t)" and "dslots t ! i = Some a"
    and "awaiting (Torrent t) d (map snd eps) (heap t ! a)"
    and "list_all (\<lambda>(env, pc). env_ok env \<and> fs_up (e_fs env)) eps"
  shows "\<exists>t'. recvPieces eps t = Ok t' \<and> dl_inv (t', s) \<and> dslots t' = (dslots t)[i := None]
    \<and> have_set (BitField t') = insert (unat (pIndex (heap t ! a))) (have_set (BitField t))
    \<and> files (disk t') (piece_file (DownloadDir t) (pIndex (heap t ! a))) = Some d"
  using assms
proof (induction eps arbitrary: t)
  case Nil
  have act: "a \<in> active t" using Nil.prems(2,3) unfolding active_def by (metis mem_Collect_eq nth_mem)
  have wf: "tracker_wf t" using Nil.prems(1) by (simp add: dl_inv_def)
  note al = active_valid [OF wf act]
  have "open_requests (heap t ! a) = {#}" using Nil.prems(4) by (simp add: awaiting_def)
  then have "pDownloaded (heap t ! a) = pSize (heap t ! a)"
    using complete_iff_no_open [OF _ heap_piece_inv [OF wf al]] wf by (simp add: tracker_wf_def)
  then show ?case using Nil.prems(1) act al by (auto simp: dl_inv_def stale_complete_def)
next
  case (Cons ep eps)
  obtain env pc where ep: "ep = (env, pc)" by force
  have env: "env_ok env" "fs_up (e_fs env)" using Cons.prems(5) ep by auto
  let ?p = "heap t ! a"
  have act: "a \<in> active t" using Cons.prems(2,3) unfolding active_def by (metis mem_Collect_eq nth_mem)
  have wf: "tracker_wf t" using Cons.prems(1) by (simp add: dl_inv_def)
  note al = active_valid [OF wf act]
  have tok: "torrent_ok (Torrent t)" and p: "piece_inv (Torrent t) ?p"
    using wf al by (auto simp: tracker_wf_def)
  have aw: "awaiting (Torrent t) d (pc # map snd eps) ?p" using Cons.prems(4) ep by simp
  have pc: "pIndex ?p = pc_index pc" "length (pc_block pc) < 2 ^ 32" using aw by (auto simp: awaiting_def)
  have recv: "recv_piece env pc t = recv_locked env i a pc t"
    using slot_unique [OF Cons.prems(1-3)] pc(1) by (simp add: recv_piece_def)
  show ?case
  proof (cases "IndexFunc (\<lambda>r. treq r = request_of pc) (InFlight ?p) = None
      \<or> list_ex (\<lambda>other. duplicate other pc) (Received ?p)")
    case True
    then have "recv_piece env pc t = Ok t" unfolding recv by (auto simp: recv_locked_def Let_def split: option.splits)
    with Cons.IH [OF Cons.prems(1-3) awaiting_ignored [OF tok p aw True]] Cons.prems(5) ep show ?thesis by simp
  next
    case False
    then obtain req where req: "IndexFunc (\<lambda>r. treq r = request_of pc) (InFlight ?p) = Some req"
      "\<not> list_ex (\<lambda>other. duplicate other pc) (Received ?p)" by auto
    let ?q = "accept ?p req pc"
    let ?t1 = "t\<lparr>tDownloaded := tDownloaded t + (pDownloaded ?q - pDownloaded ?p)\<rparr>"
    note q = recv_locked_accepts [OF Cons.prems(1) al pc req]
    have aw': "awaiting (Torrent t) d (map snd eps) ?q" using awaiting_accepted [OF tok p aw req] .
    from recv_locked_inv [OF Cons.prems(1) env(1) al _ pc, of i] Cons.prems(2,3) recv obtain t2 where
      t2: "recv_piece env pc t = Ok t2" "dl_inv (t2, s)" by auto
    show ?thesis
    proof (cases "pDownloaded ?q = pSize ?q")
      case fin: True
      have "assemble (sort_key pc_begin (Received ?q)) = d"
        using assemble_honest [OF tok q(2) fin, of d] aw' by (simp add: awaiting_def list_all_iff)
      moreover have "sha1 d = hash_of (Torrent t) (unat (pIndex ?q))" using aw' by (simp add: awaiting_def)
      moreover have "snd (Flush (e_fs env) ?t1 (pIndex ?q) d) = Ok ()"
        using Flush_up [OF env(2), of ?t1 "pIndex ?q" d] by auto
      ultimately obtain t3 where t3: "finish_piece env i a (pIndex ?q) ?q ?t1 = Ok t3"
        "have_set (BitField t3) = insert (unat (pIndex ?p)) (have_set (BitField t))"
        "files (disk t3) (piece_file (DownloadDir t) (pIndex ?p)) = Some d" "dslots t3 = (dslots t)[i := None]"
        using finish_piece_received [OF Cons.prems(1) env(1) act Cons.prems(3) q(2,3) fin, of pc] q(3) by auto
      have "t2 = t3" using recv q(1) [of env i] fin q(3) t2(1) t3(1) by simp
      then have got: "have_set (BitField t2) = insert (unat (pIndex ?p)) (have_set (BitField t))"
        "files (disk t2) (piece_file (DownloadDir t) (pIndex ?p)) = Some d" "dslots t2 = (dslots t)[i := None]"
        using t3 by simp_all
      have "list_all (\<lambda>(env, pc). pc_index pc = pIndex ?p) eps" using aw' by (auto simp: awaiting_def list_all_iff accept_def)
      with late_blocks [OF t2(2), of "pIndex ?p"] got t2 ep show ?thesis by simp
    next
      case False
      then have "t2 = ?t1\<lparr>heap := (heap t)[a := ?q]\<rparr>" using recv q(1) [of env i] t2(1) by simp
      then have "dslots t2 = dslots t" "Torrent t2 = Torrent t" "heap t2 ! a = ?q" "BitField t2 = BitField t"
        "DownloadDir t2 = DownloadDir t" using al by simp_all
      moreover have "pIndex ?q = pIndex ?p" by (simp add: accept_def)
      moreover have "list_all (\<lambda>(env, pc). env_ok env \<and> fs_up (e_fs env)) eps" using Cons.prems(5) by simp
      ultimately show ?thesis using Cons.IH [OF t2(2)] Cons.prems(2,3) aw' ep t2(1) by simp
    qed
  qed
qed

section \<open>The other goroutines\<close>

text \<open>Calls on peers change the peers and the two maps only.\<close>

definition swarm_step :: "StatusTracker \<Rightarrow> StatusTracker \<Rightarrow> bool" where
  "swarm_step t t' \<longleftrightarrow> swarm_ok t' \<and> t' = t\<lparr>peers := peers t', seeders := seeders t', leechers := leechers t'\<rparr>"

lemma swarm_step_around: "swarm_step t t' \<Longrightarrow> around t t'"
proof -
  assume 1: "swarm_step t t'"
  then obtain ps sd lc where t': "t' = t\<lparr>peers := ps, seeders := sd, leechers := lc\<rparr>" unfolding swarm_step_def by blast
  from 1 show "around t t'" unfolding around_def swarm_step_def t' by simp
qed

lemma swarm_step_frame:
  assumes "swarm_step t t'"
  shows "uslots t' = uslots t" "BitField t' = BitField t" "disk t' = disk t" "DownloadDir t' = DownloadDir t"
    "Torrent t' = Torrent t" "tUploaded t' = tUploaded t"
proof -
  have eq: "t' = t\<lparr>peers := peers t', seeders := seeders t', leechers := leechers t'\<rparr>"
    using assms unfolding swarm_step_def by blast
  show "uslots t' = uslots t" "BitField t' = BitField t" "disk t' = disk t" "DownloadDir t' = DownloadDir t"
    "Torrent t' = Torrent t" "tUploaded t' = tUploaded t"
    by (subst eq, simp)+
qed

lemma swarm_step_trans: "swarm_step t t1 \<Longrightarrow> swarm_step t1 t2 \<Longrightarrow> swarm_step t t2"
proof -
  assume 1: "swarm_step t t1" and 2: "swarm_step t1 t2"
  from 1 obtain a1 b1 c1 where t1: "t1 = t\<lparr>peers := a1, seeders := b1, leechers := c1\<rparr>" unfolding swarm_step_def by blast
  from 2 obtain a b c where t2: "t2 = t1\<lparr>peers := a, seeders := b, leechers := c\<rparr>" unfolding swarm_step_def by blast
  from 2 show "swarm_step t t2" unfolding swarm_step_def t2 t1 by simp
qed

lemma swarm_step_only_peers: "only_peers t t' \<Longrightarrow> swarm_step t t'"
  unfolding swarm_step_def only_peers_def by (elim conjE exE) simp

lemma swarm_step_refl: "swarm_ok t \<Longrightarrow> swarm_step t t"
  by (simp add: swarm_step_def)

lemma swarm_step_maps:
  "swarm_ok (t\<lparr>peers := ps, seeders := sd, leechers := lc\<rparr>) \<Longrightarrow> swarm_step t (t\<lparr>peers := ps, seeders := sd, leechers := lc\<rparr>)"
  by (simp add: swarm_step_def)

lemma swarm_step_swarm: "swarm_step t t' \<Longrightarrow> swarm_ok t'"
  by (simp add: swarm_step_def)

lemma around_trans: "around t t1 \<Longrightarrow> around t1 t2 \<Longrightarrow> around t t2"
proof -
  assume 1: "around t t1" and 2: "around t1 t2"
  from 1 obtain a1 b1 c1 d1 e1 f1 g1 h1 i1 where t1: "t1 = t\<lparr>peers := a1, seeders := b1, leechers := c1, uslots := d1,
      tUploaded := e1, urate := f1, stop := g1, dcancel := h1, disk := i1\<rparr>" unfolding around_def by blast
  from 2 obtain a b c d e f g h i where t2: "t2 = t1\<lparr>peers := a, seeders := b, leechers := c, uslots := d,
      tUploaded := e, urate := f, stop := g, dcancel := h, disk := i\<rparr>" unfolding around_def by blast
  from 1 2 show "around t t2" unfolding around_def t2 t1 by simp (meson order_trans)
qed

lemma around_swarm: "around t t' \<Longrightarrow> swarm_ok t'"
  by (simp add: around_def)

lemma save_bitfield_around:
  assumes "swarm_ok t"
  shows "around t (save_bitfield env t)"
proof -
  obtain fs r where w: "write_file env (DownloadDir t) (bitfield_file (DownloadDir t)) (Clone (BitField t)) (disk t) = (fs, r)"
    by force
  have "dirs fs = dirs (disk t)" "\<forall>f. f \<noteq> bitfield_file (DownloadDir t) \<longrightarrow> files fs f = files (disk t) f"
    using w by (auto simp: write_file_def split: option.splits if_splits)
  then show ?thesis using assms by (simp add: save_bitfield_def w around_def swarm_ok_def)
qed

lemma close_stop_around:
  assumes "swarm_ok t" and "close_stop t = Ok t'"
  shows "around t t'"
proof -
  from assms(2) obtain c where "t' = t\<lparr>stop := c\<rparr>" by (auto simp: close_stop_def outcome_simps)
  with assms(1) show ?thesis by (simp add: around_def swarm_ok_def)
qed

lemma CancelDownload_around:
  assumes "swarm_ok t" and "CancelDownload t = Ok t'"
  shows "around t t'"
proof -
  from assms(2) obtain c where "t' = t\<lparr>dcancel := c\<rparr>" by (auto simp: CancelDownload_def outcome_simps)
  with assms(1) show ?thesis by (simp add: around_def swarm_ok_def)
qed

lemma listener_closed:
  assumes "conn p = Some c" and "rdata (cin c) = []" and "rerr (cin c) = NetClosed"
  shows "\<exists>c'. listener_loop env deadline i p out = Some (Ok (p\<lparr>conn := Some c'\<rparr>, out))"
proof (cases "deadline i")
  case None
  have "Identify (cin c) = (Err (Wrapped ''failed to read message length: '' NetClosed), cin c)"
    using assms(2,3) by (cases "cin c") (simp add: Identify_def ReadFull_def)
  with None assms show ?thesis by (subst listener_loop.simps) auto
next
  case (Some e)
  with assms show ?thesis by (subst listener_loop.simps) (auto intro: exI [of _ c])
qed

lemma Peer_Close_inv:
  assumes "peer_inv n p" and "live \<longrightarrow> peer_wf p"
  shows "\<exists>q r. Peer_Close nenv deadline live (Some p) = Some (Some q, r) \<and> \<not> is_panic r \<and> peer_inv n q"
proof -
  obtain c where c: "conn p = Some c" using assms(1) by (auto simp: peer_inv_def)
  let ?p = "p\<lparr>conn := Some (close_conn nenv c)\<rparr>"
  have np: "\<not> is_panic (lift_err (close_result nenv))" by (simp add: lift_err_def split: option.split)
  show ?thesis
  proof (cases live)
    case True
    from listener_closed [of ?p "close_conn nenv c" nenv deadline 0 "[]"] obtain c' where
      "listener_loop nenv deadline 0 ?p [] = Some (Ok (p\<lparr>conn := Some c'\<rparr>, []))" by (auto simp: close_conn_def)
    moreover have "\<exists>q. listener_exit (p\<lparr>conn := Some c'\<rparr>) = Ok q \<and> PeerBitfield q = PeerBitfield p \<and> conn q = Some c'"
      using assms(2) True by (cases "peer_typ p") (auto simp: listener_exit_def peer_wf_def)
    ultimately obtain q es where "listener nenv deadline ?p = Some (Ok (q, es))" "PeerBitfield q = PeerBitfield p" "conn q = Some c'"
      by (auto simp: listener_def)
    with True c assms(1) np show ?thesis
      by (auto simp: Peer_Close_def Let_def peer_inv_def)
  next
    case False
    with c assms(1) np show ?thesis by (simp add: Peer_Close_def Let_def peer_inv_def)
  qed
qed

lemma close_peer_ok:
  assumes "swarm_ok t" and "a < length (peers t)" and "live \<longrightarrow> peer_wf (peers t ! a)"
  shows "\<exists>t'. close_peer nenv deadline live (Some a) t = Some (Ok t') \<and> only_peers t t'"
proof -
  from Peer_Close_inv [OF swarm_ok_peer [OF assms(1,2)] assms(3), of nenv deadline] obtain q r where
    q: "Peer_Close nenv deadline live (Some (peers t ! a)) = Some (Some q, r)" "\<not> is_panic r"
      "peer_inv (num_pieces (Torrent t)) q" by blast
  have "only_peers t (t\<lparr>peers := (peers t)[a := q]\<rparr>)"
    using swarm_ok_put [OF assms(1) q(3)] by (auto simp: only_peers_def)
  with q assms(2) show ?thesis by (cases r) (auto simp: close_peer_def)
qed

lemma write_msg_frame: "write_msg nenv w msg p = (q, r) \<Longrightarrow> \<exists>c. q = p\<lparr>conn := c\<rparr> \<and> (conn p \<noteq> None \<longrightarrow> c \<noteq> None)"
  by (cases "conn p") (auto simp: write_msg_def split: option.splits prod.splits intro: exI [of _ "conn p"])

lemma NewSeederConnection_inv:
  assumes "NewSeederConnection nenv dial addr (int n) ih cid = Ok p" and "n \<le> 2 ^ 32"
  shows "peer_inv n p"
proof -
  obtain b where b: "NewBitfield (int n) = Ok b" using NewBitfield_total [of "int n"] by auto
  have wf: "bf_wf b" "bf_count b = n" 
    using NewBitfield_wf [OF _ _ b] assms(2) b by (auto simp: NewBitfield_def Let_def bf_count_def split: if_splits)
  from assms(1) b obtain q where init: "initiateHandshakeV1 nenv dial ih cid (new_peer [] addr None seeder b) = (q, Ok ())"
    and p: "start_listener nenv (q\<lparr>pieces_chan := OpenChan\<rparr>) = Ok p"
    by (auto simp: NewSeederConnection_def failed_handshake_def split: prod.splits outcome.splits if_splits)
  obtain c p1 where w: "write_handshake nenv ih cid ((new_peer [] addr None seeder b)\<lparr>conn := Some c\<rparr>) = (p1, Ok ())"
    and rd: "read_handshake nenv p1 = (q, Ok ())"
    using init by (auto simp: initiateHandshakeV1_def split: outcome.splits prod.splits)
  have "PeerBitfield p1 = b"
    "peer_typ p1 = seeder"
    using w by (auto simp: write_handshake_def new_peer_def dest!: write_msg_frame split: outcome.splits)
  moreover have "PeerBitfield q = PeerBitfield p1" "peer_typ q = peer_typ p1" "conn q \<noteq> None"
    using rd by (auto simp: read_handshake_def Let_def nil_deref_def split: option.splits outcome.splits prod.splits if_splits)
  ultimately show ?thesis using start_listener_inv [OF p, of n] wf by (simp add: peer_wf_def)
qed

lemma snd_dict_set: "snd ` set (dict_set k v d) \<subseteq> insert v (snd ` set d)"
  using image_mono [OF set_dict_set [of k v d], of snd] by simp

lemma snd_dict_del: "snd ` set (dict_del k d) \<subseteq> snd ` set d"
  unfolding dict_del_def by (rule image_mono) auto

lemma swarm_ok_add:
  assumes "swarm_ok t" and "peer_inv (num_pieces (Torrent t)) p"
    and "snd ` set sd \<union> snd ` set lc \<subseteq> insert (length (peers t)) (snd ` set (seeders t) \<union> snd ` set (leechers t))"
  shows "swarm_ok (t\<lparr>peers := peers t @ [p], seeders := sd, leechers := lc\<rparr>)"
proof -
  have "a < Suc (length (peers t))" if "a \<in> snd ` set sd \<union> snd ` set lc" for a
    using that assms(1,3) unfolding swarm_ok_def by (metis (no_types, lifting) insert_iff less_SucI lessI subsetD)
  then show ?thesis using assms(1,2) by (simp add: swarm_ok_def)
qed

lemma swarm_ok_sub:
  assumes "swarm_ok t" and "snd ` set sd \<union> snd ` set lc \<subseteq> snd ` set (seeders t) \<union> snd ` set (leechers t)"
  shows "swarm_ok (t\<lparr>seeders := sd, leechers := lc\<rparr>)"
proof -
  have "a < length (peers t)" if "a \<in> snd ` set sd \<union> snd ` set lc" for a
    using subsetD [OF assms(2) that] assms(1) unfolding swarm_ok_def by blast
  then show ?thesis using assms(1) by (simp add: swarm_ok_def)
qed

lemma call_send_swarm:
  assumes "swarm_step t t1" and "a < length (peers t1)" and "env_ok env"
  shows "\<exists>t2 err. call_peer (send (e_net env a m) m) (Some a) t1 = Ok (t2, err) \<and> swarm_step t t2 \<and> length (peers t2) = length (peers t1)"
proof -
  have "writer_ok (e_net env a m)" using assms(3) by (simp add: env_ok_def net_ok_def)
  from call_send [OF swarm_step_swarm [OF assms(1)] assms(2) this, of m] show ?thesis
    using swarm_step_trans [OF assms(1) swarm_step_only_peers] only_peers_length by blast
qed

lemma connect_seeder_swarm:
  assumes "swarm_ok t" and "torrent_ok (Torrent t)" and "env_ok env" and "connect_seeder env nenv dial addr t = Ok (t', ptr)"
  shows "swarm_step t t' \<and> (\<forall>a. ptr = Some a \<longrightarrow> a < length (peers t') \<and> dict_get (seeders t') addr = Some a)"
proof -
  let ?t = "t\<lparr>seeders := dict_del addr (seeders t)\<rparr>" and ?n = "num_pieces (Torrent t)"
  have n: "NumPieces (Torrent t) = Ok (int ?n)" "?n \<le> 2 ^ 32" using assms(2) by (auto simp: torrent_ok_def)
  obtain r where r: "NewSeederConnection nenv dial addr (int ?n) (Hash (mInfo (Torrent t))) (clientID t) = r" by simp
  show ?thesis
  proof (cases r)
    case (Err e)
    with assms(4) r n have "t' = ?t" "ptr = None" by (auto simp: connect_seeder_def Let_def)
    moreover have "swarm_ok (t\<lparr>seeders := dict_del addr (seeders t), leechers := leechers t\<rparr>)"
      using snd_dict_del [of addr "seeders t"] by (intro swarm_ok_sub [OF assms(1)]) blast
    ultimately show ?thesis
      using swarm_step_maps [where t = t and ps = "peers t" and sd = "dict_del addr (seeders t)" and lc = "leechers t"] by simp
  next
    case (Ok p)
    let ?a = "length (peers t)"
    let ?t1 = "?t\<lparr>peers := peers t @ [p], seeders := dict_set addr ?a (dict_del addr (seeders t))\<rparr>"
    have "peer_inv ?n p" using NewSeederConnection_inv [OF _ n(2)] r Ok by simp
    then have "swarm_ok (t\<lparr>peers := peers t @ [p], seeders := dict_set addr ?a (dict_del addr (seeders t)),
        leechers := leechers t\<rparr>)"
      using snd_dict_set [of addr ?a "dict_del addr (seeders t)"] snd_dict_del [of addr "seeders t"]
      by (intro swarm_ok_add [OF assms(1)]) (assumption, blast)
    moreover have "t\<lparr>peers := peers t @ [p], seeders := dict_set addr ?a (dict_del addr (seeders t)),
        leechers := leechers t\<rparr> = ?t1" by (cases t) simp
    ultimately have ar: "swarm_step t ?t1" using swarm_step_maps by metis
    let ?b = "BitfieldMsg \<lparr>bitfield_bits = Clone (BitField t)\<rparr>"
    from call_send_swarm [OF ar _ assms(3), of ?a ?b] obtain t2 e2 where
      t2: "call_peer (send (e_net env ?a ?b) ?b) (Some ?a) ?t1 = Ok (t2, e2)" "swarm_step t t2" "length (peers t2) = Suc ?a" by auto
    from call_send_swarm [OF t2(2) _ assms(3), of ?a InterestMsg] t2(3) obtain t3 e3 where
      t3: "call_peer (send (e_net env ?a InterestMsg) InterestMsg) (Some ?a) t2 = Ok (t3, e3)" "swarm_step t t3"
        "length (peers t3) = Suc ?a" by auto
    have "t' = t3" "ptr = Some ?a"
      using assms(4) n r Ok t2(1) t3(1) by (auto simp: connect_seeder_def greet_def Let_def send_forms simp del: send.simps)
    moreover have "seeders t3 = seeders ?t1"
      using t2(1) t3(1) by (auto simp: call_peer_def nil_deref_def Let_def simp del: send.simps split: if_splits prod.splits option.splits outcome.splits)
    ultimately show ?thesis using t3 by (simp add: dict_get_set)
  next
    case (Panic m)
    with assms(4) r n show ?thesis by (simp add: connect_seeder_def Let_def)
  qed
qed

lemma failed_call_wf:
  assumes "peer_inv n (peers t ! a)" and "a < length (peers t)" and "env_ok env"
    and "call_peer (send (e_net env a m) m) (Some a) t = Ok (t1, Some e)" and "peer_wf (peers t ! a)"
  shows "peer_wf (peers t1 ! a)"
proof -
  obtain c where c: "conn (peers t ! a) = Some c" using assms(1) by (auto simp: peer_inv_def)
  have ok: "writer_ok (e_net env a m)" using assms(3) by (simp add: env_ok_def net_ok_def)
  from assms(2,4) obtain q where "send (e_net env a m) m (Some (peers t ! a)) = (q, Err e)"
    "\<forall>p'. q = Some p' \<longrightarrow> peers t1 ! a = p'"
    by (auto simp: call_peer_def Let_def simp del: send.simps split: prod.splits outcome.splits option.splits)
  with send_failed [OF _ c ok] have "\<exists>c'. peers t1 ! a = (peers t ! a)\<lparr>conn := Some c'\<rparr>" by blast
  then show ?thesis using assms(5) by (auto simp: peer_wf_def)
qed

lemma seeder_refresh_swarm:
  assumes "swarm_ok t" and "torrent_ok (Torrent t)" and "env_ok env" and "\<forall>a. ptr = Some a \<longrightarrow> a < length (peers t)"
    and "\<forall>a. ptr = Some a \<and> live \<longrightarrow> peer_wf (peers t ! a)"
    and "seeder_refresh env nenv deadline live dial addr ptr t = Some (Ok (t', ptr'))"
  shows "swarm_step t t'"
proof (cases ptr)
  case None
  with assms(6) have "connect_seeder env nenv dial addr t = Ok (t', ptr')"
    by (simp add: seeder_refresh_def ConnectionStatus_of_def close_peer_def)
  from connect_seeder_swarm [OF assms(1-3) this] show ?thesis by simp
next
  case (Some a)
  then have a: "a < length (peers t)" "live \<longrightarrow> peer_wf (peers t ! a)" using assms(4,5) by auto
  have p: "peer_inv (num_pieces (Torrent t)) (peers t ! a)" using swarm_ok_peer [OF assms(1) a(1)] .
  show ?thesis
  proof (cases "connectionStatus (peers t ! a) = 0")
    case True
    from call_send_swarm [OF swarm_step_only_peers [OF only_peers_refl [OF assms(1)]] a(1) assms(3), of KeepAliveMsg]
    obtain t1 err where t1: "call_peer (send (e_net env a KeepAliveMsg) KeepAliveMsg) (Some a) t = Ok (t1, err)" "swarm_step t t1"
      "length (peers t1) = length (peers t)" by blast
    show ?thesis
    proof (cases err)
      case None
      with assms(6) True Some t1 show ?thesis
        by (auto simp: seeder_refresh_def ConnectionStatus_of_def send_forms simp del: send.simps)
    next
      case e: (Some e)
      have "live \<longrightarrow> peer_wf (peers t1 ! a)"
        using failed_call_wf [OF p a(1) assms(3), of KeepAliveMsg t1 e] t1(1) e a(2) by simp
      from close_peer_ok [OF swarm_step_swarm [OF t1(2)] _ this, of nenv deadline] a(1) t1(3) obtain t2 where
        "close_peer nenv deadline live (Some a) t1 = Some (Ok t2)" "only_peers t1 t2" by auto
      with assms(6) True Some t1 e swarm_step_trans [OF t1(2) swarm_step_only_peers] show ?thesis
        by (auto simp: seeder_refresh_def ConnectionStatus_of_def send_forms simp del: send.simps)
    qed
  next
    case False
    with p have "ConnectionStatus_of (Some (peers t ! a)) = Ok ConnectionKilled"
      by (auto simp: ConnectionStatus_of_def peer_inv_def)
    moreover from close_peer_ok [OF assms(1) a(1), of False nenv deadline] obtain t1 where
      t1: "close_peer nenv deadline False (Some a) t = Some (Ok t1)" "only_peers t t1" by auto
    ultimately have "connect_seeder env nenv dial addr t1 = Ok (t', ptr')"
      using assms(6) Some by (simp add: seeder_refresh_def)
    from connect_seeder_swarm [OF only_peers_swarm [OF t1(2)] _ assms(3) this] assms(2)
      swarm_step_trans [OF swarm_step_only_peers [OF t1(2)]] only_peers_frame(4) [OF t1(2)] show ?thesis by simp
  qed
qed

section \<open>Reachable states\<close>

text \<open>
  A state that a download of \<open>m\<close> can get into: the tracker was opened by \<^verbatim>\<open>NewTracker\<close>, on a
  directory that holds the pieces its saved bit field says, and the scheduler started.
\<close>

definition starts :: "MetaInfoFile \<Rightarrow> StatusTracker \<times> Scheduler \<Rightarrow> bool" where
  "starts m = (\<lambda>(t, s). (\<exists>env cid downloadDir fs. NewTracker env cid m downloadDir fs = Ok t)
     \<and> scheduler_init t = Ok s \<and> (\<forall>i \<in> have_set (BitField t). on_disk t i))"

lemma reach_inv_for:
  assumes "torrent_ok m" and "starts m ts0" and "rtranclp dstep ts0 ts"
  shows "dl_inv_for m ts0" and "dl_inv_for m ts"
proof -
  obtain t0 s0 where ts0: "ts0 = (t0, s0)" by force
  from assms(2) obtain env cid downloadDir fs where "NewTracker env cid m downloadDir fs = Ok t0"
    "scheduler_init t0 = Ok s0" "\<forall>i \<in> have_set (BitField t0). on_disk t0 i" by (auto simp: starts_def ts0)
  from start_inv [OF assms(1) this] show "dl_inv_for m ts0" by (simp add: dl_inv_for_def ts0)
  then show "dl_inv_for m ts" using dl_spec.reach_inv [OF assms(3)] by blast
qed

text \<open>A torrent of one piece and the state its download starts in.\<close>

definition demo_content :: bytes where
  "demo_content = [1, 2, 3, 4, 5]"

definition demo :: MetaInfoFile where
  "demo = sample_metainfo\<lparr>mInfo := (mInfo sample_metainfo)\<lparr>Pieces := EncodeToString (sha1 demo_content)\<rparr>\<rparr>"

definition demo_id :: bytes where
  "demo_id = replicate 20 45"

definition demo_tracker :: StatusTracker where
  "demo_tracker = fresh_tracker demo_id demo \<lparr>bits = [0], numPieces = 1\<rparr> (saved_dir (str ''dl'') demo)
     \<lparr>dirs = [saved_dir (str ''dl'') demo], files = (\<lambda>_. None)\<rparr>"

definition demo_scheduler :: Scheduler where
  "demo_scheduler = \<lparr>unverified = [0], currentRate = 0, running = True\<rparr>"

definition demo_env :: Env where
  "demo_env = \<lparr>e_net = (\<lambda>_ _. up_env), e_seeders = (\<lambda>d. d), e_leechers = (\<lambda>d. d), e_unverified = (\<lambda>us. us),
     e_rand = (\<lambda>_. 0), e_now = 0, e_fs = up_fs, e_spare = (\<lambda>_. [])\<rparr>"

lemma demo_sizes:
  "NumPieces demo = Ok 1" "BytesToDownload demo = Ok 5" "num_pieces demo = 1" "total_size demo = 5" "piece_size demo 0 = 5"
  by (simp_all add: demo_def num_pieces_def total_size_def NumPieces_def BytesToDownload_def sample_metainfo_def
      must_def DecodeString_EncodeToString piece_size_def sha1.length_sum)

lemma demo_hash_length: "length (Hash (mInfo demo)) = 20"
  by (simp add: demo_def sample_metainfo_def sha1.length_sum)

lemma demo_ok [simp]: "torrent_ok demo"
  unfolding torrent_ok_def by (simp add: demo_sizes) (simp add: demo_def sample_metainfo_def)

lemma demo_starts [simp]: "starts demo (demo_tracker, demo_scheduler)"
proof -
  have "NewTracker up_fs demo_id demo (str ''dl'') (disk demo_tracker) = Ok demo_tracker"
    by (simp add: NewTracker_def demo_sizes NewBitfield_def Let_def read_bitfield_def up_fs_def demo_tracker_def)
  moreover have "scheduler_init demo_tracker = Ok demo_scheduler"
    by (simp add: scheduler_init_def demo_tracker_def demo_scheduler_def) code_simp
  moreover have "have_set (BitField demo_tracker) = {}"
  proof -
    have "Check (BitField demo_tracker) 0 = Ok False" by (simp add: demo_tracker_def) code_simp
    then show ?thesis by (auto simp: have_set_def bf_count_def demo_tracker_def)
  qed
  ultimately show ?thesis unfolding starts_def by blast
qed

lemma demo_env_ok [simp]: "env_ok demo_env" "fs_up (e_fs demo_env)"
  by (simp_all add: demo_env_def env_ok_def net_ok_def order_ok_def writer_ok_def up_env_def)

lemma demo_inv: "dl_inv (demo_tracker, demo_scheduler)"
  using reach_inv_for(1) [OF demo_ok demo_starts rtranclp.rtrancl_refl] by (simp add: dl_inv_for_def)

text \<open>The download of that torrent with its one block in flight.\<close>

definition demo_block :: Piece where
  "demo_block = \<lparr>pc_index = 0, pc_begin = 0, pc_block = demo_content\<rparr>"

definition demo_piece :: pendingPiece where
  "demo_piece = \<lparr>pIndex = 0, pDownloaded = 0, pSize = 5, Received = [], Pending = [],
     InFlight = [\<lparr>treq = \<lparr>req_index = 0, req_begin = 0, req_length = 5\<rparr>, tsend = 0, treceived = False\<rparr>]\<rparr>"

definition demo_flight :: StatusTracker where
  "demo_flight = demo_tracker\<lparr>dslots := [Some 0, None, None, None], heap := [demo_piece]\<rparr>"

lemma demo_blocks: "block_list 0 5 = [\<lparr>req_index = 0, req_begin = 0, req_length = 5\<rparr>]"
  by (simp add: block_list_def block_count_def block_at_def upt_conv_Cons)

lemma demo_flight_inv: "dl_inv (demo_flight, demo_scheduler\<lparr>unverified := []\<rparr>)"
proof -
  from start_piece_inv [OF demo_inv, of 0 0] obtain t s where
    run: "start_piece 0 0 (demo_tracker, demo_scheduler) = Ok (t, s)" and inv: "dl_inv (t, s)"
    by (auto simp: demo_tracker_def demo_scheduler_def)
  have span: "piece_span demo (int (unat (0 :: u32))) = Ok (int (piece_size demo (unat (0 :: u32))))"
    by (rule piece_span_ok) (simp_all add: demo_sizes)
  have ts: "t = demo_tracker\<lparr>heap := [new_piece 0 5], dslots := [Some 0, None, None, None]\<rparr>"
      "s = demo_scheduler\<lparr>unverified := []\<rparr>"
    using run span by (auto simp: start_piece_def demo_tracker_def demo_scheduler_def demo_sizes numeral_eq_Suc)
  have "piece_inv (Torrent t) demo_piece"
    by (simp add: piece_inv_def demo_piece_def ts demo_tracker_def demo_sizes demo_blocks)
  from dl_inv_update [OF inv _ this _ _ disk_frame_same, of 0] show ?thesis
    by (simp add: ts demo_flight_def demo_piece_def new_piece_def active_def)
qed

lemma demo_hash: "hash_of demo 0 = sha1 demo_content"
  by (simp add: hash_of_def demo_def DecodeString_EncodeToString sha1.length_sum)

text \<open>
  A whole download of that torrent: a seeder that has the piece is there, the scheduler starts the piece and
  sends the request, and the block arrives.
\<close>

definition demo_seeder :: Peer where
  "demo_seeder = (new_peer [] (str ''p:1'') (Some (sample_conn [] IoEOF)) seeder \<lparr>bits = [128], numPieces = 1\<rparr>)
     \<lparr>pieces_chan := OpenChan, StatusRemote := UnChoked\<rparr>"

definition demo_found :: StatusTracker where
  "demo_found = demo_tracker\<lparr>peers := [demo_seeder], seeders := [(str ''p:1'', 0)]\<rparr>"

lemma demo_seeder_has: "Check (PeerBitfield demo_seeder) 0 = Ok True"
  by (simp add: demo_seeder_def new_peer_def) code_simp

lemma demo_found_step: "dstep (demo_tracker, demo_scheduler) (demo_found, demo_scheduler)"
proof -
  have "swarm_ok demo_found"
    by (simp add: swarm_ok_def demo_found_def demo_tracker_def demo_seeder_def new_peer_def peer_inv_def bf_wf_def bf_count_def demo_sizes)
  then have "swarm_step demo_tracker demo_found" by (simp add: swarm_step_def demo_found_def)
  then show ?thesis by (intro dstep.other swarm_step_around)
qed

lemma demo_planned:
  "next_piece demo_env 4 (demo_found, demo_scheduler) =
     Ok (demo_found\<lparr>heap := [new_piece 0 5], dslots := [Some 0, None, None, None]\<rparr>, demo_scheduler\<lparr>unverified := []\<rparr>)"
proof -
  have span: "piece_span demo (int (unat (0 :: u32))) = Ok (int (piece_size demo (unat (0 :: u32))))"
    by (rule piece_span_ok) (simp_all add: demo_sizes)
  show ?thesis
    using demo_seeder_has span
    by (simp add: next_piece_def demo_scheduler_def demo_env_def demo_found_def demo_tracker_def start_piece_def demo_sizes numeral_eq_Suc)
qed

lemma demo_requested:
  "\<exists>ps. slot_pass demo_env 0 (demo_found\<lparr>heap := [new_piece 0 5], dslots := [Some 0, None, None, None]\<rparr>) =
     Ok (demo_found\<lparr>heap := [demo_piece], dslots := [Some 0, None, None, None], peers := ps\<rparr>)"
proof -
  let ?r = "\<lparr>req_index = 0, req_begin = 0, req_length = 5\<rparr> :: Request"
  let ?t = "demo_found\<lparr>heap := [new_piece 0 5], dslots := [Some 0, None, None, None]\<rparr>"
  have np: "new_piece 0 5 = \<lparr>pIndex = 0, pDownloaded = 0, pSize = 5, Received = [], Pending = [?r], InFlight = []\<rparr>"
    using block_loop_eq [of 0 5] by (simp add: new_piece_def demo_blocks)
  have est: "connectionStatus demo_seeder = 0" "StatusRemote demo_seeder = UnChoked" "conn demo_seeder = Some (sample_conn [] IoEOF)"
    by (simp_all add: demo_seeder_def new_peer_def)
  have t: "peers ?t = [demo_seeder]" by (simp add: demo_found_def)
  have "eligible 0 [0] ?t = Ok [0]"
    using est(1,2) demo_seeder_has by (simp add: t can_request_def is_established_def ConnectionStatus_of_def)
  then have el: "eligible 0 (map snd (seeders demo_found)) ?t = Ok [0]" by (simp add: demo_found_def del: eligible.simps)
  obtain q where "SendRequest up_env ?r (Some demo_seeder) = (Some q, Ok ())"
    using request_send.succeeds [OF net_up_up_env _ est(1,3), of ?r] by (auto simp: request_valid_def)
  then have "call_peer (SendRequest (e_net demo_env 0 (RequestMsg ?r)) ?r) (Some 0) ?t = Ok (?t\<lparr>peers := [q]\<rparr>, None)"
    by (simp add: call_peer_def t demo_env_def)
  with el have "schedule demo_env [?r] ?t [] [] = Ok (?t\<lparr>peers := [q]\<rparr>, [], [\<lparr>treq = ?r, tsend = 0, treceived = False\<rparr>])"
    by (simp add: demo_env_def)
  moreover have "heap ?t ! 0 = \<lparr>pIndex = 0, pDownloaded = 0, pSize = 5, Received = [], Pending = [?r], InFlight = []\<rparr>"
    by (simp add: np)
  ultimately show ?thesis unfolding slot_pass_def Let_def
    by (intro exI [of _ "[q]"]) (cases demo_found; simp add: demo_piece_def del: schedule.simps)
qed

lemma demo_run:
  "\<exists>t. rtranclp dstep (demo_tracker, demo_scheduler) (t, demo_scheduler\<lparr>unverified := []\<rparr>) \<and> stored_pieces t 0 = Some demo_content"
proof -
  let ?s = "demo_scheduler\<lparr>unverified := []\<rparr>"
  let ?t2 = "demo_found\<lparr>heap := [new_piece 0 5], dslots := [Some 0, None, None, None]\<rparr>"
  obtain ps where pass: "slot_pass demo_env 0 ?t2 = Ok (demo_found\<lparr>heap := [demo_piece], dslots := [Some 0, None, None, None], peers := ps\<rparr>)"
    (is "_ = Ok ?t3") using demo_requested by blast
  have "dstep (demo_found, demo_scheduler) (?t2, ?s)"
    by (rule dstep.own, rule dl_step.plan [OF _ demo_env_ok(1) _ demo_planned])
      (simp_all add: demo_scheduler_def demo_found_def demo_tracker_def)
  moreover have "dstep (?t2, ?s) (?t3, ?s)"
    by (rule dstep.own, rule dl_step.pass [OF _ demo_env_ok(1) _ pass]) (simp_all add: demo_scheduler_def)
  ultimately have run: "rtranclp dstep (demo_tracker, demo_scheduler) (?t3, ?s)"
    using demo_found_step by (meson rtranclp.rtrancl_into_rtrancl rtranclp.rtrancl_refl)
  then have inv: "dl_inv (?t3, ?s)" using dl.reach_inv demo_inv by blast
  have "awaiting demo demo_content [demo_block] demo_piece"
    using demo_hash
    by (simp add: awaiting_def demo_piece_def demo_block_def open_requests_def honest_def request_of_def demo_sizes)
      (simp add: demo_content_def)
  moreover have "Torrent ?t3 = demo" by (simp add: demo_found_def demo_tracker_def)
  ultimately obtain t where t: "recvPieces [(demo_env, demo_block)] ?t3 = Ok t" "dl_inv (t, ?s)" "0 \<in> have_set (BitField t)"
    "files (disk t) (piece_file (DownloadDir ?t3) 0) = Some demo_content"
    using deliver [OF inv, of 0 0 demo_content "[(demo_env, demo_block)]"] demo_env_ok by (auto simp: demo_piece_def)
  have len: "length (pc_block demo_block) < 2 ^ 32" by (simp add: demo_block_def demo_content_def)
  from t(1) recv_piece_reach [OF inv demo_env_ok(1) len] have "rtranclp dstep (?t3, ?s) (t, ?s)" by (auto simp: outcome_simps)
  with run have reach: "rtranclp dstep (demo_tracker, demo_scheduler) (t, ?s)" by (rule rtranclp_trans)
  moreover have "DownloadDir t = DownloadDir ?t3"
    using dl.reach_frame [where f = "\<lambda>ts. DownloadDir (fst ts)", OF \<open>rtranclp dstep (?t3, ?s) (t, ?s)\<close> inv] dstep_dir by simp
  ultimately show ?thesis using t(3,4) by (auto simp: stored_pieces_def)
qed

text \<open>The same torrent opened when it is complete on disk.\<close>

definition demo_disk :: FS where
  "demo_disk = \<lparr>dirs = [saved_dir (str ''dl'') demo],
     files = [bitfield_file (saved_dir (str ''dl'') demo) \<mapsto> [128], piece_file (saved_dir (str ''dl'') demo) 0 \<mapsto> demo_content]\<rparr>"

definition demo_full :: StatusTracker where
  "demo_full = (fresh_tracker demo_id demo \<lparr>bits = [128], numPieces = 1\<rparr> (saved_dir (str ''dl'') demo) demo_disk)
     \<lparr>tDownloaded := 5\<rparr>"

lemma demo_full_have: "have_set \<lparr>bits = [128], numPieces = 1\<rparr> = {0}"
proof -
  have "Check \<lparr>bits = [128], numPieces = 1\<rparr> 0 = Ok True" by code_simp
  then show ?thesis by (auto simp: have_set_def bf_count_def)
qed

lemma demo_full_starts [simp]: "starts demo (demo_full, demo_scheduler\<lparr>unverified := []\<rparr>)"
proof -
  have "NewTracker up_fs demo_id demo (str ''dl'') demo_disk = Ok demo_full"
    using NewTracker_resumes [OF demo_ok, of "\<lparr>bits = [128], numPieces = 1\<rparr>" up_fs demo_disk "str ''dl''" demo_id]
    by (simp add: demo_full_def demo_full_have bf_wf_def bf_count_def demo_sizes up_fs_def demo_disk_def)
  moreover have "MissingPieces \<lparr>bits = [128], numPieces = 1\<rparr> = Ok []" by code_simp
  then have "scheduler_init demo_full = Ok (demo_scheduler\<lparr>unverified := []\<rparr>)"
    by (simp add: scheduler_init_def demo_full_def demo_scheduler_def)
  moreover have "on_disk demo_full 0"
    using demo_hash by (simp add: on_disk_def demo_full_def demo_disk_def demo_sizes) (simp add: demo_content_def)
  ultimately show ?thesis unfolding starts_def by (auto simp: demo_full_def demo_full_have)
qed

lemma demo_completes:
  "dstep (demo_full, demo_scheduler\<lparr>unverified := []\<rparr>)
     (demo_full\<lparr>completed := ClosedChan\<rparr>, demo_scheduler\<lparr>unverified := [], running := False\<rparr>)"
  by (rule dstep.own, rule dl_step.plan [where env = demo_env and freeSlots = 4])
    (simp_all add: demo_scheduler_def next_piece_def demo_full_def)

section \<open>Properties\<close>

text \<open>
  C2. Wherever a download gets to, whatever the peers, the disk and the scheduling do: every piece of
  the torrent is verified, in one of the four slots, or waiting, and in exactly one of these; no two
  slots work on the same piece; \<^verbatim>\<open>Downloaded\<close> is the number of bytes of the verified pieces and of
  the blocks received for the slots, and never exceeds the size of the torrent; and every verified
  piece is on disk with its size and its SHA-1 hash.
\<close>

theorem download_invariant:
  assumes "torrent_ok m" and "starts m ts0" and "rtranclp dstep ts0 (t, s)"
  shows "disjoint_cover (have_set (BitField t)) (active_pieces t) (unat ` set (unverified s)) {..<num_pieces m}
    \<and> inj_on (\<lambda>a. pIndex (heap t ! a)) (active t)
    \<and> tDownloaded t = int (\<Sum>i \<in> have_set (BitField t). piece_size m i) + (\<Sum>a \<in> active t. pDownloaded (heap t ! a))
    \<and> 0 \<le> tDownloaded t \<and> tDownloaded t \<le> int (total_size m)
    \<and> (\<forall>i \<in> have_set (BitField t). on_disk t i)"
proof -
  have inv: "dl_inv (t, s)" and m: "Torrent t = m"
    using reach_inv_for(2) [OF assms] by (auto simp: dl_inv_for_def)
  with downloaded_bound [OF inv] show ?thesis
    by (simp add: dl_inv_def partitioned_def accounted_def tracker_wf_def slots_ok_def del: of_nat_sum)
qed

theorem download_invariant_witness:
  "disjoint_cover (have_set (BitField demo_tracker)) (active_pieces demo_tracker) {0} {..<num_pieces demo}"
  using download_invariant [OF demo_ok demo_starts rtranclp.rtrancl_refl] by (simp add: demo_scheduler_def)

text \<open>
  C6. The download never panics: in every state a download can get into, a round of the scheduler, and
  the handling of a block from a peer, return normally. In particular the two checks of
  \<^verbatim>\<open>recvPieces\<close> that panic (more data than the piece has, pending requests at a retry) never fire,
  whatever blocks the peers send.
\<close>

theorem download_never_panics:
  assumes "torrent_ok m" and "starts m ts0" and "rtranclp dstep ts0 (t, s)" and "env_ok env"
  shows "(running s \<longrightarrow> (\<exists>t' s'. scheduler_round env (t, s) = Ok (t', s') \<and> rtranclp dstep (t, s) (t', s')))
    \<and> (\<forall>recv. length (pc_block recv) < 2 ^ 32 \<longrightarrow>
        (\<exists>t'. recv_piece env recv t = Ok t' \<and> rtranclp dstep (t, s) (t', s)))"
proof -
  have "dl_inv (t, s)" using reach_inv_for(2) [OF assms(1-3)] by (simp add: dl_inv_for_def)
  with scheduler_round_reach [of t s env] recv_piece_reach [of t s env] assms(4) show ?thesis by blast
qed

theorem download_never_panics_witness:
  "\<exists>t' s'. scheduler_round demo_env (demo_tracker, demo_scheduler) = Ok (t', s')"
  using download_never_panics [OF demo_ok demo_starts rtranclp.rtrancl_refl demo_env_ok(1)]
  by (auto simp: demo_scheduler_def)

text \<open>
  C4. The download implements a store of verified pieces: every run is one of the abstract machine
  \<open>spec_step\<close>, in which a waiting piece is fetched and a fetched piece is stored with bytes of the
  right size and hash. So a stored piece is never lost or overwritten.
\<close>

theorem download_refines_store:
  assumes "torrent_ok m" and "starts m ts0" and "rtranclp dstep ts0 (t, s)" and "rtranclp dstep (t, s) (t', s')"
  shows "rtranclp (spec_step m) (abs_dl ts0) (abs_dl (t, s))
    \<and> (stored_pieces t i = Some d \<longrightarrow> stored_pieces t' i = Some d)"
proof -
  note inv = reach_inv_for [OF assms(1-3)]
  have "stored (abs_dl (t, s)) \<subseteq>\<^sub>m stored (abs_dl (t', s'))"
    using spec_grows [OF dl_spec.reach_abs [OF assms(4) inv(2)]] .
  then have "stored_pieces t \<subseteq>\<^sub>m stored_pieces t'" by (simp add: abs_dl_def)
  then show ?thesis using dl_spec.reach_abs [OF assms(3) inv(1)] by (force simp: map_le_def dom_def)
qed

theorem download_refines_store_witness:
  "\<exists>t. rtranclp (spec_step demo) (abs_dl (demo_tracker, demo_scheduler)) (abs_dl (t, demo_scheduler\<lparr>unverified := []\<rparr>))
    \<and> stored_pieces demo_tracker 0 = None \<and> stored_pieces t 0 = Some demo_content
    \<and> (\<forall>t' s'. rtranclp dstep (t, demo_scheduler\<lparr>unverified := []\<rparr>) (t', s') \<longrightarrow> stored_pieces t' 0 = Some demo_content)"
proof -
  from demo_run obtain t where
    t: "rtranclp dstep (demo_tracker, demo_scheduler) (t, demo_scheduler\<lparr>unverified := []\<rparr>)" "stored_pieces t 0 = Some demo_content" by blast
  have "stored_pieces demo_tracker 0 = None" by (simp add: stored_pieces_def demo_tracker_def)
  then show ?thesis
    using download_refines_store [OF demo_ok demo_starts t(1), of _ _ 0 demo_content] t(2) by blast
qed

text \<open>
  C3. When \<^verbatim>\<open>WaitUntilDownloaded\<close> fires, the torrent is there: if the channel \<^verbatim>\<open>completed\<close> is closed,
  the client has every piece, each is on disk with its size and hash, and \<^verbatim>\<open>Downloaded\<close> is the size
  of the torrent.
\<close>

theorem completed_all_verified:
  assumes "torrent_ok m" and "starts m ts0" and "rtranclp dstep ts0 (t, s)" and "completed t = ClosedChan"
  shows "have_set (BitField t) = {..<num_pieces m} \<and> (\<forall>i < num_pieces m. on_disk t i)
    \<and> tDownloaded t = int (total_size m)"
proof -
  have inv: "dl_inv (t, s)" and m: "Torrent t = m"
    using reach_inv_for(2) [OF assms(1-3)] by (auto simp: dl_inv_for_def)
  with assms(4) have "unverified s = []" "active t = {}" by (auto simp: dl_inv_def)
  with inv m have all: "have_set (BitField t) = {..<num_pieces m}"
    by (auto simp: dl_inv_def partitioned_def disjoint_cover_def active_pieces_def)
  with inv m \<open>active t = {}\<close> sum_pieces_total [OF assms(1)] show ?thesis
    by (auto simp: dl_inv_def accounted_def simp del: of_nat_sum)
qed

theorem completed_all_verified_witness:
  "have_set (BitField (demo_full\<lparr>completed := ClosedChan\<rparr>)) = {..<num_pieces demo}"
  using completed_all_verified [OF demo_ok demo_full_starts r_into_rtranclp [where r = dstep, OF demo_completes]] by simp

text \<open>
  C5. An honest swarm completes a piece. If all blocks of the piece in a slot have been requested, none of
  those received is false and the disk works, then any sequence of true blocks of the piece that contains the missing ones, in
  any order, with duplicates and with blocks nobody asked for, verifies the piece: its bit is set, its file
  holds exactly the content, and the slot is free.
\<close>

theorem honest_delivery_verifies:
  assumes "dl_inv (t, s)" and "i < length (dslots t)" and "dslots t ! i = Some a" and "Pending (heap t ! a) = []"
    and "length d = piece_size (Torrent t) (unat (pIndex (heap t ! a)))"
    and "sha1 d = hash_of (Torrent t) (unat (pIndex (heap t ! a)))"
    and "list_all (honest d) (Received (heap t ! a))"
    and "list_all (\<lambda>(env, pc). env_ok env \<and> fs_up (e_fs env) \<and> honest d pc \<and> length (pc_block pc) < 2 ^ 32
      \<and> pc_index pc = pIndex (heap t ! a)) eps"
    and "set_mset (open_requests (heap t ! a)) \<subseteq> request_of ` snd ` set eps"
  shows "\<exists>t'. recvPieces eps t = Ok t' \<and> dl_inv (t', s) \<and> dslots t' = (dslots t)[i := None]
    \<and> have_set (BitField t') = insert (unat (pIndex (heap t ! a))) (have_set (BitField t))
    \<and> files (disk t') (piece_file (DownloadDir t) (pIndex (heap t ! a))) = Some d"
proof (rule deliver [OF assms(1-3)])
  show "awaiting (Torrent t) d (map snd eps) (heap t ! a)"
    using assms(4-9) by (auto simp: awaiting_def list_all_iff)
  show "list_all (\<lambda>(env, pc). env_ok env \<and> fs_up (e_fs env)) eps" using assms(8) by (auto simp: list_all_iff)
qed

theorem honest_delivery_verifies_witness:
  "\<exists>t'. recvPieces [(demo_env, demo_block\<lparr>pc_block := [1, 2]\<rparr>), (demo_env, demo_block), (demo_env, demo_block)] demo_flight = Ok t'
    \<and> 0 \<in> have_set (BitField t')
    \<and> files (disk t') (piece_file (saved_dir (str ''dl'') demo) 0) = Some demo_content"
proof -
  let ?eps = "[(demo_env, demo_block\<lparr>pc_block := [1, 2]\<rparr>), (demo_env, demo_block), (demo_env, demo_block)]"
  have p: "heap demo_flight ! 0 = demo_piece" "Torrent demo_flight = demo" "dslots demo_flight = [Some 0, None, None, None]"
    "DownloadDir demo_flight = saved_dir (str ''dl'') demo" by (simp_all add: demo_flight_def demo_tracker_def)
  have "open_requests demo_piece = {#request_of demo_block#}"
    by (simp add: open_requests_def demo_piece_def request_of_def demo_block_def demo_content_def)
  moreover have "honest demo_content demo_block" "honest demo_content (demo_block\<lparr>pc_block := [1, 2]\<rparr>)"
    "pc_index demo_block = 0" "length (pc_block demo_block) = 5"
    by (simp_all add: honest_def demo_block_def demo_content_def)
  moreover have "pIndex demo_piece = 0" "Pending demo_piece = []" "Received demo_piece = []" by (simp_all add: demo_piece_def)
  ultimately show ?thesis
    using honest_delivery_verifies [OF demo_flight_inv, of 0 0 demo_content ?eps] demo_hash
    by (auto simp: p demo_sizes demo_content_def)
qed

end
