(* ===== verification/Upload.thy ===== *)
theory Upload
  imports DownloadInvariant
begin

text \<open>
  Package \<^verbatim>\<open>internal/status\<close>, file \<^verbatim>\<open>upload.go\<close>: serving the blocks leechers ask for.

  \<^item> \<open>AddLeecher\<close> accepts a connection; \<open>handle_request\<close> and \<open>handle_cancel\<close> are the two
    cases of \<^verbatim>\<open>handleRequests\<close>, which fill and clear the 75 upload slots.
  \<^item> \<open>serve_slot\<close> answers the request of one slot and \<open>serve_slots\<close> is a round of
    \<^verbatim>\<open>processUploadRequests\<close>.
  \<^item> \<open>leecher_refresh\<close> with \<open>leecher_exit\<close>, and \<open>unchoke_round\<close>, are the ticks of
    \<^verbatim>\<open>keepAliveLeechers\<close> and \<^verbatim>\<open>optimisticUnchoke\<close>.
  \<^item> A compare-and-swap on a slot compares the request that was read with the one that is there.
  \<^item> \<open>gostep\<close> are the steps of all goroutines of the torrent, with \<open>listen_turn\<close> for the listeners of its peers, and
    \<open>tstep\<close> adds \<^verbatim>\<open>Close\<close>; \<open>other_step\<close> is what the steps that are not the download's can do.

  Shown: a block the client has is sent to the leecher that asked for it; the slots hold only
  requests for pieces the client has; nothing here disturbs the download; a closed torrent is resumed
  with the pieces that were saved.
\<close>

section \<open>Operations\<close>

definition AddLeecher ::
  "Env \<Rightarrow> NetEnv \<Rightarrow> bytes \<Rightarrow> bytes \<Rightarrow> Conn \<Rightarrow> StatusTracker \<Rightarrow> StatusTracker \<times> nat outcome" where
  "AddLeecher env nenv pid addr c t =
     (case obind (NumPieces (Torrent t))
         (\<lambda>n. NewLeecherConnection nenv pid addr n c (Hash (mInfo (Torrent t))) (clientID t)) of
        Panic s \<Rightarrow> (t, Panic s)
      | Err e \<Rightarrow> (t, Err (ErrorMsg ''failed to establish leecher connection''))
      | Ok p \<Rightarrow>
          let a = length (peers t);
              t1 = t\<lparr>peers := peers t @ [p],
                     leechers := dict_set addr a (dict_del addr (leechers t))\<rparr>;
              b = Clone (BitField t1)
          in (case call_peer (SendBitfield (e_net env a (BitfieldMsg \<lparr>bitfield_bits = b\<rparr>)) b) (Some a) t1 of
                Ok (t2, None) \<Rightarrow> (t2, Ok a)
              | Ok (t2, Some e) \<Rightarrow>
                  (t2\<lparr>leechers := dict_del addr (leechers t2)\<rparr>, Err (Wrapped ''failed to send bitfield: '' e))
              | Err e \<Rightarrow> (t1, Err e)
              | Panic s \<Rightarrow> (t1, Panic s)))"

definition clear_slot :: "nat \<Rightarrow> timedUploadRequest \<Rightarrow> StatusTracker \<Rightarrow> StatusTracker" where
  "clear_slot i req t = (if uslots t ! i = Some req then t\<lparr>uslots := (uslots t)[i := None]\<rparr> else t)"

definition answer :: "Env \<Rightarrow> nat \<Rightarrow> timedUploadRequest \<Rightarrow> nat \<Rightarrow> StatusTracker \<Rightarrow> StatusTracker outcome" where
  "answer env i req a t =
     (case ReadRequest (e_fs env) t (ureq req) of
        Panic s \<Rightarrow> Panic s
      | Err e \<Rightarrow> Ok (clear_slot i req t)
      | Ok b \<Rightarrow>
          let pc = \<lparr>pc_index = req_index (ureq req), pc_begin = req_begin (ureq req), pc_block = b\<rparr> in
          obind (call_peer (SendPiece (e_net env a (PieceMsg pc)) pc) (Some a) t) (\<lambda>(t1, err).
          let t2 = clear_slot i req t1 in
          if err \<noteq> None then Ok t2 else Ok (t2\<lparr>tUploaded := i64 (tUploaded t2 + int (length b))\<rparr>)))"

fun serve_range :: "Env \<Rightarrow> nat \<Rightarrow> timedUploadRequest \<Rightarrow> nat dict \<Rightarrow> StatusTracker \<Rightarrow> StatusTracker outcome" where
  "serve_range env i req [] t = Ok t"
| "serve_range env i req ((key, a) # ls) t =
     (if key = uaddr req then answer env i req a t else serve_range env i req ls t)"

definition serve_slot :: "Env \<Rightarrow> nat \<Rightarrow> StatusTracker \<Rightarrow> StatusTracker outcome" where
  "serve_slot env i t =
     (case uslots t ! i of None \<Rightarrow> Ok t | Some req \<Rightarrow> serve_range env i req (e_leechers env (leechers t)) t)"

fun serve_slots :: "Env \<Rightarrow> nat list \<Rightarrow> StatusTracker \<Rightarrow> StatusTracker outcome" where
  "serve_slots env [] t = Ok t"
| "serve_slots env (i # is) t = obind (serve_slot env i t) (serve_slots env is)"

datatype UpEvent = UpStop | UpCancel | UpTick | UpRound Env

fun processUploadRequests :: "UpEvent list \<Rightarrow> int64 \<Rightarrow> StatusTracker \<Rightarrow> StatusTracker outcome" where
  "processUploadRequests [] rate t = Ok t"
| "processUploadRequests (UpStop # es) rate t = Ok t"
| "processUploadRequests (UpCancel # es) rate t = Ok t"
| "processUploadRequests (UpTick # es) rate t =
     processUploadRequests es (tUploaded t) (t\<lparr>urate := max 0 (i64 (tUploaded t - rate))\<rparr>)"
| "processUploadRequests (UpRound env # es) rate t =
     obind (serve_slots env [0..<length (uslots t)] t) (processUploadRequests es rate)"

definition matches_cancel :: "Cancel \<Rightarrow> timedUploadRequest \<Rightarrow> bool" where
  "matches_cancel c req \<longleftrightarrow> req_index (ureq req) = cnc_index c \<and> req_begin (ureq req) = cnc_begin c
     \<and> req_length (ureq req) = cnc_length c"

definition handle_cancel :: "Cancel \<Rightarrow> StatusTracker \<Rightarrow> StatusTracker" where
  "handle_cancel c t =
     t\<lparr>uslots := map (\<lambda>x. case x of None \<Rightarrow> None | Some req \<Rightarrow> if matches_cancel c req then None else Some req)
       (uslots t)\<rparr>"

definition handle_request :: "nat \<Rightarrow> bytes \<Rightarrow> Request \<Rightarrow> StatusTracker \<Rightarrow> StatusTracker outcome" where
  "handle_request now addr r t =
     obind (Check (BitField t) (req_index r)) (\<lambda>has.
     if \<not> has then Ok t
     else (case first_free 0 (uslots t) of
       None \<Rightarrow> Ok t
     | Some slot \<Rightarrow>
         Ok (t\<lparr>uslots := (uslots t)[slot := Some \<lparr>ureq = r, urecieved = now, uaddr = addr\<rparr>]\<rparr>)))"

text \<open>One message of \<^verbatim>\<open>handleRequests\<close>, from the leecher at address \<open>addr\<close>.\<close>

fun handleRequests :: "nat \<Rightarrow> bytes \<Rightarrow> Emit list \<Rightarrow> StatusTracker \<Rightarrow> StatusTracker outcome" where
  "handleRequests now addr [] t = Ok t"
| "handleRequests now addr (EmitRequest r # es) t = obind (handle_request now addr r t) (handleRequests now addr es)"
| "handleRequests now addr (EmitCancel c # es) t = handleRequests now addr es (handle_cancel c t)"
| "handleRequests now addr (EmitPiece pc # es) t = handleRequests now addr es t"

definition leecher_exit ::
  "NetEnv \<Rightarrow> (nat \<Rightarrow> error option) \<Rightarrow> bool \<Rightarrow> nat \<Rightarrow> StatusTracker \<Rightarrow> StatusTracker outcome option" where
  "leecher_exit nenv deadline live a t =
     map_option (\<lambda>r. obind r (\<lambda>t'. Ok (t'\<lparr>leechers := dict_del (Addr (peers t ! a)) (leechers t')\<rparr>)))
       (close_peer nenv deadline live (Some a) t)"

text \<open>The flag says whether the goroutine goes on.\<close>

definition leecher_refresh ::
  "Env \<Rightarrow> NetEnv \<Rightarrow> (nat \<Rightarrow> error option) \<Rightarrow> bool \<Rightarrow> nat \<Rightarrow> StatusTracker \<Rightarrow> (StatusTracker \<times> bool) outcome option" where
  "leecher_refresh env nenv deadline live a t =
     (let leave = (\<lambda>live t. map_option (\<lambda>r. obind r (\<lambda>t'. Ok (t', False))) (leecher_exit nenv deadline live a t)) in
      (case ConnectionStatus_of (Some (peers t ! a)) of
         Panic s \<Rightarrow> Some (Panic s)
       | Err e \<Rightarrow> Some (Err e)
       | Ok ConnectionKilled \<Rightarrow> leave False t
       | Ok ConnectionEstablished \<Rightarrow>
           (case call_peer (SendKeepAlive (e_net env a KeepAliveMsg)) (Some a) t of
              Ok (t1, None) \<Rightarrow> Some (Ok (t1, True))
            | Ok (t1, Some e) \<Rightarrow> leave live t1
            | Err e \<Rightarrow> Some (Err e)
            | Panic s \<Rightarrow> Some (Panic s))))"

fun unchoke_round :: "Env \<Rightarrow> nat list \<Rightarrow> StatusTracker \<Rightarrow> StatusTracker outcome" where
  "unchoke_round env [] t = Ok t"
| "unchoke_round env (a # as) t =
     (if StatusThis (peers t ! a) = Choked \<and> InterestRemote (peers t ! a) = Interested
      then obind (call_peer (SendUnchoke (e_net env a UnchokeMsg)) (Some a) t) (\<lambda>(t', _). Ok t')
      else unchoke_round env as t)"

definition optimisticUnchoke :: "Env \<Rightarrow> StatusTracker \<Rightarrow> StatusTracker outcome" where
  "optimisticUnchoke env t = unchoke_round env (leecher_range env t) t"

section \<open>Uploads leave the download alone\<close>

definition served :: "nat \<Rightarrow> timedUploadRequest \<Rightarrow> StatusTracker \<Rightarrow> StatusTracker \<Rightarrow> bool" where
  "served i req t t' \<longleftrightarrow> (\<exists>t1 us n. swarm_step t t1 \<and> t' = t1\<lparr>uslots := us, tUploaded := n\<rparr>
     \<and> (us = uslots t \<or> us = (uslots t)[i := None]))"

lemma served_refl: "swarm_ok t \<Longrightarrow> served i req t t"
  unfolding served_def by (intro exI [of _ t] exI [of _ "uslots t"] exI [of _ "tUploaded t"]) (simp add: swarm_step_refl)

lemma served_clear:
  assumes "swarm_step t t1"
  shows "served i req t ((clear_slot i req t1)\<lparr>tUploaded := n\<rparr>)" and "served i req t (clear_slot i req t1)"
proof -
  note us = swarm_step_frame(1) [OF assms]
  show "served i req t ((clear_slot i req t1)\<lparr>tUploaded := n\<rparr>)"
    unfolding served_def clear_slot_def
    by (intro exI [of _ t1] exI [of _ "if uslots t1 ! i = Some req then (uslots t1)[i := None] else uslots t1"] exI [of _ n])
      (simp add: assms us)
  show "served i req t (clear_slot i req t1)"
    unfolding served_def clear_slot_def
    by (intro exI [of _ t1] exI [of _ "if uslots t1 ! i = Some req then (uslots t1)[i := None] else uslots t1"]
        exI [of _ "tUploaded t1"]) (simp add: assms us)
qed

lemma answer_served:
  assumes "swarm_ok t" and "env_ok env" and "a < length (peers t)" and "answer env i req a t = Ok t'"
  shows "served i req t t'"
proof (cases "ReadRequest (e_fs env) t (ureq req)")
  case (Ok b)
  let ?pc = "\<lparr>pc_index = req_index (ureq req), pc_begin = req_begin (ureq req), pc_block = b\<rparr>"
  from call_send_swarm [OF swarm_step_refl [OF assms(1)] assms(3,2), of "PieceMsg ?pc"] obtain t1 err where
    t1: "call_peer (SendPiece (e_net env a (PieceMsg ?pc)) ?pc) (Some a) t = Ok (t1, err)" "swarm_step t t1"
    by (auto simp: send_forms simp del: send.simps)
  from assms(4) Ok t1(1) served_clear [OF t1(2), where i = i and req = req] show ?thesis
    by (auto simp: answer_def Let_def split: if_splits)
next
  case (Err e)
  with assms served_clear(2) [OF swarm_step_refl [OF assms(1)]] show ?thesis by (auto simp: answer_def)
next
  case (Panic s)
  with assms(4) show ?thesis by (simp add: answer_def)
qed

lemma serve_range_served:
  "swarm_ok t \<Longrightarrow> env_ok env \<Longrightarrow> \<forall>a \<in> set (map snd ls). a < length (peers t) \<Longrightarrow>
     serve_range env i req ls t = Ok t' \<Longrightarrow> served i req t t'"
  by (induction env i req ls t rule: serve_range.induct) (auto intro: answer_served served_refl split: if_splits)

lemma serve_slot_served:
  assumes "swarm_ok t" and "env_ok env" and "serve_slot env i t = Ok t'"
  shows "\<exists>req. served i req t t'"
proof (cases "uslots t ! i")
  case None
  with assms(3) served_refl [OF assms(1)] show ?thesis by (auto simp: serve_slot_def)
next
  case (Some req)
  from assms(3) Some have "served i req t t'"
    using serve_range_served [OF assms(1,2)] addresses_valid(2) [OF assms(1), of "e_leechers env"] served_refl [OF assms(1)] assms(2)
    by (auto simp: serve_slot_def env_ok_def)
  then show ?thesis ..
qed

lemma NewLeecherConnection_inv:
  assumes "NewLeecherConnection nenv pid addr (int n) c ih cid = Ok p" and "n \<le> 2 ^ 32"
  shows "peer_inv n p"
proof -
  obtain b where b: "NewBitfield (int n) = Ok b" using NewBitfield_total [of "int n"] by auto
  have wf: "bf_wf b" "bf_count b = n"
    using NewBitfield_wf [OF _ _ b] assms(2) b by (auto simp: NewBitfield_def Let_def bf_count_def split: if_splits)
  from assms(1) b obtain q where hs: "sendHandshakeV1 nenv ih cid (new_peer pid addr (Some c) leecher b) = (q, Ok ())"
    and p: "start_listener nenv (q\<lparr>requests_chan := OpenChan, cancels_chan := OpenChan\<rparr>) = Ok p"
    by (auto simp: NewLeecherConnection_def failed_handshake_def split: prod.splits outcome.splits if_splits)
  from hs have "\<exists>w msg. write_msg nenv w msg (new_peer pid addr (Some c) leecher b) = (q, Ok ())"
    by (auto simp: sendHandshakeV1_def write_handshake_def lift_err_def split: if_splits outcome.splits option.splits)
  then have "PeerBitfield q = b" "conn q \<noteq> None" "peer_typ q = leecher"
    by (auto dest!: write_msg_frame simp: new_peer_def)
  with start_listener_inv [OF p, of n] wf show ?thesis by (simp add: peer_wf_def)
qed

lemma AddLeecher_swarm:
  assumes "swarm_ok t" and "torrent_ok (Torrent t)" and "env_ok env" and "AddLeecher env nenv pid addr c t = (t', r)"
  shows "swarm_step t t' \<and> (\<forall>a. r = Ok a \<longrightarrow> a < length (peers t') \<and> dict_get (leechers t') addr = Some a)"
proof -
  let ?n = "num_pieces (Torrent t)"
  have n: "NumPieces (Torrent t) = Ok (int ?n)" "?n \<le> 2 ^ 32" using assms(2) by (auto simp: torrent_ok_def)
  obtain res where res: "NewLeecherConnection nenv pid addr (int ?n) c (Hash (mInfo (Torrent t))) (clientID t) = res" by simp
  show ?thesis
  proof (cases res)
    case (Ok p)
    let ?a = "length (peers t)"
    let ?t1 = "t\<lparr>peers := peers t @ [p], leechers := dict_set addr ?a (dict_del addr (leechers t))\<rparr>"
    have "peer_inv ?n p" using NewLeecherConnection_inv [OF _ n(2)] res Ok by simp
    then have "swarm_ok (t\<lparr>peers := peers t @ [p], seeders := seeders t,
        leechers := dict_set addr ?a (dict_del addr (leechers t))\<rparr>)"
      using snd_dict_set [of addr ?a "dict_del addr (leechers t)"] snd_dict_del [of addr "leechers t"]
      by (intro swarm_ok_add [OF assms(1)]) (assumption, blast)
    moreover have "t\<lparr>peers := peers t @ [p], seeders := seeders t,
        leechers := dict_set addr ?a (dict_del addr (leechers t))\<rparr> = ?t1" by (cases t) simp
    ultimately have ar: "swarm_step t ?t1" using swarm_step_maps by metis
    let ?b = "BitfieldMsg \<lparr>bitfield_bits = Clone (BitField t)\<rparr>"
    from call_send_swarm [OF ar _ assms(3), of ?a ?b] obtain t2 e2 where
      t2: "call_peer (send (e_net env ?a ?b) ?b) (Some ?a) ?t1 = Ok (t2, e2)" "swarm_step t t2" "length (peers t2) = Suc ?a" by auto
    have lc: "leechers t2 = leechers ?t1"
      using t2(1) by (auto simp: call_peer_def nil_deref_def Let_def simp del: send.simps split: if_splits prod.splits option.splits outcome.splits)
    have "swarm_ok (t2\<lparr>seeders := seeders t2, leechers := dict_del addr (leechers t2)\<rparr>)"
      using snd_dict_del [of addr "leechers t2"] by (intro swarm_ok_sub [OF swarm_step_swarm [OF t2(2)]]) blast
    then have "swarm_step t (t2\<lparr>leechers := dict_del addr (leechers t2)\<rparr>)"
      using swarm_step_trans [OF t2(2) swarm_step_maps [where t = t2 and ps = "peers t2" and sd = "seeders t2"]] by simp
    with t2 lc assms(4) n res Ok show ?thesis
      by (cases e2) (auto simp: AddLeecher_def Let_def send_forms dict_get_set simp del: send.simps)
  next
    case (Err e)
    with assms n res swarm_step_refl show ?thesis by (auto simp: AddLeecher_def)
  next
    case (Panic m)
    with assms n res swarm_step_refl show ?thesis by (auto simp: AddLeecher_def)
  qed
qed

lemma unchoke_swarm:
  assumes "swarm_ok t" and "env_ok env" and "optimisticUnchoke env t = Ok t'"
  shows "swarm_step t t'"
proof -
  have "unchoke_round env as t = Ok t' \<Longrightarrow> \<forall>a \<in> set as. a < length (peers t) \<Longrightarrow> swarm_step t t'" for as
  proof (induction as)
    case (Cons a as)
    from call_send_swarm [OF swarm_step_refl [OF assms(1)] _ assms(2), of a UnchokeMsg] Cons.prems(2) obtain t1 err where
      "call_peer (SendUnchoke (e_net env a UnchokeMsg)) (Some a) t = Ok (t1, err)" "swarm_step t t1"
      by (auto simp: send_forms simp del: send.simps)
    with Cons show ?case by (auto split: if_splits)
  qed (use swarm_step_refl [OF assms(1)] in auto)
  then show ?thesis
    using assms addresses_valid(2) [OF assms(1), of "e_leechers env"] by (simp add: optimisticUnchoke_def env_ok_def)
qed

lemma leecher_exit_swarm:
  assumes "swarm_step t t1" and "a < length (peers t1)" and "live \<longrightarrow> peer_wf (peers t1 ! a)"
  shows "\<exists>t2. leecher_exit nenv deadline live a t1 = Some (Ok t2) \<and> swarm_step t t2"
proof -
  from close_peer_ok [OF swarm_step_swarm [OF assms(1)] assms(2,3), of nenv deadline] obtain t2 where
    t2: "close_peer nenv deadline live (Some a) t1 = Some (Ok t2)" "only_peers t1 t2" by blast
  let ?d = "dict_del (Addr (peers t1 ! a)) (leechers t2)"
  have "swarm_ok (t2\<lparr>seeders := seeders t2, leechers := ?d\<rparr>)"
    using snd_dict_del [of "Addr (peers t1 ! a)" "leechers t2"]
    by (intro swarm_ok_sub [OF only_peers_swarm [OF t2(2)]]) blast
  then have "swarm_step t2 (t2\<lparr>leechers := ?d\<rparr>)" using swarm_step_maps [where t = t2 and ps = "peers t2" and sd = "seeders t2"] by simp
  then have "swarm_step t (t2\<lparr>leechers := ?d\<rparr>)"
    using swarm_step_trans [OF swarm_step_trans [OF assms(1) swarm_step_only_peers [OF t2(2)]]] by blast
  with t2(1) show ?thesis by (simp add: leecher_exit_def)
qed

lemma call_wf:
  assumes "peer_inv n (peers t ! a)" and "a < length (peers t)" and "env_ok env"
    and "call_peer (send (e_net env a m) m) (Some a) t = Ok (t1, err)" and "peer_wf (peers t ! a)"
  shows "peer_wf (peers t1 ! a)"
proof -
  obtain c where c: "conn (peers t ! a) = Some c" using assms(1) by (auto simp: peer_inv_def)
  have ok: "writer_ok (e_net env a m)" using assms(3) by (simp add: env_ok_def net_ok_def)
  from send_total [OF c ok, of m] obtain q r c' where q: "send (e_net env a m) m (Some (peers t ! a)) = (Some q, r)"
    "q = (peers t ! a)\<lparr>conn := Some c'\<rparr> \<or> q = sent_effect m ((peers t ! a)\<lparr>conn := Some c'\<rparr>)" by blast
  have "peers t1 ! a = q"
    using assms(2,4) q(1) by (cases r) (auto simp: call_peer_def simp del: send.simps)
  with q(2) assms(5) show ?thesis by (cases m) (auto simp: peer_wf_def)
qed

lemma seeder_exit_swarm:
  assumes "swarm_ok t" and "env_ok env" and "\<forall>a. ptr = Some a \<longrightarrow> a < length (peers t)"
    and "\<forall>a. ptr = Some a \<and> live \<longrightarrow> peer_wf (peers t ! a)"
  shows "\<exists>t'. seeder_exit env nenv deadline live ptr t = Some (Ok t') \<and> swarm_step t t'"
proof (cases ptr)
  case None
  then show ?thesis
    using swarm_step_refl [OF assms(1)] by (simp add: seeder_exit_def call_peer_def close_peer_def notinterested_send.nil_receiver)
next
  case (Some a)
  then have a: "a < length (peers t)" "live \<longrightarrow> peer_wf (peers t ! a)" using assms(3,4) by auto
  from call_send_swarm [OF swarm_step_refl [OF assms(1)] a(1) assms(2), of NotInterestMsg] obtain t1 err where
    t1: "call_peer (send (e_net env a NotInterestMsg) NotInterestMsg) (Some a) t = Ok (t1, err)" "swarm_step t t1"
      "length (peers t1) = length (peers t)" by blast
  have "live \<longrightarrow> peer_wf (peers t1 ! a)"
    using call_wf [OF swarm_ok_peer [OF assms(1) a(1)] a(1) assms(2) t1(1)] a(2) by blast
  from close_peer_ok [OF swarm_step_swarm [OF t1(2)] _ this, of nenv deadline] a(1) t1(3) obtain t2 where
    "close_peer nenv deadline live (Some a) t1 = Some (Ok t2)" "only_peers t1 t2" by auto
  with t1 Some swarm_step_trans [OF t1(2) swarm_step_only_peers] show ?thesis
    by (auto simp: seeder_exit_def send_forms simp del: send.simps)
qed

lemma leecher_refresh_swarm:
  assumes "swarm_ok t" and "env_ok env" and "a < length (peers t)" and "live \<longrightarrow> peer_wf (peers t ! a)"
    and "leecher_refresh env nenv deadline live a t = Some (Ok (t', go))"
  shows "swarm_step t t'"
proof -
  have p: "peer_inv (num_pieces (Torrent t)) (peers t ! a)" using swarm_ok_peer [OF assms(1,3)] .
  show ?thesis
  proof (cases "connectionStatus (peers t ! a) = 0")
    case True
    from call_send_swarm [OF swarm_step_refl [OF assms(1)] assms(3,2), of KeepAliveMsg] obtain t1 err where
      t1: "call_peer (SendKeepAlive (e_net env a KeepAliveMsg)) (Some a) t = Ok (t1, err)" "swarm_step t t1"
        "length (peers t1) = length (peers t)" by (auto simp: send_forms simp del: send.simps)
    show ?thesis
    proof (cases err)
      case None
      with assms(5) True t1 show ?thesis by (auto simp: leecher_refresh_def ConnectionStatus_of_def Let_def)
    next
      case e: (Some e)
      have "live \<longrightarrow> peer_wf (peers t1 ! a)"
        using failed_call_wf [OF p assms(3,2), of KeepAliveMsg t1 e] t1(1) e assms(4)
        by (simp add: send_forms del: send.simps)
      from leecher_exit_swarm [OF t1(2) _ this, of nenv deadline] assms(3) t1(3) obtain t2 where
        "leecher_exit nenv deadline live a t1 = Some (Ok t2)" "swarm_step t t2" by auto
      with assms(5) True t1 e show ?thesis by (auto simp: leecher_refresh_def ConnectionStatus_of_def Let_def)
    qed
  next
    case False
    with p have "ConnectionStatus_of (Some (peers t ! a)) = Ok ConnectionKilled"
      by (auto simp: ConnectionStatus_of_def peer_inv_def)
    moreover from leecher_exit_swarm [OF swarm_step_refl [OF assms(1)] assms(3), of False nenv deadline] obtain t2 where
      "leecher_exit nenv deadline False a t = Some (Ok t2)" "swarm_step t t2" by auto
    ultimately show ?thesis using assms(5) by (auto simp: leecher_refresh_def Let_def)
  qed
qed

section \<open>The tracker\<close>

text \<open>
  One turn of \<^verbatim>\<open>listener\<close>: what the loop of a peer does between two calls of \<^verbatim>\<open>SetReadDeadline\<close>. The flag says
  whether the loop goes on.
\<close>

definition listen_turn :: "NetEnv \<Rightarrow> error option \<Rightarrow> Peer \<Rightarrow> (Peer \<times> Emit list \<times> bool) outcome" where
  "listen_turn env deadline p =
     (case conn p of
        None \<Rightarrow> nil_deref
      | Some c \<Rightarrow>
          if deadline \<noteq> None then Ok (p, [], False)
          else (case Identify (cin c) of (res, r) \<Rightarrow>
            let p1 = p\<lparr>conn := Some (c\<lparr>cin := r\<rparr>)\<rparr> in
            (case res of
               Panic s \<Rightarrow> Panic s
             | Err e \<Rightarrow>
                 if error_is e DeadlineExceeded
                 then Ok (p1\<lparr>conn := Some (close_conn env (c\<lparr>cin := r\<rparr>))\<rparr>, [], False)
                 else Ok (p1, [], \<not> (error_is e IoEOF \<or> error_is e NetClosed))
             | Ok msg \<Rightarrow>
                 (case process p1 msg of
                    Panic s \<Rightarrow> Panic s
                  | Err e \<Rightarrow> Ok (p1, [], True)
                  | Ok (p2, es) \<Rightarrow> Ok (p2, es, True)))))"

text \<open>
  All goroutines of one torrent together: the steps of the download, and everything else that changes
  the tracker. A listener whose channels are open takes a turn, or ends by itself. A request or a cancel
  that \<^verbatim>\<open>handleRequests\<close> takes is one the listener of a leecher \<open>p\<close> has sent; the step may come long after the turn of the
  listener, so it does not ask what has become of \<open>p\<close> in the meantime.
\<close>

inductive gostep :: "StatusTracker \<times> Scheduler \<Rightarrow> StatusTracker \<times> Scheduler \<Rightarrow> bool" where
  download: "gostep ts ts'" if "dl_step ts ts'"
| message: "gostep (t, s) (t\<lparr>peers := (peers t)[i := q]\<rparr>, s)"
    if "i < length (peers t)" "peer_wf (peers t ! i)" "listen_turn nenv deadline (peers t ! i) = Ok (q, es, True)"
| listener_ends: "gostep (t, s) (t\<lparr>peers := (peers t)[i := q']\<rparr>, s)"
    if "i < length (peers t)" "peer_wf (peers t ! i)" "listen_turn nenv deadline (peers t ! i) = Ok (q, es, False)"
      "listener_exit q = Ok q'"
| refresh: "gostep (t, s) (t', s)"
    if "env_ok env" "\<forall>a. ptr = Some a \<longrightarrow> a < length (peers t)" "\<forall>a. ptr = Some a \<and> live \<longrightarrow> peer_wf (peers t ! a)"
      "seeder_refresh env nenv deadlines live dial addr ptr t = Some (Ok (t', ptr'))"
| seeder_leaves: "gostep (t, s) (t', s)"
    if "env_ok env" "\<forall>a. ptr = Some a \<longrightarrow> a < length (peers t)" "\<forall>a. ptr = Some a \<and> live \<longrightarrow> peer_wf (peers t ! a)"
      "seeder_exit env nenv deadlines live ptr t = Some (Ok t')"
| leecher_leaves: "gostep (t, s) (t', s)"
    if "a < length (peers t)" "live \<longrightarrow> peer_wf (peers t ! a)" "leecher_exit nenv deadlines live a t = Some (Ok t')"
| accept: "gostep (t, s) (t', s)" if "env_ok env" "AddLeecher env nenv pid addr c t = (t', r)"
| request: "gostep (t, s) (t', s)"
    if "peer_wf p" "listen_turn nenv None p = Ok (q, es, True)" "EmitRequest r \<in> set es"
      "handle_request now (Addr p) r t = Ok t'"
| cancel: "gostep (t, s) (handle_cancel c t, s)"
    if "peer_wf p" "listen_turn nenv None p = Ok (q, es, True)" "EmitCancel c \<in> set es"
| serve: "gostep (t, s) (t', s)" if "env_ok env" "serve_slot env i t = Ok t'"
| keep: "gostep (t, s) (t', s)"
    if "env_ok env" "a < length (peers t)" "live \<longrightarrow> peer_wf (peers t ! a)"
      "leecher_refresh env nenv deadlines live a t = Some (Ok (t', go))"
| unchoke: "gostep (t, s) (t', s)" if "env_ok env" "optimisticUnchoke env t = Ok t'"
| rate: "gostep (t, s) (t\<lparr>urate := max 0 (i64 (tUploaded t - prev))\<rparr>, s)"
| cancel_download: "gostep (t, s) (t', s)" if "CancelDownload t = Ok t'"

text \<open>With \<^verbatim>\<open>Close\<close>, in its two parts.\<close>

inductive tstep :: "StatusTracker \<times> Scheduler \<Rightarrow> StatusTracker \<times> Scheduler \<Rightarrow> bool" where
  goes: "tstep ts ts'" if "gostep ts ts'"
| save: "tstep (t, s) (save_bitfield fsenv t, s)"
| close: "tstep (t, s) (t', s)" if "close_stop t = Ok t'"

lemma listener_loop_turn:
  "listener_loop env deadline i p out =
     (case listen_turn env (deadline i) p of
        Panic s \<Rightarrow> Some (Panic s)
      | Err e \<Rightarrow> Some (Err e)
      | Ok (q, es, go) \<Rightarrow> if go then listener_loop env deadline (Suc i) q (out @ es) else Some (Ok (q, out @ es)))"
  by (subst listener_loop.simps)
    (simp add: listen_turn_def nil_deref_def Let_def split: option.split prod.split outcome.split)

lemma listen_turn_inv:
  assumes "bf_wf (PeerBitfield p)" and "listen_turn env deadline p = Ok (q, es, go)"
  shows "conn q \<noteq> None \<and> keeps p q \<and> bf_wf (PeerBitfield q) \<and> list_all (emit_ok p) es"
proof -
  from assms(2) obtain c where c: "conn p = Some c" by (auto simp: listen_turn_def nil_deref_def split: option.splits)
  have turn: ?thesis if "process (p\<lparr>conn := Some x\<rparr>) msg = Ok (q, es)" for x msg
    using process_safe [of "p\<lparr>conn := Some x\<rparr>" msg] that assms(1) by (simp add: step_ok_def)
  show ?thesis
  proof (cases "deadline \<noteq> None")
    case True
    with c assms show ?thesis by (auto simp: listen_turn_def keeps_refl)
  next
    case False
    obtain res r where id: "Identify (cin c) = (res, r)" by force
    show ?thesis
    proof (cases res)
      case (Ok msg)
      with assms c False id turn [where x = "c\<lparr>cin := r\<rparr>" and msg = msg] show ?thesis
        by (cases "process (p\<lparr>conn := Some (c\<lparr>cin := r\<rparr>)\<rparr>) msg") (auto simp: listen_turn_def Let_def keeps_refl)
    qed (use assms c False id in \<open>auto simp: listen_turn_def Let_def keeps_refl split: if_splits\<close>)
  qed
qed

lemma listen_turn_swarm:
  assumes "swarm_ok t" and "i < length (peers t)" and "listen_turn env deadline (peers t ! i) = Ok (q, es, go)"
  shows "swarm_step t (t\<lparr>peers := (peers t)[i := q]\<rparr>)"
    and "listener_exit q = Ok q' \<Longrightarrow> swarm_step t (t\<lparr>peers := (peers t)[i := q']\<rparr>)"
proof -
  have p: "peer_inv (num_pieces (Torrent t)) (peers t ! i)" using swarm_ok_peer [OF assms(1,2)] .
  then have q: "peer_inv (num_pieces (Torrent t)) q"
    using listen_turn_inv [OF _ assms(3)] by (auto simp: peer_inv_def keeps_def bf_count_def)
  have put: "swarm_step t (t\<lparr>peers := (peers t)[i := x]\<rparr>)" if "peer_inv (num_pieces (Torrent t)) x" for x
    using swarm_ok_put [OF assms(1) that] by (intro swarm_step_only_peers) (auto simp: only_peers_def)
  show "swarm_step t (t\<lparr>peers := (peers t)[i := q]\<rparr>)" using put [OF q] .
  assume "listener_exit q = Ok q'"
  with q have "peer_inv (num_pieces (Torrent t)) q'"
    by (cases "peer_typ q") (auto simp: listener_exit_def outcome_simps peer_inv_def)
  then show "swarm_step t (t\<lparr>peers := (peers t)[i := q']\<rparr>)" by (rule put)
qed

text \<open>
  What the steps other than the download's may do: change peers and their maps, queue a valid request for a piece that
  is there, clear upload slots, count, and close the channel that cancels the download.
\<close>

definition other_step :: "StatusTracker \<Rightarrow> StatusTracker \<Rightarrow> bool" where
  "other_step t t' \<longleftrightarrow> (\<exists>t1 us n r c. swarm_step t t1
     \<and> t' = t1\<lparr>uslots := us, tUploaded := n, urate := r, dcancel := c\<rparr> \<and> (c = dcancel t \<or> c = ClosedChan)
     \<and> length us = length (uslots t)
     \<and> (\<forall>req. Some req \<in> set us \<longrightarrow> Some req \<in> set (uslots t)
          \<or> request_valid (ureq req) \<and> Check (BitField t) (req_index (ureq req)) = Ok True))"

lemma swarm_step_chans:
  assumes "swarm_step t t'"
  shows "stop t' = stop t" "dcancel t' = dcancel t" "completed t' = completed t"
proof -
  have eq: "t' = t\<lparr>peers := peers t', seeders := seeders t', leechers := leechers t'\<rparr>"
    using assms unfolding swarm_step_def by blast
  show "stop t' = stop t" "dcancel t' = dcancel t" "completed t' = completed t" by (subst eq, simp)+
qed

lemma other_step_swarm: "swarm_step t t' \<Longrightarrow> other_step t t'"
  unfolding other_step_def
  by (intro exI [of _ t'] exI [of _ "uslots t'"] exI [of _ "tUploaded t'"] exI [of _ "urate t'"] exI [of _ "dcancel t'"])
    (simp add: swarm_step_frame swarm_step_chans)

lemma other_stepI:
  assumes "swarm_step t t1" and "t' = t1\<lparr>uslots := us, tUploaded := n, urate := r, dcancel := c\<rparr>"
    and "c = dcancel t \<or> c = ClosedChan" and "length us = length (uslots t)"
    and "\<And>req. Some req \<in> set us \<Longrightarrow> Some req \<in> set (uslots t)
      \<or> request_valid (ureq req) \<and> Check (BitField t) (req_index (ureq req)) = Ok True"
  shows "other_step t t'"
  unfolding other_step_def using assms by blast

lemmas other_step_local = other_stepI [OF swarm_step_refl]

lemma served_other:
  assumes "served i req t t'"
  shows "other_step t t'"
proof -
  from assms obtain t1 us n where t1: "swarm_step t t1" "t' = t1\<lparr>uslots := us, tUploaded := n\<rparr>"
    "us = uslots t \<or> us = (uslots t)[i := None]" unfolding served_def by blast
  have sub: "set us \<subseteq> insert None (set (uslots t))"
    using t1(3) set_update_subset_insert [of "uslots t" i None] by auto
  show ?thesis
  proof (rule other_stepI [OF t1(1), where us = us and n = n and r = "urate t1" and c = "dcancel t1"])
    show "t' = t1\<lparr>uslots := us, tUploaded := n, urate := urate t1, dcancel := dcancel t1\<rparr>" using t1(2) by simp
    show "length us = length (uslots t)" using t1(3) by auto
  qed (use sub swarm_step_chans(2) [OF t1(1)] in auto)
qed

lemma handle_request_other:
  assumes "swarm_ok t" and "request_valid r" and "handle_request now addr r t = Ok t'"
  shows "other_step t t'"
proof -
  from assms(3) consider "t' = t" | slot where "Check (BitField t) (req_index r) = Ok True"
      "t' = t\<lparr>uslots := (uslots t)[slot := Some \<lparr>ureq = r, urecieved = now, uaddr = addr\<rparr>]\<rparr>"
    by (auto simp: handle_request_def outcome_simps split: if_splits option.splits)
  then show ?thesis
  proof cases
    case 1
    then show ?thesis using other_step_swarm [OF swarm_step_refl [OF assms(1)]] by simp
  next
    case (2 slot)
    let ?req = "\<lparr>ureq = r, urecieved = now, uaddr = addr\<rparr>"
    have "Some req \<in> set (uslots t) \<or> request_valid (ureq req) \<and> Check (BitField t) (req_index (ureq req)) = Ok True"
      if "Some req \<in> set ((uslots t)[slot := Some ?req])" for req
      using subsetD [OF set_update_subset_insert that] 2(1) assms(2) by auto
    from other_step_local [OF assms(1) _ _ _ this, where n = "tUploaded t" and r = "urate t" and c = "dcancel t"] 2(2)
    show ?thesis by simp
  qed
qed

lemma handle_cancel_other: "swarm_ok t \<Longrightarrow> other_step t (handle_cancel c t)"
  by (rule other_step_local [where us = "uslots (handle_cancel c t)" and n = "tUploaded t" and r = "urate t" and c = "dcancel t"])
    (auto simp: handle_cancel_def split: option.splits if_splits)

lemma CancelDownload_other:
  assumes "swarm_ok t" and "CancelDownload t = Ok t'"
  shows "other_step t t'"
proof -
  from assms(2) have "t' = t\<lparr>dcancel := ClosedChan\<rparr>"
    by (cases "dcancel t") (auto simp: CancelDownload_def outcome_simps)
  then show ?thesis
    by (intro other_step_local [OF assms(1), where us = "uslots t" and n = "tUploaded t" and r = "urate t" and c = ClosedChan]) auto
qed

lemma gostep_kinds:
  assumes "gostep ts ts'" and "dl_inv ts"
  shows "dl_step ts ts' \<or> snd ts' = snd ts \<and> other_step (fst ts) (fst ts')"
proof -
  have sw: "swarm_ok (fst ts)" "torrent_ok (Torrent (fst ts))"
    using assms(2) by (cases ts, auto simp: dl_inv_def tracker_wf_def)+
  have moved: ?thesis if "snd ts' = snd ts" "swarm_step (fst ts) (fst ts')"
    using that other_step_swarm by blast
  show ?thesis
    using assms(1)
  proof cases
    case (message i t nenv deadline q es s)
    with sw listen_turn_swarm(1) show ?thesis by (intro moved) auto
  next
    case (listener_ends i t nenv deadline q es q' s)
    with sw listen_turn_swarm(2) show ?thesis by (intro moved) auto
  next
    case (refresh env ptr t live nenv deadlines dial addr t' ptr' s)
    with sw seeder_refresh_swarm [OF _ _ refresh(3-6)] show ?thesis by (intro moved) auto
  next
    case (seeder_leaves env ptr t live nenv deadlines t' s)
    with sw seeder_exit_swarm [OF _ seeder_leaves(3-5), of nenv deadlines] show ?thesis by (intro moved) auto
  next
    case (leecher_leaves a t live nenv deadlines t' s)
    with sw leecher_exit_swarm [OF swarm_step_refl leecher_leaves(3,4), of nenv deadlines] show ?thesis by (intro moved) auto
  next
    case (accept env nenv pid addr c t t' r s)
    with sw AddLeecher_swarm [OF _ _ accept(3,4)] show ?thesis by (intro moved) auto
  next
    case (request p nenv q es r now t t' s)
    have "request_valid r"
      using listen_turn_inv [OF _ request(4)] request(3,5) by (auto simp: peer_wf_def list_all_iff emit_ok_def)
    with handle_request_other [OF _ _ request(6)] sw request(1,2) show ?thesis by simp
  next
    case (cancel p nenv q es c t s)
    with handle_cancel_other sw show ?thesis by simp
  next
    case (serve env i t t' s)
    with serve_slot_served [OF _ serve(3,4)] sw served_other show ?thesis by auto
  next
    case (keep env a t live nenv deadlines t' go s)
    with sw leecher_refresh_swarm [OF _ keep(3-6)] show ?thesis by (intro moved) auto
  next
    case (unchoke env t t' s)
    with sw unchoke_swarm [OF _ unchoke(3,4)] show ?thesis by (intro moved) auto
  next
    case (rate t s prev)
    have "other_step t (t\<lparr>urate := max 0 (i64 (tUploaded t - prev))\<rparr>)"
      using sw(1) rate(1) by (intro other_step_local [where us = "uslots t" and n = "tUploaded t" and c = "dcancel t"]) auto
    with rate show ?thesis by simp
  next
    case (cancel_download t t' s)
    with CancelDownload_other sw show ?thesis by simp
  qed simp
qed

lemma other_step_around: "other_step t t' \<Longrightarrow> around t t'"
proof -
  assume "other_step t t'"
  then obtain t1 us n r c where t1: "swarm_step t t1" "t' = t1\<lparr>uslots := us, tUploaded := n, urate := r, dcancel := c\<rparr>"
    unfolding other_step_def by blast
  have "around t1 t'" using swarm_step_swarm [OF t1(1)] unfolding t1(2) by (simp add: around_def swarm_ok_def)
  with around_trans [OF swarm_step_around [OF t1(1)]] show ?thesis by blast
qed

lemma other_step_frame:
  assumes "other_step t t'"
  shows "BitField t' = BitField t" "disk t' = disk t" "stop t' = stop t" "dcancel t = ClosedChan \<Longrightarrow> dcancel t' = ClosedChan"
proof -
  from assms obtain t1 us n r c where t1: "swarm_step t t1" "t' = t1\<lparr>uslots := us, tUploaded := n, urate := r, dcancel := c\<rparr>"
    "c = dcancel t \<or> c = ClosedChan" unfolding other_step_def by blast
  show "BitField t' = BitField t" "disk t' = disk t" "stop t' = stop t" "dcancel t = ClosedChan \<Longrightarrow> dcancel t' = ClosedChan"
    using t1 swarm_step_frame [OF t1(1)] swarm_step_chans [OF t1(1)] by auto
qed

lemma tstep_dstep:
  assumes "tstep ts ts'" and "dl_inv ts"
  shows "dstep ts ts'"
  using assms(1)
proof cases
  case goes
  from gostep_kinds [OF this assms(2)] show ?thesis
    using dstep.own dstep.other [OF other_step_around] by (cases ts; cases ts') auto
next
  case (save t s fsenv)
  then show ?thesis
    using save_bitfield_around assms(2) by (auto simp: dl_inv_def tracker_wf_def intro: dstep.other)
next
  case (close t t' s)
  then show ?thesis
    using close_stop_around [OF _ close(3)] assms(2) by (auto simp: dl_inv_def tracker_wf_def intro: dstep.other)
qed

section \<open>The upload slots\<close>

definition up_inv :: "StatusTracker \<Rightarrow> bool" where
  "up_inv t \<longleftrightarrow> length (uslots t) = 75
     \<and> (\<forall>req. Some req \<in> set (uslots t) \<longrightarrow> request_valid (ureq req) \<and> Check (BitField t) (req_index (ureq req)) = Ok True)"

lemma up_inv_sub:
  assumes "up_inv t" and "length (uslots t') = length (uslots t)" and "set (uslots t') \<subseteq> insert None (set (uslots t))"
    and "\<forall>i. Check (BitField t) i = Ok True \<longrightarrow> Check (BitField t') i = Ok True"
  shows "up_inv t'"
  using assms unfolding up_inv_def by fastforce

lemma Check_mono:
  assumes "Set_piece b i = Ok b'" and "Check b j = Ok True"
  shows "Check b' j = Ok True"
proof -
  have "unat j div 8 < length (bits b)" using assms(2) by (simp add: Check_eq split: if_splits)
  from Check_Set_piece [OF assms(1) this] assms(2) show ?thesis by simp
qed

lemma dl_step_uploads:
  assumes "dl_step ts ts'" and "dl_inv ts"
  shows "uslots (fst ts') = uslots (fst ts)
    \<and> (\<forall>i. Check (BitField (fst ts)) i = Ok True \<longrightarrow> Check (BitField (fst ts')) i = Ok True)"
  using assms(1)
proof cases
  case (pass s env a t t')
  have "swarm_ok t" "torrent_ok (Torrent t)" "piece_inv (Torrent t) (heap t ! a)"
    using assms(2) pass by (auto simp: dl_inv_def tracker_wf_def)
  from slot_pass_ok [OF pass(4) this] pass only_peers_frame(3,11) show ?thesis by fastforce
next
  case (plan s env freeSlots t t' s')
  then show ?thesis
    by (auto simp: next_piece_def start_piece_def outcome_simps split: if_splits option.splits)
next
  case tick
  then show ?thesis by (cases ts) (simp add: rate_tick_def)
next
  case (recv env a t rc pieceIdx t' s)
  from recv_locked_received [of t s env a pieceIdx rc] recv assms(2) obtain p where "received t pieceIdx a rc p t'" by auto
  then have "uslots t' = uslots t \<and> (\<forall>i. Check (BitField t) i = Ok True \<longrightarrow> Check (BitField t') i = Ok True)"
  proof cases
    case (checked fs b t1)
    note fr = only_peers_frame [OF checked(9), simplified]
    show ?thesis using checked(8) Check_mono by (simp add: checked(1) fr)
  qed auto
  with recv show ?thesis by simp
qed auto

lemma other_step_up:
  assumes "up_inv t" and "other_step t t'"
  shows "up_inv t'"
proof -
  from assms(2) obtain t1 us n r c where t1: "swarm_step t t1" "t' = t1\<lparr>uslots := us, tUploaded := n, urate := r, dcancel := c\<rparr>"
    "length us = length (uslots t)" "\<forall>req. Some req \<in> set us \<longrightarrow> Some req \<in> set (uslots t)
      \<or> request_valid (ureq req) \<and> Check (BitField t) (req_index (ureq req)) = Ok True"
    unfolding other_step_def by blast
  then have "uslots t' = us" "BitField t' = BitField t" using swarm_step_frame [OF t1(1)] by simp_all
  with assms(1) t1(3,4) show ?thesis by (auto simp: up_inv_def)
qed

lemma tstep_up_inv:
  assumes "tstep ts ts'" and "dl_inv ts" and "up_inv (fst ts)"
  shows "up_inv (fst ts')"
  using assms(1)
proof cases
  case goes
  from gostep_kinds [OF this assms(2)] show ?thesis
  proof (elim disjE conjE)
    assume "dl_step ts ts'"
    from dl_step_uploads [OF this assms(2)] show ?thesis by (intro up_inv_sub [OF assms(3)]) auto
  qed (rule other_step_up [OF assms(3)])
next
  case (save t s fsenv)
  then show ?thesis using assms(3) by (simp add: up_inv_def save_bitfield_def)
next
  case (close t t' s)
  then show ?thesis using assms(3) by (auto simp: up_inv_def close_stop_def outcome_simps)
qed

lemma tstep_torrent:
  assumes "tstep ts ts'" and "dl_inv_for m ts"
  shows "dl_inv_for m ts'"
proof -
  have "dl_inv ts" using assms(2) by (simp add: dl_inv_for_def)
  from dl_spec.step_inv [OF assms(2) tstep_dstep [OF assms(1) this]] show ?thesis .
qed

interpretation tr_for: step_invariant tstep "\<lambda>ts. dl_inv_for m ts \<and> up_inv (fst ts)" for m
proof unfold_locales
  fix ts ts' assume "dl_inv_for m ts \<and> up_inv (fst ts)" and step: "tstep ts ts'"
  then have inv: "dl_inv_for m ts" "dl_inv ts" "up_inv (fst ts)" by (simp_all add: dl_inv_for_def)
  from tstep_torrent [OF step inv(1)] tstep_up_inv [OF step inv(2,3)] show "dl_inv_for m ts' \<and> up_inv (fst ts')" ..
qed

text \<open>So every run of the whole tracker is a run of the download machine.\<close>

lemma tstep_reach:
  assumes "rtranclp tstep ts0 ts" and "dl_inv ts0"
  shows "rtranclp dstep ts0 ts \<and> dl_inv ts"
  using assms(1)
proof (induction rule: rtranclp_induct)
  case (step y z)
  then show ?case using tstep_dstep [OF step(2)] dstep_inv by (meson rtranclp.rtrancl_into_rtrancl)
qed (simp add: assms(2))

section \<open>Closing\<close>

interpretation go: step_invariant gostep dl_inv
  by unfold_locales (blast intro: dstep_inv tstep_dstep tstep.goes)

lemma dl_step_bitfield_file:
  assumes "dl_step ts ts'" and "dl_inv ts"
  shows "files (disk (fst ts')) (bitfield_file (DownloadDir (fst ts))) = files (disk (fst ts)) (bitfield_file (DownloadDir (fst ts)))"
  using assms(1)
proof cases
  case (pass s env a t t')
  then show ?thesis using slot_pass_inv [of t s env a] assms(2) by (auto simp: core_def)
next
  case (plan s env freeSlots t t' s')
  then show ?thesis by (auto simp: next_piece_def start_piece_def outcome_simps split: if_splits option.splits)
next
  case tick
  then show ?thesis by (cases ts) (simp add: rate_tick_def)
next
  case (recv env a t rc pieceIdx t' s)
  from recv_locked_received [of t s env a pieceIdx rc] recv assms(2) obtain p where "received t pieceIdx a rc p t'" by auto
  then have "files (disk t') (bitfield_file (DownloadDir t)) = files (disk t) (bitfield_file (DownloadDir t))"
    by cases (auto simp: disk_frame_def only_peers_def)
  with recv show ?thesis by simp
qed simp

lemma gostep_bitfield_file:
  assumes "dl_inv ts" and "gostep ts ts'"
  shows "DownloadDir (fst ts') = DownloadDir (fst ts)
    \<and> files (disk (fst ts')) (bitfield_file (DownloadDir (fst ts))) = files (disk (fst ts)) (bitfield_file (DownloadDir (fst ts)))"
proof
  show "DownloadDir (fst ts') = DownloadDir (fst ts)"
    using dstep_dir [OF assms(1) tstep_dstep [OF tstep.goes [OF assms(2)] assms(1)]] .
  show "files (disk (fst ts')) (bitfield_file (DownloadDir (fst ts))) = files (disk (fst ts)) (bitfield_file (DownloadDir (fst ts)))"
    using gostep_kinds [OF assms(2,1)]
  proof (elim disjE conjE)
    assume "other_step (fst ts) (fst ts')"
    then show ?thesis by (simp only: other_step_frame(2))
  qed (rule dl_step_bitfield_file [OF _ assms(1)])
qed

lemma gostep_reach_file:
  assumes "rtranclp gostep (t, s) (t', s')" and "dl_inv (t, s)"
  shows "DownloadDir t' = DownloadDir t"
    "files (disk t') (bitfield_file (DownloadDir t)) = files (disk t) (bitfield_file (DownloadDir t))"
proof -
  let ?f = "\<lambda>ts. (DownloadDir (fst ts), files (disk (fst ts)) (bitfield_file (DownloadDir (fst ts))))"
  have "?f (t', s') = ?f (t, s)"
  proof (rule go.reach_frame [OF assms, where f = ?f])
    fix x y assume "dl_inv x" "gostep x y"
    from gostep_bitfield_file [OF this] show "?f y = ?f x" by auto
  qed
  then show "DownloadDir t' = DownloadDir t"
    "files (disk t') (bitfield_file (DownloadDir t)) = files (disk t) (bitfield_file (DownloadDir t))" by auto
qed

text \<open>After the bit field is saved, the other goroutines do not touch its file, and what they do is part of a run.\<close>

lemma closing_run:
  assumes "rtranclp tstep ts (t0, s0)" and "rtranclp gostep (t0, s0) (t1, s1)" and "close_stop t1 = Ok t2"
    and "rtranclp gostep (t2, s1) (t', s')"
  shows "rtranclp tstep ts (t', s')"
proof -
  have go: "rtranclp gostep x y \<Longrightarrow> rtranclp tstep x y" for x y using mono_rtranclp [of gostep tstep] tstep.goes by blast
  have "rtranclp tstep ts (t1, s1)" using rtranclp_trans [OF assms(1) go [OF assms(2)]] .
  then have "rtranclp tstep ts (t2, s1)" using tstep.close [OF assms(3)] by (rule rtranclp.rtrancl_into_rtrancl)
  then show ?thesis using rtranclp_trans go [OF assms(4)] by fast
qed

lemma closing_file:
  assumes "dl_inv (t0, s0)" and "rtranclp gostep (t0, s0) (t1, s1)" and "close_stop t1 = Ok t2"
    and "rtranclp gostep (t2, s1) (t', s')"
  shows "files (disk t') (bitfield_file (DownloadDir t0)) = files (disk t0) (bitfield_file (DownloadDir t0))"
proof -
  have "dl_inv (t1, s1)" using go.reach_inv [OF assms(2,1)] .
  then have "dl_inv (t2, s1)" using dstep_inv [OF tstep_dstep [OF tstep.close [OF assms(3)]]] by blast
  moreover have "disk t2 = disk t1" "DownloadDir t2 = DownloadDir t1" using assms(3) by (auto simp: close_stop_def outcome_simps)
  ultimately show ?thesis using gostep_reach_file [OF assms(2,1)] gostep_reach_file [OF assms(4)] by simp
qed

lemma tstep_stores:
  assumes "rtranclp tstep (t, s) (t', s')" and "dl_inv_for m (t, s)"
  shows "dl_inv_for m (t', s')" and "stored_pieces t \<subseteq>\<^sub>m stored_pieces t'" and "DownloadDir t' = DownloadDir t"
proof -
  have inv: "dl_inv (t, s)" using assms(2) by (simp add: dl_inv_for_def)
  from tstep_reach [OF assms(1) this] have run: "rtranclp dstep (t, s) (t', s')" by simp
  show "dl_inv_for m (t', s')" using dl_spec.reach_inv [OF run assms(2)] .
  show "stored_pieces t \<subseteq>\<^sub>m stored_pieces t'" using spec_grows [OF dl_spec.reach_abs [OF run assms(2)]] by (simp add: abs_dl_def)
  show "DownloadDir t' = DownloadDir t"
    using dl.reach_frame [where f = "\<lambda>ts. DownloadDir (fst ts)", OF run inv] dstep_dir by simp
qed

lemma reopened_piece:
  assumes "dl_inv_for m (t, s)" and "dl_inv_for m (t', s')" and "stored_pieces t \<subseteq>\<^sub>m stored_pieces t'"
    and "DownloadDir t' = DownloadDir t" and "i \<in> have_set (BitField t)" and "BitField t3 = BitField t"
    and "disk t3 = disk t'" and "DownloadDir t3 = DownloadDir t" and "Torrent t3 = m"
  shows "stored_pieces t3 i = stored_pieces t i \<and> on_disk t3 i"
proof -
  have "on_disk t i" using assms(1,5) by (simp add: dl_inv_for_def dl_inv_def)
  then obtain d where "stored_pieces t i = Some d" using assms(5) by (auto simp: on_disk_def stored_pieces_def)
  moreover from this have d: "stored_pieces t' i = Some d" using assms(3) by (force simp: map_le_def)
  then have "i \<in> have_set (BitField t')" by (auto simp: stored_pieces_def split: if_splits)
  then have "on_disk t' i" using assms(2) by (simp add: dl_inv_for_def dl_inv_def)
  ultimately show ?thesis
    using d assms \<open>i \<in> have_set (BitField t')\<close> by (auto simp: on_disk_def stored_pieces_def dl_inv_for_def)
qed

section \<open>Serving a request\<close>

lemma serve_range_finds:
  assumes "(uaddr req, a) \<in> set ls" and "\<forall>x \<in> set ls. fst x = uaddr req \<longrightarrow> snd x = a"
  shows "serve_range env i req ls t = answer env i req a t"
  using assms by (induction ls) auto

lemma first_free_exists: "None \<in> set xs \<Longrightarrow> \<exists>i. first_free k xs = Some i"
  by (induction k xs rule: first_free.induct) auto

lemma answer_sends:
  assumes "ReadRequest (e_fs env) t (ureq req) = Ok b" and "a < length (peers t)" and "conn (peers t ! a) = Some c"
    and "connectionStatus (peers t ! a) = 0" and "\<forall>msg. net_up (e_net env a msg)" and "uslots t ! i = Some req"
  shows "answer env i req a t = Ok (t\<lparr>
    peers := (peers t)[a := (peers t ! a)\<lparr>conn := Some (c\<lparr>cout := cout c @ Piece_Serialize
      \<lparr>pc_index = req_index (ureq req), pc_begin = req_begin (ureq req), pc_block = b\<rparr>\<rparr>)\<rparr>],
    uslots := (uslots t)[i := None], tUploaded := i64 (tUploaded t + int (length b))\<rparr>)"
  using piece_send.succeeds [OF _ TrueI assms(4,3)] assms(1,2,5,6)
  by (simp add: answer_def call_peer_def clear_slot_def Let_def)

lemma handle_request_stores:
  assumes "Check (BitField t) (req_index r) = Ok True" and "None \<in> set (uslots t)"
  shows "\<exists>slot < length (uslots t). uslots t ! slot = None
    \<and> handle_request now addr r t = Ok (t\<lparr>uslots := (uslots t)[slot := Some \<lparr>ureq = r, urecieved = now, uaddr = addr\<rparr>]\<rparr>)"
proof -
  from first_free_exists [OF assms(2), of 0] obtain slot where s: "first_free 0 (uslots t) = Some slot" by blast
  with first_free_SomeD [OF s] assms(1) show ?thesis by (auto simp: handle_request_def)
qed

section \<open>A new leecher\<close>

lemma AddLeecher_up:
  fixes sock :: Conn
  assumes "torrent_ok (Torrent t)" and "net_up nenv" and "\<forall>a msg. net_up (e_net env a msg)"
    and "length (Hash (mInfo (Torrent t))) = 20" and "length (clientID t) = 20"
    and "Handshake_Serialize (handshake_of (Hash (mInfo (Torrent t))) (clientID t)) = Ok reply"
  defines "out \<equiv> cout sock @ reply @ Bitfield_Serialize \<lparr>bitfield_bits = bits (BitField t)\<rparr>"
  shows "\<exists>p c b. AddLeecher env nenv pid addr sock t = (t\<lparr>peers := peers t @ [p],
      leechers := dict_set addr (length (peers t)) (dict_del addr (leechers t))\<rparr>, Ok (length (peers t)))
    \<and> PeerId p = pid \<and> connectionStatus p = 0 \<and> conn p = Some c \<and> cout c = out
    \<and> NewBitfield (int (num_pieces (Torrent t))) = Ok b
    \<and> (early nenv = None \<longrightarrow> p = (new_peer pid addr (Some (sock\<lparr>cout := out\<rparr>)) leecher b)
         \<lparr>requests_chan := OpenChan, cancels_chan := OpenChan\<rparr>)"
proof -
  let ?n = "int (num_pieces (Torrent t))" and ?a = "length (peers t)"
  have n: "num_pieces (Torrent t) \<le> 2 ^ 32" using assms(1) by (simp add: torrent_ok_def)
  obtain b where b: "NewBitfield ?n = Ok b" using NewBitfield_total [of ?n] by auto
  let ?c = "sock\<lparr>cout := cout sock @ reply\<rparr>"
  let ?q = "(new_peer pid addr (Some ?c) leecher b)\<lparr>requests_chan := OpenChan, cancels_chan := OpenChan\<rparr>"
  have up: "write_deadline nenv = None" using assms(2) by (simp add: net_up_def)
  have "peer_wf ?q" using NewBitfield_wf [OF _ _ b] n by (simp add: peer_wf_def new_peer_def)
  from start_listener_keeps [of ?q ?c, OF _ this, of nenv] obtain p c where p: "start_listener nenv ?q = Ok p"
    "connectionStatus p = 0" "PeerId p = pid" "conn p = Some c" "cout c = cout sock @ reply" by (auto simp: new_peer_def)
  have "write_msg nenv ''v1 handshake message'' reply (new_peer pid addr (Some sock) leecher b) =
      ((new_peer pid addr (Some sock) leecher b)\<lparr>conn := Some ?c\<rparr>, Ok ())"
    by (rule write_msg_net_up [OF assms(2)]) (simp add: new_peer_def)
  then have new: "NewLeecherConnection nenv pid addr ?n sock (Hash (mInfo (Torrent t))) (clientID t) = Ok p"
    using b up assms(6) p(1) by (simp add: NewLeecherConnection_def sendHandshakeV1_def write_handshake_def new_peer_def)
  let ?t1 = "t\<lparr>peers := peers t @ [p], leechers := dict_set addr ?a (dict_del addr (leechers t))\<rparr>"
  let ?p = "p\<lparr>conn := Some (c\<lparr>cout := out\<rparr>)\<rparr>"
  have "SendBitfield (e_net env ?a (BitfieldMsg \<lparr>bitfield_bits = bits (BitField t)\<rparr>)) (bits (BitField t)) (Some p) = (Some ?p, Ok ())"
    using bitfield_send.succeeds [OF _ TrueI p(2,4), of "e_net env ?a (BitfieldMsg \<lparr>bitfield_bits = bits (BitField t)\<rparr>)"]
      assms(3) p(5) by (simp add: out_def)
  then have add: "AddLeecher env nenv pid addr sock t = (?t1\<lparr>peers := peers t @ [?p]\<rparr>, Ok ?a)"
    using new assms(1) by (simp add: AddLeecher_def torrent_ok_def Let_def Clone_def call_peer_def nth_append)
  have "?p = (new_peer pid addr (Some (sock\<lparr>cout := out\<rparr>)) leecher b)\<lparr>requests_chan := OpenChan, cancels_chan := OpenChan\<rparr>"
    if "early nenv = None"
    using that p(1,4) by (auto simp: start_listener_def store_established_def new_peer_def)
  with add b p(2,3) show ?thesis
    by (intro exI [of _ ?p] exI [of _ "c\<lparr>cout := out\<rparr>"] exI [of _ b]) simp
qed

lemma listen_turn_message:
  assumes "conn p = Some c" and "cin c = \<lparr>rdata = encode m @ rest, rerr = e\<rparr>" and "wire_valid m"
    and "react (p\<lparr>conn := Some (c\<lparr>cin := \<lparr>rdata = rest, rerr = e\<rparr>\<rparr>)\<rparr>) m = Ok (q, es)"
  shows "listen_turn env None p = Ok (q, es, True)"
proof -
  from Identify_encode [OF assms(3)] obtain msg where
    "Identify (cin c) = (Ok msg, \<lparr>rdata = rest, rerr = e\<rparr>)" "understand msg = Ok m" unfolding assms(2) by blast
  with assms(1,4) process_react show ?thesis by (simp add: listen_turn_def Let_def)
qed

lemma listen_turn_eof:
  assumes "conn p = Some c" and "cin c = \<lparr>rdata = [], rerr = IoEOF\<rparr>"
  shows "listen_turn env None p = Ok (p, [], False)"
  using assms Identify_empty [of "cin c"] by (cases p, cases c) (simp add: listen_turn_def Let_def)

text \<open>A leecher of the complete torrent.\<close>

definition demo_leecher :: Peer where
  "demo_leecher = (new_peer [] (str ''p:1'') (Some (sample_conn [] IoEOF)) leecher \<lparr>bits = [0], numPieces = 1\<rparr>)
     \<lparr>requests_chan := OpenChan, cancels_chan := OpenChan\<rparr>"

definition demo_serving :: StatusTracker where
  "demo_serving = demo_full\<lparr>peers := [demo_leecher], leechers := [(str ''p:1'', 0)]\<rparr>"

lemma demo_serving_inv: "dl_inv (demo_serving, demo_scheduler\<lparr>unverified := []\<rparr>)"
proof -
  have inv: "dl_inv (demo_full, demo_scheduler\<lparr>unverified := []\<rparr>)"
    using reach_inv_for(1) [OF demo_ok demo_full_starts rtranclp.rtrancl_refl] by (simp add: dl_inv_for_def)
  have "swarm_ok (demo_full\<lparr>peers := [demo_leecher], seeders := seeders demo_full, leechers := [(str ''p:1'', 0)]\<rparr>)"
    by (simp add: swarm_ok_def demo_full_def demo_leecher_def new_peer_def peer_inv_def bf_wf_def bf_count_def demo_sizes)
  from swarm_step_around [OF swarm_step_maps [OF this]] have "around demo_full demo_serving"
    by (simp add: demo_serving_def demo_full_def fresh_tracker_def)
  from dstep_inv [OF dstep.other [OF this] inv] show ?thesis .
qed

text \<open>
  A leecher that connects to the client, says that it is interested, is unchoked, asks for a block and
  hangs up.
\<close>

definition demo_ask :: Request where
  "demo_ask = \<lparr>req_index = 0, req_begin = 1, req_length = 3\<rparr>"

definition demo_asker :: "Conn \<Rightarrow> BitField \<Rightarrow> Peer" where
  "demo_asker c b = (new_peer [] (str ''p:1'') (Some c) leecher b)\<lparr>requests_chan := OpenChan, cancels_chan := OpenChan\<rparr>"

lemma demo_accept:
  obtains c b where
    "AddLeecher demo_env up_env [] (str ''p:1'') (sample_conn (encode InterestMsg @ encode (RequestMsg demo_ask)) IoEOF) demo_full =
      (demo_full\<lparr>peers := [demo_asker c b], leechers := [(str ''p:1'', 0)]\<rparr>, Ok 0)"
    "bf_wf b" "cin c = \<lparr>rdata = encode InterestMsg @ encode (RequestMsg demo_ask), rerr = IoEOF\<rparr>"
proof -
  let ?sock = "sample_conn (encode InterestMsg @ encode (RequestMsg demo_ask)) IoEOF"
  have "handshake_wf (handshake_of (Hash (mInfo demo)) demo_id)"
    by (rule handshake_of_wf) (simp_all add: demo_hash_length demo_id_def)
  then obtain reply where reply: "Handshake_Serialize (handshake_of (Hash (mInfo demo)) demo_id) = Ok reply"
    using Handshake_Serialize_wf by blast
  have f: "Torrent demo_full = demo" "clientID demo_full = demo_id" "peers demo_full = []" "leechers demo_full = []"
    by (simp_all add: demo_full_def)
  have net: "\<forall>a msg. net_up (e_net demo_env a msg)" by (simp add: demo_env_def)
  have early: "early up_env = None" by (simp add: up_env_def)
  obtain c b where "AddLeecher demo_env up_env [] (str ''p:1'') ?sock demo_full =
        (demo_full\<lparr>peers := [demo_asker c b], leechers := [(str ''p:1'', 0)]\<rparr>, Ok 0)"
    and b: "NewBitfield 1 = Ok b" and "cin c = \<lparr>rdata = encode InterestMsg @ encode (RequestMsg demo_ask), rerr = IoEOF\<rparr>"
    using AddLeecher_up [where t = demo_full and nenv = up_env and env = demo_env and sock = ?sock and pid = "[]" and addr = "str ''p:1''"]
      net early reply
    by (auto simp: f demo_hash_length demo_id_def demo_sizes dict_del_def sample_conn_def demo_asker_def)
  moreover have "bf_wf b" using NewBitfield_wf [OF _ _ b] by simp
  ultimately show thesis using that by blast
qed

lemma demo_upload_run:
  "\<exists>t. rtranclp tstep (demo_full, demo_scheduler\<lparr>unverified := []\<rparr>) (t, demo_scheduler\<lparr>unverified := []\<rparr>)
    \<and> Some \<lparr>ureq = demo_ask, urecieved = 0, uaddr = str ''p:1''\<rparr> \<in> set (uslots t)
    \<and> length (peers t) = 1 \<and> connectionStatus (peers t ! 0) = 1"
proof -
  let ?s = "demo_scheduler\<lparr>unverified := []\<rparr>" and ?eof = "\<lparr>rdata = [], rerr = IoEOF\<rparr>" and ?addr = "str ''p:1''"
  from demo_accept obtain c b where t1: "AddLeecher demo_env up_env [] ?addr
      (sample_conn (encode InterestMsg @ encode (RequestMsg demo_ask)) IoEOF) demo_full =
        (demo_full\<lparr>peers := [demo_asker c b], leechers := [(?addr, 0)]\<rparr>, Ok 0)" (is "_ = (?t1, _)")
    and bwf: "bf_wf b" and c: "cin c = \<lparr>rdata = encode InterestMsg @ encode (RequestMsg demo_ask), rerr = IoEOF\<rparr>" by metis
  define p where "p = demo_asker c b"
  note p = p_def [unfolded demo_asker_def]
  note t1 = t1 [folded p_def]
  let ?t1 = "demo_full\<lparr>peers := [p], leechers := [(?addr, 0)]\<rparr>"
  let ?c1 = "c\<lparr>cin := \<lparr>rdata = encode (RequestMsg demo_ask), rerr = IoEOF\<rparr>\<rparr>"
  let ?p1 = "p\<lparr>conn := Some ?c1, InterestRemote := Interested\<rparr>"
  have turn1: "listen_turn up_env None p = Ok (?p1, [], True)"
    by (rule listen_turn_message [OF _ c]) (simp_all add: p new_peer_def react_def)
  let ?c2 = "?c1\<lparr>cout := cout ?c1 @ Unchoke_Serialize\<rparr>"
  let ?p2 = "?p1\<lparr>conn := Some ?c2, StatusThis := UnChoked\<rparr>"
  have "SendUnchoke up_env (Some ?p1) = (Some ?p2, Ok ())"
    using unchoke_send.succeeds [OF net_up_up_env TrueI, of ?p1 ?c1] by (simp add: p new_peer_def)
  then have unchoke: "optimisticUnchoke demo_env (?t1\<lparr>peers := [?p1]\<rparr>) = Ok (?t1\<lparr>peers := [?p2]\<rparr>)"
    by (simp add: optimisticUnchoke_def demo_env_def call_peer_def p new_peer_def)
  let ?p3 = "?p2\<lparr>conn := Some (?c2\<lparr>cin := ?eof\<rparr>)\<rparr>"
  have turn2: "listen_turn up_env None ?p2 = Ok (?p3, [EmitRequest demo_ask], True)"
    by (rule listen_turn_message [where c = ?c2 and m = "RequestMsg demo_ask" and rest = "[]" and e = IoEOF])
      (simp_all add: p new_peer_def react_def gate_leecher_def demo_ask_def request_valid_def)
  have chk: "Check (BitField demo_full) (req_index demo_ask) = Ok True" by (simp add: demo_full_def demo_ask_def) code_simp
  have us: "uslots demo_full = replicate 75 None" by (simp add: demo_full_def)
  obtain slot where slot: "slot < 75" "handle_request 0 ?addr demo_ask (?t1\<lparr>peers := [?p2]\<rparr>) =
      Ok (?t1\<lparr>peers := [?p2], uslots := (uslots demo_full)[slot := Some \<lparr>ureq = demo_ask, urecieved = 0, uaddr = ?addr\<rparr>]\<rparr>)"
      (is "_ = Ok ?t4")
    using handle_request_stores [of "?t1\<lparr>peers := [?p2]\<rparr>" demo_ask 0 ?addr] chk by (auto simp: us)
  have turn3: "listen_turn up_env None ?p3 = Ok (?p3, [], False)" by (rule listen_turn_eof [where c = "?c2\<lparr>cin := ?eof\<rparr>"]) simp_all
  obtain q where q: "listener_exit ?p3 = Ok q" "connectionStatus q = 1" by (simp add: listener_exit_def p new_peer_def)
  have wfs: "peer_wf p" "peer_wf ?p2" "peer_wf ?p3" using bwf by (simp_all add: peer_wf_def p new_peer_def)
  have "tstep (demo_full, ?s) (?t1, ?s)" using gostep.accept [OF demo_env_ok(1) t1] by (rule tstep.goes)
  moreover have "tstep (?t1, ?s) (?t1\<lparr>peers := [?p1]\<rparr>, ?s)"
    using gostep.message [of 0 ?t1 up_env None ?p1 "[]" ?s] wfs(1) turn1 by (intro tstep.goes) simp
  moreover have "tstep (?t1\<lparr>peers := [?p1]\<rparr>, ?s) (?t1\<lparr>peers := [?p2]\<rparr>, ?s)"
    using gostep.unchoke [OF demo_env_ok(1) unchoke] by (rule tstep.goes)
  moreover have "tstep (?t1\<lparr>peers := [?p2]\<rparr>, ?s) (?t4, ?s)"
    using gostep.request [OF wfs(2) turn2, of demo_ask 0 _ _ ?s] slot(2) by (intro tstep.goes) (simp add: p new_peer_def)
  moreover have "tstep (?t4, ?s) (?t4\<lparr>peers := [?p3]\<rparr>, ?s)"
    using gostep.message [of 0 ?t4 up_env None ?p3 _ ?s] wfs(2) turn2 by (intro tstep.goes) simp
  moreover have "tstep (?t4\<lparr>peers := [?p3]\<rparr>, ?s) (?t4\<lparr>peers := [q]\<rparr>, ?s)"
    using gostep.listener_ends [of 0 "?t4\<lparr>peers := [?p3]\<rparr>" up_env None ?p3 _ q ?s] wfs(3) turn3 q(1) by (intro tstep.goes) simp
  ultimately have "rtranclp tstep (demo_full, ?s) (?t4\<lparr>peers := [q]\<rparr>, ?s)"
    by (meson rtranclp.rtrancl_into_rtrancl rtranclp.rtrancl_refl)
  moreover have "Some \<lparr>ureq = demo_ask, urecieved = 0, uaddr = ?addr\<rparr> \<in> set (uslots (?t4\<lparr>peers := [q]\<rparr>))"
    using slot(1) by (simp add: us set_update_memI)
  ultimately show ?thesis using q(2) by (intro exI [of _ "?t4\<lparr>peers := [q]\<rparr>"]) simp
qed

section \<open>Properties\<close>



text \<open>
  C14. A download is resumed where it was left. \<^verbatim>\<open>Close\<close> saves the bit field and then closes \<^verbatim>\<open>stop\<close>; the other goroutines run on
  between the two, and until they see the closed channel. Opening the same torrent in the same directory afterwards
  gives a tracker with the pieces that were verified when the bit field was saved, with the same
  bytes; its \<^verbatim>\<open>Downloaded\<close> is the old one less what the slots had received of unfinished pieces; and
  all other pieces are to be fetched again, also those verified while the tracker was closing. It is a start
  the other theorems apply to.
\<close>

theorem close_reopen_resumes:
  assumes "torrent_ok m" and "starts m ts0" and "rtranclp tstep ts0 (t, s)"
    and "DownloadDir t = saved_dir downloadDir m" and "DownloadDir t \<in> set (dirs (disk t))" and "fs_up env"
    and "rtranclp gostep (save_bitfield env t, s) (t1, s1)" and "close_stop t1 = Ok t2"
    and "rtranclp gostep (t2, s1) (t', s')" and "open_err env' = None"
  shows "\<exists>t3 s3. NewTracker env' cid m downloadDir (disk t') = Ok t3 \<and> scheduler_init t3 = Ok s3 \<and> starts m (t3, s3)
    \<and> BitField t3 = BitField t \<and> (\<forall>i \<in> have_set (BitField t). stored_pieces t3 i = stored_pieces t i \<and> on_disk t3 i)
    \<and> tDownloaded t3 = tDownloaded t - (\<Sum>a \<in> active t. pDownloaded (heap t ! a))
    \<and> unat ` set (unverified s3) = {..<num_pieces m} - have_set (BitField t)"
proof -
  let ?b = "BitField t" and ?file = "bitfield_file (saved_dir downloadDir m)"
  have inv: "dl_inv_for m (t, s)"
    using tstep_reach [OF assms(3)] reach_inv_for [OF assms(1,2)] by (auto simp: dl_inv_for_def)
  have saved: "rtranclp tstep (t, s) (save_bitfield env t, s)" using tstep.save by blast
  have run: "rtranclp tstep (t, s) (t', s')"
    using closing_run [OF saved assms(7-9)] .
  have inv': "dl_inv_for m (t', s')" and grow: "stored_pieces t \<subseteq>\<^sub>m stored_pieces t'" and dir: "DownloadDir t' = DownloadDir t"
    using tstep_stores [OF run inv] .
  have "dl_inv (save_bitfield env t, s)"
    using tstep_reach [OF saved] inv by (simp add: dl_inv_for_def)
  from closing_file [OF this assms(7-9)] have "files (disk t') ?file = Some (bits ?b)"
    by (simp add: save_bitfield_up [OF assms(6,5)] assms(4))
  moreover have b: "bf_wf ?b" "bf_count ?b = num_pieces m" using inv by (auto simp: dl_inv_for_def dl_inv_def tracker_wf_def)
  ultimately have new: "NewTracker env' cid m downloadDir (disk t') = Ok ((fresh_tracker cid m ?b (saved_dir downloadDir m) (disk t'))
      \<lparr>tDownloaded := int (\<Sum>i \<in> have_set ?b. piece_size m i)\<rparr>)" (is "_ = Ok ?t3")
    using NewTracker_resumes [OF assms(1) _ _ assms(10)] by blast
  from missing_pieces [OF b(1)] obtain ms where ms: "MissingPieces ?b = Ok ms" "unat ` set ms = {..<num_pieces m} - have_set ?b"
    unfolding b(2) by blast
  then have init: "scheduler_init ?t3 = Ok \<lparr>unverified = ms, currentRate = 0, running = True\<rparr>" by (simp add: scheduler_init_def)
  have kept: "stored_pieces ?t3 i = stored_pieces t i \<and> on_disk ?t3 i" if "i \<in> have_set ?b" for i
    using reopened_piece [OF inv inv' grow dir that, of ?t3] assms(4) by simp
  moreover have "tDownloaded t = int (\<Sum>i \<in> have_set ?b. piece_size m i) + (\<Sum>a \<in> active t. pDownloaded (heap t ! a))"
    using inv by (simp add: dl_inv_for_def dl_inv_def accounted_def del: of_nat_sum)
  moreover have "starts m (?t3, \<lparr>unverified = ms, currentRate = 0, running = True\<rparr>)"
    unfolding starts_def using new init kept by auto
  ultimately show ?thesis using new init ms(2) by (intro exI [of _ ?t3] exI conjI) (auto simp del: of_nat_sum)
qed

theorem close_reopen_resumes_witness:
  "\<exists>t2 t3 s3. close_stop (save_bitfield up_fs demo_full) = Ok t2
    \<and> NewTracker up_fs demo_id demo (str ''dl'') (disk t2) = Ok t3 \<and> scheduler_init t3 = Ok s3
    \<and> BitField t3 = \<lparr>bits = [128], numPieces = 1\<rparr> \<and> stored_pieces t3 0 = Some demo_content
    \<and> tDownloaded t3 = 5 \<and> unverified s3 = []"
proof -
  let ?t = "save_bitfield up_fs demo_full"
  have f: "DownloadDir demo_full = saved_dir (str ''dl'') demo" "DownloadDir demo_full \<in> set (dirs (disk demo_full))"
    "stop demo_full = OpenChan" "tDownloaded demo_full = 5" "active demo_full = {}" "BitField demo_full = \<lparr>bits = [128], numPieces = 1\<rparr>"
    "stored_pieces demo_full 0 = Some demo_content"
    by (simp_all add: demo_full_def demo_disk_def active_def stored_pieces_def demo_full_have)
  then have st: "close_stop ?t = Ok (?t\<lparr>stop := ClosedChan\<rparr>)" by (simp add: close_stop_def save_bitfield_def)
  from close_reopen_resumes [OF demo_ok demo_full_starts rtranclp.rtrancl_refl f(1,2) fs_up_up_fs rtranclp.rtrancl_refl st
      rtranclp.rtrancl_refl, of up_fs demo_id] show ?thesis
    using st f by (auto simp: up_fs_def demo_full_have demo_sizes lessThan_Suc)
qed

text \<open>
  C10. A leecher gets what it asks for: when the client has the piece and the block lies in it, an upload
  slot is free and the connection works, \<^verbatim>\<open>handleRequests\<close> queues the request and the next visit of its
  slot sends that leecher exactly the bytes of the verified piece, frees the slot and adds the
  length of the block to \<^verbatim>\<open>Uploaded\<close>.
\<close>

theorem upload_answers_request:
  assumes "dl_inv (t, s)" and "env_ok env" and "open_err (e_fs env) = None" and "\<forall>msg. net_up (e_net env a msg)"
    and "dict_wf (leechers t)" and "dict_get (leechers t) addr = Some a"
    and "conn (peers t ! a) = Some c" and "connectionStatus (peers t ! a) = 0" and "None \<in> set (uslots t)"
    and "unat (req_index r) \<in> have_set (BitField t)"
    and "unat (req_begin r) < piece_size (Torrent t) (unat (req_index r))"
    and "unat (req_begin r) + unat (req_length r) \<le> piece_size (Torrent t) (unat (req_index r))"
  shows "\<exists>slot t1 d. handle_request now addr r t = Ok t1
    \<and> length d = piece_size (Torrent t) (unat (req_index r)) \<and> sha1 d = hash_of (Torrent t) (unat (req_index r))
    \<and> serve_slot env slot t1 = Ok (t\<lparr>
        peers := (peers t)[a := (peers t ! a)\<lparr>conn := Some (c\<lparr>cout := cout c @ Piece_Serialize
          \<lparr>pc_index = req_index r, pc_begin = req_begin r,
           pc_block = take (unat (req_length r)) (drop (unat (req_begin r)) d)\<rparr>\<rparr>)\<rparr>],
        tUploaded := i64 (tUploaded t + int (unat (req_length r)))\<rparr>)"
proof -
  let ?i = "unat (req_index r)" and ?req = "\<lparr>ureq = r, urecieved = now, uaddr = addr\<rparr>"
  have wf: "torrent_ok (Torrent t)" "bf_wf (BitField t)" "bf_count (BitField t) = num_pieces (Torrent t)" "swarm_ok t"
    and od: "on_disk t ?i" using assms(1,10) by (auto simp: dl_inv_def tracker_wf_def)
  from assms(10) wf(3) have i: "?i < num_pieces (Torrent t)" and chk: "Check (BitField t) (req_index r) = Ok True"
    by (auto simp: have_set_def)
  from od obtain d where d: "files (disk t) (piece_file (DownloadDir t) (req_index r)) = Some d"
    "length d = piece_size (Torrent t) ?i" "sha1 d = hash_of (Torrent t) ?i" "DownloadDir t \<in> set (dirs (disk t))"
    by (auto simp: on_disk_def)
  let ?b = "take (unat (req_length r)) (drop (unat (req_begin r)) d)"
  from handle_request_stores [OF chk assms(9), of now addr] obtain slot where
    slot: "slot < length (uslots t)" "uslots t ! slot = None"
      "handle_request now addr r t = Ok (t\<lparr>uslots := (uslots t)[slot := Some ?req]\<rparr>)" by blast
  let ?t1 = "t\<lparr>uslots := (uslots t)[slot := Some ?req]\<rparr>"
  have rd: "ReadRequest (e_fs env) ?t1 (ureq ?req) = Ok ?b"
    using ReadRequest_block [of ?t1 r d "e_fs env"] d assms(3) piece_size_bounds(2) [OF wf(1) i] assms(11,12) by simp
  have "set (e_leechers env (leechers t)) = set (leechers t)" using assms(2) by (simp add: env_ok_def order_ok_def)
  with dict_set_iff_get [OF assms(5)] assms(6)
  have "serve_range env slot ?req (e_leechers env (leechers t)) ?t1 = answer env slot ?req a ?t1"
    by (intro serve_range_finds) auto
  moreover have "a < length (peers t)"
    using wf(4) dict_get_SomeD [OF assms(6)] by (force simp: swarm_ok_def)
  ultimately have "serve_slot env slot ?t1 = Ok (?t1\<lparr>
        peers := (peers t)[a := (peers t ! a)\<lparr>conn := Some (c\<lparr>cout := cout c @ Piece_Serialize
          \<lparr>pc_index = req_index r, pc_begin = req_begin r, pc_block = ?b\<rparr>\<rparr>)\<rparr>],
        uslots := (uslots ?t1)[slot := None], tUploaded := i64 (tUploaded t + int (length ?b))\<rparr>)"
    using answer_sends [OF rd, of a c slot] assms(4,7,8) slot(1) by (simp add: serve_slot_def)
  moreover have "(uslots t)[slot := None] = uslots t" using slot(1,2) by (metis list_update_id)
  moreover have "length ?b = unat (req_length r)" using assms(12) d(2) by simp
  ultimately show ?thesis using slot(3) d(2,3) by (intro exI [of _ slot] exI [of _ ?t1] exI [of _ d]) (cases t; simp)
qed

theorem upload_answers_request_witness:
  "\<exists>slot t1 d. handle_request 0 (str ''p:1'') \<lparr>req_index = 0, req_begin = 1, req_length = 3\<rparr> demo_serving = Ok t1
    \<and> sha1 d = hash_of demo 0 \<and> serve_slot demo_env slot t1 = Ok (demo_serving\<lparr>
        peers := [demo_leecher\<lparr>conn := Some ((sample_conn [] IoEOF)\<lparr>cout := Piece_Serialize
          \<lparr>pc_index = 0, pc_begin = 1, pc_block = take 3 (drop 1 d)\<rparr>\<rparr>)\<rparr>], tUploaded := 3\<rparr>)"
proof -
  let ?r = "\<lparr>req_index = 0, req_begin = 1, req_length = 3\<rparr>"
  have "\<forall>msg. net_up (e_net demo_env 0 msg)" "open_err (e_fs demo_env) = None"
    by (simp_all add: demo_env_def up_fs_def)
  moreover have "dict_wf (leechers demo_serving)" "dict_get (leechers demo_serving) (str ''p:1'') = Some 0"
    "peers demo_serving ! 0 = demo_leecher" "conn demo_leecher = Some (sample_conn [] IoEOF)"
    "connectionStatus demo_leecher = 0" "None \<in> set (uslots demo_serving)"
    "tUploaded demo_serving = 0" "Torrent demo_serving = demo" "peers demo_serving = [demo_leecher]"
    "BitField demo_serving = \<lparr>bits = [128], numPieces = 1\<rparr>"
    by (simp_all add: demo_serving_def demo_full_def demo_leecher_def new_peer_def dict_wf_def)
  ultimately show ?thesis
    using upload_answers_request [OF demo_serving_inv, of demo_env 0 "str ''p:1''" "sample_conn [] IoEOF" ?r 0]
    by (simp add: demo_sizes demo_full_have i64_id in_i64_def) blast
qed

text \<open>
  C36. A request crashes the client exactly when its piece index lies outside the bytes of the bit
  field: \<^verbatim>\<open>handleRequests\<close> checks the bit field before it checks the index.
\<close>

theorem request_index_panics:
  "is_panic (handle_request now addr r t) \<longleftrightarrow> length (bits (BitField t)) \<le> unat (req_index r) div 8"
  by (auto simp: handle_request_def Check_eq split: option.splits)

text \<open>\<^verbatim>\<open>CancelUpload\<close> closes a channel that \<^verbatim>\<open>NewTracker\<close> never makes.\<close>

lemma cancel_upload_panics:
  assumes "NewTracker env cid m dir fs = Ok t"
  shows "is_panic (CancelUpload t)"
proof -
  have "ucancel t = NilChan"
    using assms by (auto simp: NewTracker_def outcome_simps Let_def split: option.splits)
  then show ?thesis by (simp add: CancelUpload_def)
qed

text \<open>A cancel of one leecher also removes the same request of another.\<close>

lemma cancel_hits_others:
  assumes "i < length (uslots t)" and "uslots t ! i = Some req"
    and "c = \<lparr>cnc_index = req_index (ureq req), cnc_begin = req_begin (ureq req), cnc_length = req_length (ureq req)\<rparr>"
  shows "uslots (handle_cancel c t) ! i = None"
  using assms by (simp add: handle_cancel_def matches_cancel_def)

end
