(* ===== verification/Paths.thy ===== *)
theory Paths
  imports Status
begin

text \<open>
  Paths of files the client creates: \<^verbatim>\<open>filepath.Split\<close>, the directory a path lies in, and
  \<^verbatim>\<open>os.Mkdir\<close>, \<^verbatim>\<open>os.MkdirAll\<close>, \<^verbatim>\<open>os.Create\<close> and \<^verbatim>\<open>os.Open\<close> on the file system of the tracker. The
  answers of the operating system are given per path; a file can be created only in a directory that
  is there. Symbolic links are not modelled.

  Shown: \<open>Clean\<close> is idempotent, and a file joined to a directory lies in that directory.
\<close>

type_synonym OsEnv = "bytes \<Rightarrow> FsEnv"

section \<open>Paths\<close>

definition Split :: "bytes \<Rightarrow> bytes \<times> bytes" where
  "Split path = (let file = last (split_slash [] path) in (take (length path - length file) path, file))"

text \<open>The directory that holds a cleaned path.\<close>

definition Dir :: "bytes \<Rightarrow> bytes" where
  "Dir path =
     (let es = butlast (split_slash [] path) in
      if es = [] then str ''.'' else if join_slash es = [] then [slash] else join_slash es)"

fun path_prefixes :: "bytes list \<Rightarrow> bytes list \<Rightarrow> bytes list" where
  "path_prefixes pre [] = []"
| "path_prefixes pre (e # es) = join_slash (pre @ [e]) # path_prefixes (pre @ [e]) es"

section \<open>Files\<close>

definition Mkdir :: "OsEnv \<Rightarrow> bytes \<Rightarrow> FS \<Rightarrow> FS outcome" where
  "Mkdir env path fs =
     (case mkdir_err (env path) of
        Some e \<Rightarrow> Err e
      | None \<Rightarrow> if Dir path \<notin> set (dirs fs) then Err NotExist else Ok (fs\<lparr>dirs := path # dirs fs\<rparr>))"

definition MkdirAll :: "OsEnv \<Rightarrow> bytes \<Rightarrow> FS \<Rightarrow> FS outcome" where
  "MkdirAll env path fs =
     (if path \<in> set (dirs fs) then Ok fs
      else (case mkdir_err (env path) of
        Some e \<Rightarrow> Err e
      | None \<Rightarrow> Ok (fs\<lparr>dirs := path # path_prefixes [] (split_slash [] path) @ dirs fs\<rparr>)))"

definition os_Create :: "OsEnv \<Rightarrow> bytes \<Rightarrow> FS \<Rightarrow> FS outcome" where
  "os_Create env path fs =
     (case create_err (env path) of
        Some e \<Rightarrow> Err e
      | None \<Rightarrow>
          if path \<in> set (dirs fs) then Err (SysError ''EISDIR'')
          else if Dir path \<notin> set (dirs fs) then Err NotExist
          else Ok (fs\<lparr>files := (files fs)(path \<mapsto> [])\<rparr>))"

definition os_Open :: "OsEnv \<Rightarrow> bytes \<Rightarrow> FS \<Rightarrow> unit outcome" where
  "os_Open env path fs =
     (case open_err (env path) of
        Some e \<Rightarrow> Err e
      | None \<Rightarrow> if files fs path = None then Err NotExist else Ok ())"

text \<open>Writing at the offset of a handle.\<close>

definition write_at :: "bytes \<Rightarrow> nat \<Rightarrow> bytes \<Rightarrow> FS \<Rightarrow> FS" where
  "write_at path off data fs =
     (let b = (case files fs path of None \<Rightarrow> [] | Some b \<Rightarrow> b) in
      fs\<lparr>files := (files fs)(path \<mapsto> take off (b @ replicate (off - length b) 0) @ data @ drop (off + length data) b)\<rparr>)"

section \<open>Lemmas\<close>

lemma split_slash_no_slash: "slash \<notin> set acc \<Longrightarrow> e \<in> set (split_slash acc cs) \<Longrightarrow> slash \<notin> set e"
  by (induction acc cs rule: split_slash.induct) (auto split: if_splits)

lemma split_slash_not_Nil [simp]: "split_slash acc cs \<noteq> []"
  by (induction acc cs rule: split_slash.induct) auto

text \<open>What \<open>clean_elems\<close> produces: going up first, unless the path is rooted, then plain names.\<close>

definition clean_form :: "bool \<Rightarrow> bytes list \<Rightarrow> bool" where
  "clean_form rooted es \<longleftrightarrow> (\<exists>k ps. es = replicate k (str ''..'') @ ps \<and> list_all plain_elem ps \<and> (rooted \<longrightarrow> k = 0))"

lemma dotdot [simp]: "str ''..'' \<noteq> []" "str ''..'' \<noteq> str ''.''" "slash \<notin> set (str ''..'')" "\<not> plain_elem (str ''..'')"
  by (auto simp: str_def plain_elem_def)

lemma clean_form_snoc: "clean_form rooted out \<Longrightarrow> plain_elem e \<Longrightarrow> clean_form rooted (out @ [e])"
  unfolding clean_form_def by (elim exE conjE, rule exI, rule_tac x = "ps @ [e]" in exI) auto

lemma clean_form_butlast:
  assumes "clean_form rooted out" and "out \<noteq> []" and "last out \<noteq> str ''..''"
  shows "clean_form rooted (butlast out)"
proof -
  from assms(1) obtain k ps where o: "out = replicate k (str ''..'') @ ps" "list_all plain_elem ps" "rooted \<longrightarrow> k = 0"
    by (auto simp: clean_form_def)
  with assms(2,3) have "ps \<noteq> []" by (cases k) (auto simp: last_replicate simp del: replicate.simps)
  with o show ?thesis
    unfolding clean_form_def by (intro exI [of _ k] exI [of _ "butlast ps"]) (auto simp: butlast_append list_all_iff dest: in_set_butlastD)
qed

lemma clean_form_up:
  assumes "clean_form False out" and "out = [] \<or> last out = str ''..''"
  shows "clean_form False (out @ [str ''..''])"
proof -
  from assms(1) obtain k ps where o: "out = replicate k (str ''..'') @ ps" "list_all plain_elem ps"
    by (auto simp: clean_form_def)
  have "ps = []"
  proof (rule ccontr)
    assume "ps \<noteq> []"
    with o assms(2) have "str ''..'' \<in> set ps" using last_in_set by fastforce
    with o(2) show False by (auto simp: list_all_iff)
  qed
  with o have "out @ [str ''..''] = replicate (Suc k) (str ''..'') @ []" by (simp add: replicate_append_same)
  then show ?thesis unfolding clean_form_def by (metis list.pred_inject(1))
qed

lemma clean_elems_form:
  "clean_form rooted out \<Longrightarrow> \<forall>e \<in> set es. slash \<notin> set e \<Longrightarrow> clean_form rooted (clean_elems rooted out es)"
proof (induction rooted out es rule: clean_elems.induct)
  case (2 rooted out e es)
  show ?case
  proof (cases "e = [] \<or> e = str ''.''")
    case True
    with 2 show ?thesis by auto
  next
    case plain: False
    show ?thesis
    proof (cases "e = str ''..''")
      case True
      show ?thesis
      proof (cases "out \<noteq> [] \<and> last out \<noteq> str ''..''")
        case out: True
        with 2(2) [OF plain True out] 2(6,7) True clean_form_butlast show ?thesis by simp
      next
        case out: False
        show ?thesis
        proof (cases rooted)
          case r: True
          have "clean_elems rooted out (e # es) = clean_elems rooted out es" using plain True out r by auto
          with 2(3) [OF plain True out r] 2(6,7) show ?thesis by simp
        next
          case r: False
          have "clean_form rooted (out @ [e])" using clean_form_up 2(6) out r True by auto
          moreover have "clean_elems rooted out (e # es) = clean_elems rooted (out @ [e]) es" using plain True out r by auto
          ultimately show ?thesis using 2(4) [OF plain True out r] 2(7) by simp
        qed
      qed
    next
      case False
      with plain 2(7) have "plain_elem e" by (simp add: plain_elem_def)
      with 2(5) [OF plain False] 2(6,7) plain False clean_form_snoc show ?thesis by simp
    qed
  qed
qed simp

lemma clean_elems_ups: "clean_elems False (replicate j (str ''..'')) (replicate k (str ''..'') @ ps) = clean_elems False (replicate (j + k) (str ''..'')) ps"
proof (induction k arbitrary: j)
  case (Suc k)
  have "clean_elems False (replicate j (str ''..'')) (replicate (Suc k) (str ''..'') @ ps) =
    clean_elems False (replicate j (str ''..'') @ [str ''..'']) (replicate k (str ''..'') @ ps)"
    by (cases j) (simp_all add: last_replicate del: replicate.simps(2) add: replicate_Suc)
  with Suc [of "Suc j"] show ?case by (simp add: replicate_append_same)
qed simp

lemma clean_form_fixed: "clean_form rooted es \<Longrightarrow> clean_elems rooted [] es = es"
proof -
  assume "clean_form rooted es"
  then obtain k ps where e: "es = replicate k (str ''..'') @ ps" "list_all plain_elem ps" "rooted \<longrightarrow> k = 0"
    by (auto simp: clean_form_def)
  show ?thesis
  proof (cases rooted)
    case True
    with e clean_plain [OF e(2)] show ?thesis by simp
  next
    case False
    with e clean_elems_ups [of 0 k ps] clean_plain [OF e(2), of False] show ?thesis by simp
  qed
qed

lemma clean_form_elems: "clean_form rooted es \<Longrightarrow> e \<in> set es \<Longrightarrow> e \<noteq> [] \<and> slash \<notin> set e"
proof -
  assume "clean_form rooted es" and e: "e \<in> set es"
  then obtain k ps where es: "es = replicate k (str ''..'') @ ps" "list_all plain_elem ps" by (auto simp: clean_form_def)
  show ?thesis
  proof (cases "e \<in> set ps")
    case True
    with es(2) show ?thesis by (simp add: list_all_iff plain_elem_def)
  next
    case False
    with e es(1) have "e = str ''..''" by (auto split: if_splits)
    then show ?thesis by simp
  qed
qed

lemma clean_form_hd: "clean_form rooted (e # es) \<Longrightarrow> join_slash (e # es) \<noteq> [] \<and> hd (join_slash (e # es)) \<noteq> slash"
  using clean_form_elems [of rooted "e # es" e] by (cases e; cases es) auto

text \<open>The elements of a path and the path they stand for.\<close>

definition elems_of :: "bytes \<Rightarrow> bytes list" where
  "elems_of path = clean_elems (hd path = slash) [] (split_slash [] path)"

definition path_of :: "bool \<Rightarrow> bytes list \<Rightarrow> bytes" where
  "path_of rooted es = (if rooted then slash # join_slash es else if es = [] then str ''.'' else join_slash es)"

lemma elems_of_form: "clean_form (hd path = slash) (elems_of path)"
  unfolding elems_of_def
  by (rule clean_elems_form) (auto simp: clean_form_def dest: split_slash_no_slash [rotated])

lemma Clean_path_of: "path \<noteq> [] \<Longrightarrow> Clean path = path_of (hd path = slash) (elems_of path)"
proof -
  assume "path \<noteq> []"
  moreover have "join_slash (elems_of path) = [] \<longleftrightarrow> elems_of path = []"
    using elems_of_form [of path] clean_form_hd by (cases "elems_of path") auto
  ultimately show ?thesis by (auto simp: Clean_def path_of_def elems_of_def Let_def)
qed

lemma split_path_of:
  assumes "clean_form rooted es"
  shows "split_slash [] (path_of rooted es) = (if rooted then [] # (if es = [] then [[]] else es) else if es = [] then [str ''.''] else es)"
proof -
  have "\<forall>e \<in> set es. slash \<notin> set e" using clean_form_elems [OF assms] by blast
  then have "es \<noteq> [] \<Longrightarrow> split_slash [] (join_slash es) = es" by (rule split_join_slash [rotated])
  then show ?thesis by (auto simp: path_of_def str_def)
qed

lemma path_of_hd: "clean_form rooted es \<Longrightarrow> path_of rooted es \<noteq> [] \<and> (hd (path_of rooted es) = slash \<longleftrightarrow> rooted)"
  using clean_form_hd [of rooted "hd es" "tl es"] by (auto simp: path_of_def str_def)

lemma elems_path_of:
  assumes "clean_form rooted es"
  shows "elems_of (path_of rooted es) = es"
proof -
  let ?p = "path_of rooted es"
  have h: "(hd ?p = slash) = rooted" using path_of_hd [OF assms] by simp
  have "clean_elems rooted [] (split_slash [] ?p) = es"
    unfolding split_path_of [OF assms] using clean_form_fixed [OF assms] by (cases rooted) simp_all
  then show ?thesis unfolding elems_of_def h .
qed

theorem Clean_idem: "Clean (Clean path) = Clean path"
proof (cases "path = []")
  case True
  then show ?thesis by (simp add: Clean_def str_def)
next
  case False
  let ?r = "hd path = slash"
  have "Clean path = path_of ?r (elems_of path)" using Clean_path_of [OF False] .
  moreover have "Clean (path_of ?r (elems_of path)) = path_of ?r (elems_of path)"
    using Clean_path_of [of "path_of ?r (elems_of path)"] path_of_hd [OF elems_of_form, of path]
      elems_path_of [OF elems_of_form, of path] by simp
  ultimately show ?thesis by simp
qed

lemma Join_snoc:
  assumes "d \<noteq> []" and "plain_elem x"
  shows "Join [d, x] = path_of (hd d = slash) (elems_of d @ [x])"
proof -
  have "elems_of (d @ slash # x) = elems_of d @ [x]"
    using assms by (simp add: elems_of_def split_slash_snoc split_slash_elem plain_elem_def clean_elems_snoc)
  with assms(1) Clean_path_of [of "d @ slash # x"] show ?thesis by simp
qed

lemma Join_neq:
  assumes "d \<noteq> []" and "plain_elem x"
  shows "Join [d, x] \<noteq> d"
proof
  assume eq: "Join [d, x] = d"
  have "elems_of (Join [d, x]) = elems_of d @ [x]"
    unfolding Join_snoc [OF assms] by (rule elems_path_of [OF clean_form_snoc [OF elems_of_form assms(2)]])
  then show False by (simp add: eq del: Join.simps)
qed

theorem Dir_Join:
  assumes "d \<noteq> []" and "plain_elem x"
  shows "Dir (Join [d, x]) = Clean d"
proof -
  let ?r = "hd d = slash"
  have f: "clean_form ?r (elems_of d @ [x])" using clean_form_snoc [OF elems_of_form assms(2)] .
  have "butlast (split_slash [] (Join [d, x])) = (if ?r then [] # elems_of d else elems_of d)"
    using split_path_of [OF f] by (auto simp: Join_snoc [OF assms] butlast_append simp del: Join.simps)
  moreover have "elems_of d \<noteq> [] \<Longrightarrow> join_slash (elems_of d) \<noteq> []"
    using elems_of_form [of d] clean_form_hd by (cases "elems_of d") auto
  ultimately show ?thesis
    using Clean_path_of [OF assms(1)] by (cases "elems_of d") (auto simp: Dir_def Let_def path_of_def simp del: Join.simps)
qed

lemma Join_clean [simp]: "Clean (Join es) = Join es" if "Join es \<noteq> []"
  using that by (induction es) (auto simp: Clean_idem split: if_splits)

lemma Clean_slash: "d \<noteq> [] \<Longrightarrow> Clean (d @ [slash]) = Clean d"
proof -
  assume d: "d \<noteq> []"
  have "clean_elems r out (es @ [[]]) = clean_elems r out es" for r out es
    by (induction r out es rule: clean_elems.induct) auto
  then have "elems_of (d @ [slash]) = elems_of d" using d by (simp add: elems_of_def split_slash_snoc)
  with d Clean_path_of [of d] Clean_path_of [of "d @ [slash]"] show ?thesis by simp
qed

end
