(* ===== verification/Reassembly.thy ===== *)
theory Reassembly
  imports Paths DownloadInvariant
begin

text \<open>
  Putting the downloaded torrent together: \<^verbatim>\<open>WaitFor\<close> of \<^verbatim>\<open>client.go\<close>, which copies the verified
  pieces into the file of the torrent, or into its files.

  \<^item> \<open>io_copy\<close> and \<open>CopyN\<close> are \<^verbatim>\<open>io.Copy\<close> and \<^verbatim>\<open>io.CopyN\<close> between open files; what the operating system
    answers to the n-th copy is a parameter. A copy of bytes of a file into the same file is not
    given a result.
  \<^item> \<open>merge_single\<close> and \<open>merge_multi\<close> are the two cases of the switch; \<open>copy_file\<close> is the inner loop
    of the second, which may run forever.

  Shown: for a complete torrent both write exactly its bytes, and the second ends; a torrent named
  like its first piece file destroys that piece.
\<close>

section \<open>Copying between files\<close>

type_synonym CopyEnv = "nat \<Rightarrow> (nat \<times> error) option"
type_synonym Handle = "bytes \<times> nat"

definition io_copy ::
  "(nat \<times> error) option \<Rightarrow> nat option \<Rightarrow> Handle \<Rightarrow> Handle \<Rightarrow> FS \<Rightarrow> (FS \<times> nat \<times> error option) option" where
  "io_copy res limit = (\<lambda>(src, from) (dst, to) fs.
     let rest = drop from (case files fs src of None \<Rightarrow> [] | Some b \<Rightarrow> b);
         data = (case limit of None \<Rightarrow> rest | Some n \<Rightarrow> take n rest)
     in (case res of
           None \<Rightarrow>
             if data = [] then Some (fs, 0, None)
             else if src = dst then None
             else Some (write_at dst to data fs, length data, None)
         | Some (k, e) \<Rightarrow>
             if take k data = [] then Some (fs, 0, Some e)
             else if src = dst then None
             else Some (write_at dst to (take k data) fs, length (take k data), Some e)))"

definition CopyN ::
  "(nat \<times> error) option \<Rightarrow> int64 \<Rightarrow> Handle \<Rightarrow> Handle \<Rightarrow> FS \<Rightarrow> (FS \<times> nat \<times> error option) option" where
  "CopyN res n src dst fs =
     (if n \<le> 0 then Some (fs, 0, None)
      else (case io_copy res (Some (nat n)) src dst fs of
        None \<Rightarrow> None
      | Some (fs', w, err) \<Rightarrow>
          Some (fs', w, if int w = n then None else if err = None \<and> int w < n then Some IoEOF else err)))"

section \<open>One file\<close>

datatype WaitError = WaitErr error | Reconstruct string "error list"

fun merge_loop ::
  "OsEnv \<Rightarrow> CopyEnv \<Rightarrow> bytes \<Rightarrow> bytes \<Rightarrow> u32 list \<Rightarrow> nat \<Rightarrow> FS \<times> nat \<times> int64 \<times> error list
     \<Rightarrow> (FS \<times> nat \<times> int64 \<times> error list) option" where
  "merge_loop env res dir final [] n st = Some st"
| "merge_loop env res dir final (i # is) n (fs, off, copied, errAll) =
     (let path = piece_file dir i in
      (case os_Open env path fs of
         Ok _ \<Rightarrow>
           (case io_copy (res n) None (path, 0) (final, off) fs of
              None \<Rightarrow> None
            | Some (fs', w, Some e) \<Rightarrow>
                merge_loop env res dir final is (Suc n)
                  (fs', off + w, copied, errAll @ [Wrapped ''failed to copy piece to final merging file: '' e])
            | Some (fs', w, None) \<Rightarrow>
                merge_loop env res dir final is (Suc n) (fs', off + w, i64 (copied + int w), errAll))
       | _ \<Rightarrow>
           merge_loop env res dir final is (Suc n)
             (fs, off, copied, errAll @ [ErrorMsg ''failed to open file for piece''])))"

definition merge_single ::
  "OsEnv \<Rightarrow> CopyEnv \<Rightarrow> InfoSingleFile \<Rightarrow> StatusTracker \<Rightarrow> (StatusTracker \<times> WaitError option) outcome option" where
  "merge_single env res sf t =
     (let final = Join [DownloadDir t, sName sf] in
      (case os_Create env final (disk t) of
         Panic s \<Rightarrow> Some (Panic s)
       | Err e \<Rightarrow> Some (Ok (t, Some (WaitErr (Wrapped ''failed to create torrent file for merging pieces: '' e))))
       | Ok fs \<Rightarrow>
           (case obind (ExistingPieces (BitField t)) (\<lambda>pcs. obind (BytesToDownload (Torrent t)) (\<lambda>totalSize. Ok (pcs, totalSize))) of
              Panic s \<Rightarrow> Some (Panic s)
            | Err e \<Rightarrow> Some (Err e)
            | Ok (pcs, totalSize) \<Rightarrow>
                (case merge_loop env res (DownloadDir t) final pcs 0 (fs, 0, 0, []) of
                   None \<Rightarrow> None
                 | Some (fs', off, copied, errs) \<Rightarrow>
                     let errs1 = errs @ (case fclose_err (env final) of None \<Rightarrow> [] | Some e \<Rightarrow> [e]);
                         errAll = errs1 @ (if copied \<noteq> totalSize
                           then [ErrorMsg ''failed to reconstruct torrent from downloaded pieces''] else [])
                     in Some (Ok (t\<lparr>disk := fs'\<rparr>,
                          if errAll \<noteq> [] then Some (Reconstruct ''failed to reconstruct downloaded torrent: '' errAll)
                          else None))))))"

section \<open>Several files\<close>

fun make_files ::
  "OsEnv \<Rightarrow> bytes \<Rightarrow> FileInfo list \<Rightarrow> FS \<times> bytes list \<times> error list \<Rightarrow> FS \<times> bytes list \<times> error list" where
  "make_files env parent [] st = st"
| "make_files env parent (fi # fis) (fs, hs, errAll) =
     (case Split (fPath fi) of (dir, filename) \<Rightarrow>
      (case (if dir \<noteq> [] then MkdirAll env (Join [parent, dir]) fs else Ok fs) of
         Ok fs1 \<Rightarrow>
           (case os_Create env (Join [parent, dir, filename]) fs1 of
              Ok fs2 \<Rightarrow> make_files env parent fis (fs2, hs @ [Join [parent, dir, filename]], errAll)
            | _ \<Rightarrow> make_files env parent fis
                (fs1, hs, errAll @ [ErrorMsg ''failed to create torrent file for merging pieces''])) 
       | _ \<Rightarrow> make_files env parent fis (fs, hs, errAll @ [ErrorMsg ''failed to create parent dir for path''])))"

fun open_pieces :: "OsEnv \<Rightarrow> bytes \<Rightarrow> u32 list \<Rightarrow> FS \<Rightarrow> bytes list \<times> error list" where
  "open_pieces env dir [] fs = ([], [])"
| "open_pieces env dir (i # is) fs =
     (case open_pieces env dir is fs of (hs, errAll) \<Rightarrow>
      (case os_Open env (piece_file dir i) fs of
         Ok _ \<Rightarrow> (piece_file dir i # hs, errAll)
       | _ \<Rightarrow> (hs, ErrorMsg ''failed to open file for piece'' # errAll)))"

text \<open>The variables of the copy loop: the file system, the offsets of the pieces, \<^verbatim>\<open>cp\<close>, \<^verbatim>\<open>l\<close>, the number
  of copies so far, and \<^verbatim>\<open>errAll\<close>.\<close>

record Cursor =
  cfs :: FS
  coffs :: "nat list"
  cp :: nat
  cl :: int64
  cn :: nat
  cerrs :: "error list"

partial_function (option) copy_file ::
  "CopyEnv \<Rightarrow> bytes list \<Rightarrow> int64 \<Rightarrow> bytes \<Rightarrow> int64 \<Rightarrow> int64 \<Rightarrow> nat \<Rightarrow> Cursor \<Rightarrow> Cursor outcome option" where
  "copy_file res pieces pl dst len c off k =
     (if \<not> c < len then Some (Ok k)
      else if length pieces \<le> cp k then Some (Panic ''index out of range'')
      else Option.bind
        (CopyN (res (cn k)) (min (cl k) (i64 (len - c))) (pieces ! cp k, coffs k ! cp k) (dst, off) (cfs k))
        (\<lambda>r. case r of (fs, w, err) \<Rightarrow>
          let k1 = k\<lparr>cfs := fs, coffs := (coffs k)[cp k := coffs k ! cp k + w], cn := Suc (cn k)\<rparr> in
          if err \<noteq> None
          then copy_file res pieces pl dst len c (off + w)
                 (k1\<lparr>cerrs := cerrs k1 @ [Wrapped ''failed to copy piece to final merging file: '' (the err)]\<rparr>)
          else
            let l = i64 (cl k - int w);
                k2 = (if l = 0 then k1\<lparr>cp := Suc (cp k), cl := pl\<rparr> else k1\<lparr>cl := l\<rparr>)
            in copy_file res pieces pl dst len (i64 (c + int w)) (off + w) k2))"

fun copy_files ::
  "CopyEnv \<Rightarrow> bytes list \<Rightarrow> int64 \<Rightarrow> FileInfo list \<Rightarrow> bytes list \<Rightarrow> int64 \<Rightarrow> Cursor \<Rightarrow> (int64 \<times> Cursor) outcome option" where
  "copy_files res pieces pl [] hs tc k = Some (Ok (tc, k))"
| "copy_files res pieces pl (fi # fis) [] tc k = Some (Panic ''index out of range'')"
| "copy_files res pieces pl (fi # fis) (h # hs) tc k =
     Option.bind (copy_file res pieces pl h (fLength fi) 0 0 k) (\<lambda>r.
     case r of
       Ok k' \<Rightarrow> copy_files res pieces pl fis hs (i64 (tc + fLength fi)) k'
     | Err e \<Rightarrow> Some (Err e)
     | Panic s \<Rightarrow> Some (Panic s))"

definition multi_failed :: "error list \<Rightarrow> WaitError" where
  "multi_failed errAll = Reconstruct ''failed to reconstruct multi-file torrent: '' errAll"

definition make_parent :: "OsEnv \<Rightarrow> bytes \<Rightarrow> FS \<Rightarrow> FS outcome" where
  "make_parent env parent fs =
     (if parent \<notin> set (dirs fs) \<and> files fs parent = None then Mkdir env parent fs else Ok fs)"

definition merge_multi ::
  "OsEnv \<Rightarrow> CopyEnv \<Rightarrow> InfoMultiFile \<Rightarrow> StatusTracker \<Rightarrow> (StatusTracker \<times> WaitError option) outcome option" where
  "merge_multi env res mf t =
     (let parent = Join [DownloadDir t, mName mf] in
      (case make_parent env parent (disk t) of
         Panic s \<Rightarrow> Some (Panic s)
       | Err e \<Rightarrow> Some (Ok (t, Some (WaitErr
           (ErrorMsg ''failed to create parent directory for assembling multi file torrent''))))
       | Ok fs \<Rightarrow>
           (case make_files env parent (mFiles mf) (fs, [], []) of (fs1, hs, errs1) \<Rightarrow>
            if errs1 \<noteq> [] then Some (Ok (t\<lparr>disk := fs1\<rparr>, Some (multi_failed errs1)))
            else
              (case obind (ExistingPieces (BitField t)) (\<lambda>pcs. obind (BytesToDownload (Torrent t)) (\<lambda>totalSize. Ok (pcs, totalSize))) of
                 Panic s \<Rightarrow> Some (Panic s)
               | Err e \<Rightarrow> Some (Err e)
               | Ok (pcs, totalSize) \<Rightarrow>
                   (case open_pieces env (DownloadDir t) pcs fs1 of (pieces, errs2) \<Rightarrow>
                    if errs2 \<noteq> [] then Some (Ok (t\<lparr>disk := fs1\<rparr>, Some (multi_failed errs2)))
                    else
                      (case copy_files res pieces (PieceLength (mInfo (Torrent t))) (mFiles mf) hs 0
                          \<lparr>cfs = fs1, coffs = replicate (length pieces) 0, cp = 0,
                           cl = PieceLength (mInfo (Torrent t)), cn = 0, cerrs = []\<rparr> of
                         None \<Rightarrow> None
                       | Some (Panic s) \<Rightarrow> Some (Panic s)
                       | Some (Err e) \<Rightarrow> Some (Err e)
                       | Some (Ok (tc, k)) \<Rightarrow>
                           let errAll = cerrs k @ (if tc \<noteq> totalSize
                             then [ErrorMsg ''failed to reconstruct torrent from downloaded pieces''] else [])
                           in Some (Ok (t\<lparr>disk := cfs k\<rparr>, if errAll \<noteq> [] then Some (multi_failed errAll) else None))))))))"

section \<open>Waiting\<close>

datatype WaitEvent = ClientDone | TorrentDownloaded

definition WaitFor ::
  "OsEnv \<Rightarrow> CopyEnv \<Rightarrow> bytes \<Rightarrow> WaitEvent \<Rightarrow> StatusTracker dict
     \<Rightarrow> (StatusTracker dict \<times> WaitError option) outcome option" where
  "WaitFor env res tid ev ts =
     (case dict_get ts tid of
        None \<Rightarrow> Some (Ok (ts, Some (WaitErr
          (ErrorMsg ''torrent was not found, its possible that it was tracked but was deleted midway''))))
      | Some t \<Rightarrow>
          (case ev of
             ClientDone \<Rightarrow> Some (Ok (ts, Some (WaitErr (ErrorMsg ''client shutting down''))))
           | TorrentDownloaded \<Rightarrow>
               map_option (\<lambda>r. obind r (\<lambda>(t', err). Ok (dict_set tid t' ts, err)))
                 (case (SingleFile (mInfo (Torrent t)), MultiFile (mInfo (Torrent t))) of
                    (Some sf, _) \<Rightarrow> merge_single env res sf t
                  | (None, Some mf) \<Rightarrow> merge_multi env res mf t
                  | (None, None) \<Rightarrow> Some (Ok (t, None)))))"

section \<open>The bytes of a complete torrent\<close>

definition piece_data :: "StatusTracker \<Rightarrow> nat \<Rightarrow> bytes" where
  "piece_data t i = (case files (disk t) (piece_file (DownloadDir t) (of_nat i)) of None \<Rightarrow> [] | Some d \<Rightarrow> d)"

definition content :: "StatusTracker \<Rightarrow> bytes" where
  "content t = concat (map (piece_data t) [0..<num_pieces (Torrent t)])"

definition complete :: "StatusTracker \<Rightarrow> bool" where
  "complete t \<longleftrightarrow> torrent_ok (Torrent t) \<and> bf_wf (BitField t) \<and> bf_count (BitField t) = num_pieces (Torrent t)
     \<and> have_set (BitField t) = {..<num_pieces (Torrent t)} \<and> (\<forall>i < num_pieces (Torrent t). on_disk t i)
     \<and> Clean (DownloadDir t) = DownloadDir t"

definition os_up :: "OsEnv \<Rightarrow> bool" where
  "os_up env \<longleftrightarrow> (\<forall>path. fs_up (env path))"

lemma complete_piece:
  assumes "complete t" and "i < num_pieces (Torrent t)"
  shows "files (disk t) (piece_file (DownloadDir t) (of_nat i)) = Some (piece_data t i)"
    and "length (piece_data t i) = piece_size (Torrent t) i" and "sha1 (piece_data t i) = hash_of (Torrent t) i"
  using assms by (auto simp: complete_def on_disk_def piece_data_def)

lemma complete_listing:
  assumes "complete t"
  shows "ExistingPieces (BitField t) = Ok (map of_nat [0..<num_pieces (Torrent t)])"
proof -
  let ?b = "BitField t"
  have "ExistingPieces ?b = Ok (filter (\<lambda>i. Check ?b i = Ok True) (map of_nat [0..<bf_count ?b]))"
    using assms bf.existing_eq by (simp add: complete_def)
  moreover have "filter (\<lambda>i. Check ?b i = Ok True) (map of_nat [0..<bf_count ?b]) = map of_nat [0..<bf_count ?b]"
  proof (rule filter_True, safe)
    fix i :: u32 assume "i \<in> set (map of_nat [0..<bf_count ?b])"
    then obtain j where "j < bf_count ?b" "i = of_nat j" by auto
    moreover from this assms have "j \<in> have_set ?b" by (auto simp: complete_def)
    ultimately show "Check ?b i = Ok True" by (simp add: have_set_def)
  qed
  ultimately show ?thesis using assms by (simp add: complete_def)
qed

lemma full_piece:
  assumes "torrent_ok m" and "Suc i < num_pieces m"
  shows "piece_size m i = piece_length m"
proof -
  have "Suc i * piece_length m < total_size m" using piece_size_bounds(3) [OF assms] .
  then show ?thesis by (simp add: piece_size_def min_def)
qed

lemma concat_length:
  assumes "torrent_ok m" and "\<forall>i < num_pieces m. length (D i) = piece_size m i" and "k < num_pieces m"
  shows "length (concat (map D [0..<k])) = k * piece_length m"
  using assms(3)
proof (induction k)
  case (Suc k)
  have "piece_size m k = piece_length m"
    using assms(1) Suc.prems full_piece by blast
  with Suc assms(2) show ?case by simp
qed simp

lemma chunk_of_concat:
  assumes "torrent_ok m" and "\<forall>i < num_pieces m. length (D i) = piece_size m i" and "i < num_pieces m"
  shows "D i = take (piece_length m) (drop (i * piece_length m) (concat (map D [0..<num_pieces m])))"
    and "length (concat (map D [0..<num_pieces m])) = total_size m"
proof -
  let ?n = "num_pieces m"
  have split: "concat (map D [0..<?n]) = concat (map D [0..<k]) @ D k @ concat (map D [Suc k..<?n])" if "k < ?n" for k
    using that upt_add_eq_append [of 0 k "?n - k"] by (simp add: upt_conv_Cons)
  show "D i = take (piece_length m) (drop (i * piece_length m) (concat (map D [0..<?n])))"
  proof (cases "Suc i = ?n")
    case True
    with split [OF assms(3)] concat_length [OF assms] assms(2,3) show ?thesis by (simp add: piece_size_def)
  next
    case False
    with assms have "length (D i) = piece_length m" using full_piece [OF assms(1), of i] by simp
    with split [OF assms(3)] concat_length [OF assms] show ?thesis by simp
  qed
  let ?k = "?n - 1"
  have k: "?k < ?n" "Suc ?k = ?n" using assms(3) by auto
  have "total_size m \<le> Suc ?k * piece_length m" using assms(1) k(2) by (simp add: torrent_ok_def)
  then have "total_size m - ?k * piece_length m \<le> piece_length m" by (simp only: mult_Suc)
  then have "length (D ?k) = total_size m - ?k * piece_length m" using assms(2) k(1)
    by (simp add: piece_size_def)
  moreover have "?k * piece_length m \<le> total_size m" using assms(1) by (simp add: torrent_ok_def)
  ultimately show "length (concat (map D [0..<?n])) = total_size m"
    using split [OF k(1)] concat_length [OF assms(1,2) k(1)] k(2) by simp
qed

lemma content_chunk:
  assumes "complete t" and "i < num_pieces (Torrent t)"
  shows "piece_data t i = take (piece_length (Torrent t)) (drop (i * piece_length (Torrent t)) (content t))"
  unfolding content_def
  using chunk_of_concat(1) [of "Torrent t" "piece_data t" i] assms complete_piece(2) [OF assms(1)] by (simp add: complete_def)

lemma content_length: "complete t \<Longrightarrow> length (content t) = total_size (Torrent t)"
  unfolding content_def
  using chunk_of_concat(2) [of "Torrent t" "piece_data t" 0] complete_piece(2) [of t]
  by (simp add: complete_def torrent_ok_def)

section \<open>One file: proof\<close>

lemma write_at_end: "files fs p = Some b \<Longrightarrow> write_at p (length b) data fs = fs\<lparr>files := (files fs)(p \<mapsto> b @ data)\<rparr>"
  by (simp add: write_at_def)

lemma write_nothing: "files fs p = Some b \<Longrightarrow> fs\<lparr>files := (files fs)(p \<mapsto> b)\<rparr> = fs"
  by (cases fs) (simp add: fun_upd_idem)

lemma io_copy_appends:
  assumes "files fs src = Some d" and "files fs dst = Some b" and "src \<noteq> dst"
  shows "io_copy None None (src, 0) (dst, length b) fs = Some (fs\<lparr>files := (files fs)(dst \<mapsto> b @ d)\<rparr>, length d, None)"
  using assms write_at_end [OF assms(2)] write_nothing [OF assms(2)] by (simp add: io_copy_def Let_def)

lemma merge_loop_appends:
  assumes "\<forall>i \<in> set is. open_err (env (piece_file dir i)) = None \<and> piece_file dir i \<noteq> final
      \<and> files fs (piece_file dir i) = Some (D i)"
    and "files fs final = Some b" and "0 \<le> c" and "c + int (length (concat (map D is))) < 2 ^ 63"
  shows "merge_loop env (\<lambda>_. None) dir final is n (fs, length b, c, errs) =
    Some (fs\<lparr>files := (files fs)(final \<mapsto> b @ concat (map D is))\<rparr>, length b + length (concat (map D is)),
      c + int (length (concat (map D is))), errs)"
  using assms
proof (induction "is" arbitrary: fs b c n)
  case Nil
  then show ?case using write_nothing [OF Nil.prems(2)] by (simp del: fun_upd_apply)
next
  case (Cons i "is")
  let ?fs = "fs\<lparr>files := (files fs)(final \<mapsto> b @ D i)\<rparr>"
  have i: "open_err (env (piece_file dir i)) = None" "piece_file dir i \<noteq> final" "files fs (piece_file dir i) = Some (D i)"
    using Cons.prems(1) by simp_all
  have "i64 (c + int (length (D i))) = c + int (length (D i))"
    using Cons.prems(3,4) by (intro i64_id) (simp add: in_i64_def)
  then have "merge_loop env (\<lambda>_. None) dir final (i # is) n (fs, length b, c, errs) =
    merge_loop env (\<lambda>_. None) dir final is (Suc n) (?fs, length (b @ D i), c + int (length (D i)), errs)"
    using io_copy_appends [OF i(3) Cons.prems(2) i(2)] i by (simp add: os_Open_def Let_def)
  also have "\<dots> = Some (?fs\<lparr>files := (files ?fs)(final \<mapsto> (b @ D i) @ concat (map D is))\<rparr>, length (b @ D i) + length (concat (map D is)),
      (c + int (length (D i))) + int (length (concat (map D is))), errs)"
    using Cons.prems by (intro Cons.IH) auto
  also have "?fs\<lparr>files := (files ?fs)(final \<mapsto> (b @ D i) @ concat (map D is))\<rparr> =
    fs\<lparr>files := (files fs)(final \<mapsto> b @ concat (map D (i # is)))\<rparr>" by simp
  finally show ?case by (simp only: length_append list.map concat.simps of_nat_add add.assoc)
qed

lemma complete_dir:
  assumes "complete t"
  shows "DownloadDir t \<in> set (dirs (disk t))" and "DownloadDir t \<noteq> []"
proof -
  have "on_disk t 0" using assms by (simp add: complete_def torrent_ok_def)
  then show "DownloadDir t \<in> set (dirs (disk t))" by (simp add: on_disk_def)
  show "DownloadDir t \<noteq> []" using assms by (auto simp: complete_def Clean_def str_def)
qed

lemma complete_create:
  assumes "complete t" and "os_up env" and "plain_elem name" and "Join [DownloadDir t, name] \<notin> set (dirs (disk t))"
  shows "os_Create env (Join [DownloadDir t, name]) (disk t) =
    Ok ((disk t)\<lparr>files := (files (disk t))(Join [DownloadDir t, name] \<mapsto> [])\<rparr>)"
proof -
  have "Dir (Join [DownloadDir t, name]) = DownloadDir t"
    using Dir_Join [OF complete_dir(2) [OF assms(1)] assms(3)] assms(1) by (simp add: complete_def del: Join.simps)
  with assms(2,4) complete_dir(1) [OF assms(1)] show ?thesis
    by (simp add: os_Create_def os_up_def fs_up_def del: Join.simps)
qed

lemma complete_total: "complete t \<Longrightarrow> BytesToDownload (Torrent t) = Ok (int (length (content t)))"
  using content_length [of t] by (simp add: complete_def torrent_ok_def)

lemma merge_single_complete:
  assumes "complete t" and "os_up env" and "plain_elem (sName sf)"
    and "\<forall>i. sName sf \<noteq> show_nat i @ str ''.bin''" and "Join [DownloadDir t, sName sf] \<notin> set (dirs (disk t))"
  shows "merge_single env (\<lambda>_. None) sf t = Some (Ok (t\<lparr>disk := (disk t)\<lparr>files :=
    (files (disk t))(Join [DownloadDir t, sName sf] \<mapsto> content t)\<rparr>\<rparr>, None))"
proof -
  let ?n = "num_pieces (Torrent t)" and ?final = "Join [DownloadDir t, sName sf]"
  let ?fs = "(disk t)\<lparr>files := (files (disk t))(?final \<mapsto> [])\<rparr>" and ?is = "map of_nat [0..<?n] :: u32 list"
  let ?D = "\<lambda>i :: u32. piece_data t (unat i)"
  have n: "?n < 2 ^ 32" using assms(1) by (simp add: complete_def torrent_ok_def)
  have ne: "piece_file (DownloadDir t) i \<noteq> ?final" for i
    using assms(3,4) Join_inject [of "show_nat (unat i) @ str ''.bin''" "sName sf" "DownloadDir t"]
    by (metis piece_file_def piece_name_plain)
  have u: "unat (of_nat j :: u32) = j" if "j < ?n" for j
    using n that by (simp add: unat_of_nat take_bit_nat_eq_self)
  then have "map ?D ?is = map (piece_data t) [0..<?n]" by simp
  then have ct: "concat (map ?D ?is) = content t" by (simp only: content_def)
  have "\<forall>i \<in> set ?is. open_err (env (piece_file (DownloadDir t) i)) = None \<and> piece_file (DownloadDir t) i \<noteq> ?final
      \<and> files ?fs (piece_file (DownloadDir t) i) = Some (?D i)"
  proof
    fix i :: u32 assume "i \<in> set ?is"
    then obtain j where j: "j < ?n" "i = of_nat j" by auto
    with u have "unat i = j" by simp
    with complete_piece(1) [OF assms(1) j(1)] j ne [of i] assms(2)
    show "open_err (env (piece_file (DownloadDir t) i)) = None \<and> piece_file (DownloadDir t) i \<noteq> ?final
      \<and> files ?fs (piece_file (DownloadDir t) i) = Some (?D i)" by (simp add: os_up_def fs_up_def del: Join.simps)
  qed
  note pieces = this
  have small: "0 + int (length (concat (map ?D ?is))) < 2 ^ 63"
    unfolding ct using total_size_bound [of "Torrent t"] content_length [OF assms(1)] assms(1) by (simp add: complete_def)
  have new: "files ?fs ?final = Some []" by (simp del: Join.simps)
  have "merge_loop env (\<lambda>_. None) (DownloadDir t) ?final ?is 0 (?fs, 0, 0, []) =
    Some (?fs\<lparr>files := (files ?fs)(?final \<mapsto> content t)\<rparr>, length (content t), int (length (content t)), [])"
    using merge_loop_appends [OF pieces new order_refl small, of 0 "[]"] unfolding ct
    by (simp only: list.size append_Nil add_0 of_nat_0)
  then show ?thesis
    using complete_create [OF assms(1-3,5)] complete_listing [OF assms(1)] complete_total [OF assms(1)] assms(2)
    by (simp add: merge_single_def Let_def os_up_def fs_up_def del: Join.simps)
qed

section \<open>Several files: proof\<close>

text \<open>The cursor stands \<open>g\<close> bytes into the torrent.\<close>

definition at_pos :: "nat \<Rightarrow> nat \<Rightarrow> nat \<Rightarrow> Cursor \<Rightarrow> bool" where
  "at_pos pl n g k \<longleftrightarrow> cp k = g div pl \<and> cl k = int (pl - g mod pl) \<and> length (coffs k) = n \<and> cerrs k = []
     \<and> (\<forall>j < n. coffs k ! j = (if j < g div pl then coffs k ! j else if j = g div pl then g mod pl else 0))"

lemma at_pos_step:
  assumes "at_pos pl n g k" and "0 < w" and "int w \<le> cl k" and "g div pl < n" and "0 < pl" and "pl < 2 ^ 32"
  shows "at_pos pl n (g + w)
    (let k1 = k\<lparr>cfs := fs, coffs := (coffs k)[cp k := coffs k ! cp k + w], cn := Suc (cn k)\<rparr>;
         l = i64 (cl k - int w)
     in if l = 0 then k1\<lparr>cp := Suc (cp k), cl := int pl\<rparr> else k1\<lparr>cl := l\<rparr>)"
proof -
  define q r where "q = g div pl" and "r = g mod pl"
  have g: "g = q * pl + r" "r < pl" using assms(5) by (auto simp: q_def r_def)
  have k: "cp k = q" "cl k = int (pl - r)" "length (coffs k) = n" "cerrs k = []"
    "\<forall>j < n. q < j \<longrightarrow> coffs k ! j = 0" "coffs k ! q = r"
    using assms(1,4) by (auto simp: at_pos_def q_def r_def split: if_splits)
  have w: "w \<le> pl - r" using assms(3) k(2) by linarith
  have l: "i64 (cl k - int w) = int (pl - r - w)"
    using w assms(6) k(2) by (subst i64_id) (auto simp: in_i64_def)
  show ?thesis
  proof (cases "w = pl - r")
    case True
    then have "g + w = Suc q * pl" using g by simp
    then have "(g + w) div pl = Suc q" "(g + w) mod pl = 0" using assms(5) by (simp_all only: nonzero_mult_div_cancel_right mod_mult_self2_is_0)
    with True k l show ?thesis by (auto simp: at_pos_def Let_def nth_list_update)
  next
    case False
    with w have rw: "r + w < pl" by simp
    then have "(g + w) div pl = q" "(g + w) mod pl = r + w" using g by (simp_all add: add.assoc)
    with False w k l rw assms(4) show ?thesis by (auto simp: at_pos_def Let_def nth_list_update q_def [symmetric])
  qed
qed

lemma take_chunk:
  assumes "0 < pl" and "w \<le> pl - g mod pl"
  shows "take w (drop (g mod pl) (take pl (drop (g div pl * pl) xs))) = take w (drop g xs)"
proof -
  have "drop (g mod pl) (take pl (drop (g div pl * pl) xs)) = take (pl - g mod pl) (drop g xs)"
    by (simp add: drop_take add.commute [of "g mod pl"])
  with assms(2) show ?thesis by (simp add: min_def)
qed

text \<open>The open piece files and the bytes they hold.\<close>

definition holds :: "FS \<Rightarrow> bytes list \<Rightarrow> nat \<Rightarrow> bytes \<Rightarrow> bool" where
  "holds fs pieces pl xs \<longleftrightarrow> 0 < pl \<and> pl < 2 ^ 32 \<and> length xs \<le> length pieces * pl \<and> length xs < 2 ^ 62
     \<and> (\<forall>i < length pieces. files fs (pieces ! i) = Some (take pl (drop (i * pl) xs)))"

lemma holds_write:
  "holds fs pieces pl xs \<Longrightarrow> dst \<notin> set pieces \<Longrightarrow> holds (fs\<lparr>files := (files fs)(dst \<mapsto> b)\<rparr>) pieces pl xs"
  by (auto simp: holds_def)

lemma CopyN_chunk:
  assumes "holds fs pieces pl xs" and "at_pos pl (length pieces) g k" and "files fs dst = Some b" and "dst \<notin> set pieces"
    and "0 < w" and "int w \<le> cl k" and "g + w \<le> length xs"
  shows "g div pl < length pieces"
    and "CopyN None (int w) (pieces ! cp k, coffs k ! cp k) (dst, length b) fs =
      Some (fs\<lparr>files := (files fs)(dst \<mapsto> b @ take w (drop g xs))\<rparr>, w, None)"
proof -
  have pl: "0 < pl" using assms(1) by (simp add: holds_def)
  have "g < length pieces * pl" using assms(1,5,7) by (simp add: holds_def)
  then show q: "g div pl < length pieces" by (simp add: less_mult_imp_div_less)
  then have k: "cp k = g div pl" "coffs k ! cp k = g mod pl" "cl k = int (pl - g mod pl)"
    using assms(2) by (auto simp: at_pos_def)
  let ?src = "pieces ! (g div pl)"
  have src: "?src \<noteq> dst" "files fs ?src = Some (take pl (drop (g div pl * pl) xs))"
    using assms(1,4) q by (auto simp: holds_def)
  have "take w (drop (g mod pl) (take pl (drop (g div pl * pl) xs))) = take w (drop g xs)"
    using take_chunk [OF pl] assms(6) k(3) by simp
  moreover have "length (take w (drop g xs)) = w" "take w (drop g xs) \<noteq> []" using assms(5,7) by auto
  ultimately have "io_copy None (Some w) (?src, g mod pl) (dst, length b) fs =
    Some (write_at dst (length b) (take w (drop g xs)) fs, w, None)"
    unfolding io_copy_def Let_def prod.case src(2) option.case using src(1)
    by (simp only: if_False)
  then show "CopyN None (int w) (pieces ! cp k, coffs k ! cp k) (dst, length b) fs =
      Some (fs\<lparr>files := (files fs)(dst \<mapsto> b @ take w (drop g xs))\<rparr>, w, None)"
    using assms(5) write_at_end [OF assms(3)] k by (simp add: CopyN_def)
qed

lemma copy_file_writes:
  assumes "holds (cfs k) pieces pl xs" and "at_pos pl (length pieces) g k" and "files (cfs k) dst = Some b"
    and "dst \<notin> set pieces" and "g + m \<le> length xs" and "len = int (length b + m)" and "length b + m < 2 ^ 62"
  shows "\<exists>k'. copy_file (\<lambda>_. None) pieces (int pl) dst len (int (length b)) (length b) k = Some (Ok k')
    \<and> at_pos pl (length pieces) (g + m) k'
    \<and> cfs k' = (cfs k)\<lparr>files := (files (cfs k))(dst \<mapsto> b @ take m (drop g xs))\<rparr>"
  using assms
proof (induction m arbitrary: k g b rule: less_induct)
  case (less m)
  show ?case
  proof (cases "m = 0")
    case True
    then show ?thesis
      using less.prems(2,6) write_nothing [OF less.prems(3)]
      by (subst copy_file.simps) (simp del: fun_upd_apply)
  next
    case False
    define w where "w = min (pl - g mod pl) m"
    have pl: "0 < pl" "pl < 2 ^ 32" using less.prems(1) by (auto simp: holds_def)
    have cl: "cl k = int (pl - g mod pl)" using less.prems(2) by (simp add: at_pos_def)
    have w: "0 < w" "w \<le> m" "g + w \<le> length xs" using False pl(1) less.prems(5) by (auto simp: w_def)
    have wl: "int w \<le> cl k" unfolding cl w_def by (rule zle_int [THEN iffD2]) simp
    have n: "min (cl k) (i64 (len - int (length b))) = int w"
      using less.prems(6,7) cl by (subst i64_id) (auto simp: in_i64_def w_def min_def)
    note cp = CopyN_chunk [OF less.prems(1-4) w(1) wl w(3)]
    let ?b = "b @ take w (drop g xs)"
    let ?fs = "(cfs k)\<lparr>files := (files (cfs k))(dst \<mapsto> ?b)\<rparr>"
    let ?k = "let k1 = k\<lparr>cfs := ?fs, coffs := (coffs k)[cp k := coffs k ! cp k + w], cn := Suc (cn k)\<rparr>;
         l = i64 (cl k - int w)
     in if l = 0 then k1\<lparr>cp := Suc (cp k), cl := int pl\<rparr> else k1\<lparr>cl := l\<rparr>"
    have lb: "length ?b = length b + w" using w(3) by simp
    have "i64 (int (length b) + int w) = int (length ?b)"
      using less.prems(7) w(2) lb by (subst i64_id) (auto simp: in_i64_def)
    moreover have "int (length b) < len" using less.prems(6) False by simp
    moreover have "cp k < length pieces" using cp(1) less.prems(2) by (simp add: at_pos_def)
    ultimately have step: "copy_file (\<lambda>_. None) pieces (int pl) dst len (int (length b)) (length b) k =
      copy_file (\<lambda>_. None) pieces (int pl) dst len (int (length ?b)) (length ?b) ?k"
      using n cp(2) lb by (subst copy_file.simps) (simp add: Let_def del: fun_upd_apply)
    have fs: "cfs ?k = ?fs" by (simp add: Let_def)
    have "\<exists>k'. copy_file (\<lambda>_. None) pieces (int pl) dst len (int (length ?b)) (length ?b) ?k = Some (Ok k')
      \<and> at_pos pl (length pieces) (g + w + (m - w)) k'
      \<and> cfs k' = (cfs ?k)\<lparr>files := (files (cfs ?k))(dst \<mapsto> ?b @ take (m - w) (drop (g + w) xs))\<rparr>"
    proof (rule less.IH)
      show "m - w < m" using w False by simp
      show "holds (cfs ?k) pieces pl xs" unfolding fs by (rule holds_write [OF less.prems(1,4)])
      show "at_pos pl (length pieces) (g + w) ?k" by (rule at_pos_step [OF less.prems(2) w(1) wl cp(1) pl])
      show "files (cfs ?k) dst = Some ?b" unfolding fs by simp
    qed (use less.prems w lb in auto)
    moreover have "take w (drop g xs) @ take (m - w) (drop (g + w) xs) = take m (drop g xs)"
      using take_add [of w "m - w" "drop g xs"] w(2) by (simp add: add.commute)
    ultimately show ?thesis unfolding step fs using w(2) by (simp del: fun_upd_apply)
  qed
qed

text \<open>The loop over the files: each gets the next bytes of the torrent.\<close>

fun layout :: "nat \<Rightarrow> FileInfo list \<Rightarrow> bytes list \<Rightarrow> bytes \<Rightarrow> (bytes \<times> bytes) list" where
  "layout g (fi # fis) (h # hs) xs = (h, take (nat (fLength fi)) (drop g xs)) # layout (g + nat (fLength fi)) fis hs xs"
| "layout g _ _ xs = []"

definition file_sizes :: "FileInfo list \<Rightarrow> nat" where
  "file_sizes fis = sum_list (map (\<lambda>fi. nat (fLength fi)) fis)"

lemma file_sizes_simps [simp]: "file_sizes [] = 0" "file_sizes (fi # fis) = nat (fLength fi) + file_sizes fis"
  by (simp_all add: file_sizes_def)

lemma fst_layout: "length hs = length fis \<Longrightarrow> map fst (layout g fis hs xs) = hs"
  by (induction g fis hs xs rule: layout.induct) auto

lemma copy_files_writes:
  assumes "holds (cfs k) pieces pl xs" and "at_pos pl (length pieces) g k" and "length hs = length fis"
    and "\<forall>h \<in> set hs. files (cfs k) h = Some [] \<and> h \<notin> set pieces" and "distinct hs"
    and "\<forall>fi \<in> set fis. 0 \<le> fLength fi" and "g + file_sizes fis \<le> length xs"
  shows "\<exists>k'. copy_files (\<lambda>_. None) pieces (int pl) fis hs (int g) k = Some (Ok (int (g + file_sizes fis), k'))
    \<and> cerrs k' = [] \<and> cfs k' = (cfs k)\<lparr>files := files (cfs k) ++ map_of (layout g fis hs xs)\<rparr>"
  using assms
proof (induction g fis hs xs arbitrary: k rule: layout.induct)
  case (1 g fi fis h hs xs)
  define m where "m = nat (fLength fi)"
  have m: "fLength fi = int m" using 1(7) by (simp add: m_def)
  have xs: "length xs < 2 ^ 62" "g + m \<le> length xs" using 1(2,8) by (auto simp: holds_def m_def)
  from copy_file_writes [OF 1(2,3), of h "[]" m "int m"] 1(5) xs obtain k1 where
    k1: "copy_file (\<lambda>_. None) pieces (int pl) h (int m) 0 0 k = Some (Ok k1)" "at_pos pl (length pieces) (g + m) k1"
      "cfs k1 = (cfs k)\<lparr>files := (files (cfs k))(h \<mapsto> take m (drop g xs))\<rparr>"
    by (auto simp del: fun_upd_apply)
  have hp: "holds (cfs k1) pieces pl xs" using holds_write [OF 1(2)] 1(5) by (simp add: k1(3) del: fun_upd_apply)
  have "\<exists>k'. copy_files (\<lambda>_. None) pieces (int pl) fis hs (int (g + m)) k1 = Some (Ok (int (g + m + file_sizes fis), k'))
    \<and> cerrs k' = [] \<and> cfs k' = (cfs k1)\<lparr>files := files (cfs k1) ++ map_of (layout (g + m) fis hs xs)\<rparr>"
    unfolding m_def by (rule 1(1)) (use hp k1(2,3) 1(4-8) in \<open>auto simp: m_def\<close>)
  moreover have "i64 (int g + int m) = int (g + m)" using xs by (subst i64_id) (auto simp: in_i64_def)
  moreover have "(files (cfs k))(h \<mapsto> take m (drop g xs)) ++ map_of (layout (g + m) fis hs xs) =
    files (cfs k) ++ map_of ((h, take m (drop g xs)) # layout (g + m) fis hs xs)"
  proof -
    have "h \<notin> dom (map_of (layout (g + m) fis hs xs))"
      using fst_layout [of hs fis "g + m" xs] 1(4,6) by (simp add: dom_map_of_conv_image_fst set_map [symmetric] del: set_map)
    then show ?thesis by (auto simp: fun_eq_iff map_add_def split: option.splits)
  qed
  ultimately show ?case
    using k1(1) by (simp add: m k1(3) m_def [symmetric] add.assoc del: fun_upd_apply map_of.simps)
qed (auto simp: at_pos_def)

text \<open>Where the files go and which directories are made for them.\<close>

definition target :: "bytes \<Rightarrow> FileInfo \<Rightarrow> bytes" where
  "target parent fi = (case Split (fPath fi) of (dir, filename) \<Rightarrow> Join [parent, dir, filename])"

definition made_dirs :: "bytes \<Rightarrow> FileInfo \<Rightarrow> bytes list" where
  "made_dirs parent fi =
     (case Split (fPath fi) of (dir, filename) \<Rightarrow>
      if dir = [] then [] else Join [parent, dir] # path_prefixes [] (split_slash [] (Join [parent, dir])))"

definition placeable :: "bytes \<Rightarrow> FileInfo list \<Rightarrow> bytes list \<Rightarrow> bool" where
  "placeable parent fis ds \<longleftrightarrow> list_all (\<lambda>fi. plain_elem (snd (Split (fPath fi)))
     \<and> target parent fi \<notin> set ds \<union> set (concat (map (made_dirs parent) fis))) fis"

lemma Dir_target:
  assumes "parent \<noteq> []" and "Clean parent = parent" and "Split (fPath fi) = (dir, filename)" and "plain_elem filename"
  shows "Dir (target parent fi) = (if dir = [] then parent else Join [parent, dir])"
proof -
  have "target parent fi = Join [parent @ slash # dir, filename]"
    using assms(1,3) by (simp add: target_def)
  with Dir_Join [OF _ assms(4), of "parent @ slash # dir"] have "Dir (target parent fi) = Clean (parent @ slash # dir)"
    by (simp del: Join.simps)
  with assms(1,2) Clean_slash [OF assms(1)] show ?thesis by simp
qed

lemma make_file:
  assumes "os_up env" and "parent \<noteq> []" and "Clean parent = parent" and "parent \<in> set (dirs fs)"
    and "Split (fPath fi) = (dir, filename)" and "plain_elem filename"
    and "target parent fi \<notin> set (dirs fs) \<union> set (made_dirs parent fi)"
  shows "\<exists>fs1. (if dir \<noteq> [] then MkdirAll env (Join [parent, dir]) fs else Ok fs) = Ok fs1
    \<and> os_Create env (Join [parent, dir, filename]) fs1 = Ok (fs1\<lparr>files := (files fs)(target parent fi \<mapsto> [])\<rparr>)
    \<and> set (dirs fs) \<subseteq> set (dirs fs1) \<and> set (dirs fs1) \<subseteq> set (dirs fs) \<union> set (made_dirs parent fi)"
proof -
  let ?d = "Join [parent, dir]"
  let ?fs1 = "if dir = [] \<or> ?d \<in> set (dirs fs) then fs
    else fs\<lparr>dirs := ?d # path_prefixes [] (split_slash [] ?d) @ dirs fs\<rparr>"
  have "(if dir \<noteq> [] then MkdirAll env ?d fs else Ok fs) = Ok ?fs1"
    using assms(1) by (auto simp: MkdirAll_def os_up_def fs_up_def simp del: Join.simps)
  moreover have sub: "set (dirs fs) \<subseteq> set (dirs ?fs1)" "set (dirs ?fs1) \<subseteq> set (dirs fs) \<union> set (made_dirs parent fi)"
    using assms(5) by (auto simp: made_dirs_def simp del: Join.simps)
  moreover have "Dir (target parent fi) \<in> set (dirs ?fs1)"
    using assms(4) Dir_target [OF assms(2,3,5,6)] by (auto simp del: Join.simps)
  moreover have "target parent fi \<notin> set (dirs ?fs1)" using sub(2) assms(7) by blast
  moreover have "Join [parent, dir, filename] = target parent fi" using assms(5) by (simp add: target_def)
  moreover have "files ?fs1 = files fs" by simp
  ultimately show ?thesis
    using assms(1) by (intro exI [of _ ?fs1]) (simp add: os_Create_def os_up_def fs_up_def del: Join.simps)
qed

lemma make_files_ok:
  assumes "os_up env" and "parent \<noteq> []" and "Clean parent = parent" and "parent \<in> set (dirs fs)"
    and "placeable parent fis (dirs fs)"
  shows "\<exists>fs'. make_files env parent fis (fs, hs, []) = (fs', hs @ map (target parent) fis, [])
    \<and> files fs' = (\<lambda>p. if p \<in> target parent ` set fis then Some [] else files fs p)
    \<and> set (dirs fs) \<subseteq> set (dirs fs')"
  using assms(4,5)
proof (induction fis arbitrary: fs hs)
  case (Cons fi fis)
  obtain dir filename where sp: "Split (fPath fi) = (dir, filename)" by force
  have pl: "plain_elem filename" "target parent fi \<notin> set (dirs fs) \<union> set (made_dirs parent fi)"
    using Cons.prems(2) sp by (auto simp: placeable_def)
  from make_file [OF assms(1-3) Cons.prems(1) sp pl] obtain fs1 where
    fs1: "(if dir \<noteq> [] then MkdirAll env (Join [parent, dir]) fs else Ok fs) = Ok fs1"
      "os_Create env (Join [parent, dir, filename]) fs1 = Ok (fs1\<lparr>files := (files fs)(target parent fi \<mapsto> [])\<rparr>)"
      "set (dirs fs) \<subseteq> set (dirs fs1)" "set (dirs fs1) \<subseteq> set (dirs fs) \<union> set (made_dirs parent fi)" by blast
  let ?fs2 = "fs1\<lparr>files := (files fs)(target parent fi \<mapsto> [])\<rparr>"
  have "placeable parent fis (dirs ?fs2)"
    using Cons.prems(2) fs1(4) by (auto simp: placeable_def list_all_iff)
  with Cons.IH [of ?fs2 "hs @ [target parent fi]"] Cons.prems(1) fs1(3) obtain fs' where
    "make_files env parent fis (?fs2, hs @ [target parent fi], []) = (fs', (hs @ [target parent fi]) @ map (target parent) fis, [])"
    "files fs' = (\<lambda>p. if p \<in> target parent ` set fis then Some [] else files ?fs2 p)" "set (dirs ?fs2) \<subseteq> set (dirs fs')"
    by auto
  moreover have "Join [parent, dir, filename] = target parent fi" using sp by (simp add: target_def)
  ultimately show ?case
    using fs1 sp by (intro exI [of _ fs']) (auto simp: fun_eq_iff simp del: Join.simps)
qed simp

lemma open_pieces_ok:
  "os_up env \<Longrightarrow> \<forall>i \<in> set is. files fs (piece_file dir i) \<noteq> None \<Longrightarrow> open_pieces env dir is fs = (map (piece_file dir) is, [])"
  by (induction "is") (auto simp: os_Open_def os_up_def fs_up_def)

lemma concat_layout:
  "length hs = length fis \<Longrightarrow> concat (map snd (layout g fis hs xs)) = take (file_sizes fis) (drop g xs)"
proof (induction g fis hs xs rule: layout.induct)
  case (1 g fi fis h hs xs)
  then show ?case using take_add [of "nat (fLength fi)" "file_sizes fis" "drop g xs"] by (simp add: add.commute [of g])
qed auto

lemma layout_lengths:
  "length hs = length fis \<Longrightarrow> \<forall>fi \<in> set fis. 0 \<le> fLength fi \<Longrightarrow> g + file_sizes fis \<le> length xs \<Longrightarrow>
     map (int \<circ> length \<circ> snd) (layout g fis hs xs) = map fLength fis"
  by (induction g fis hs xs rule: layout.induct) auto

lemma placeable_mono: "placeable parent fis ds \<Longrightarrow> set ds' \<subseteq> set ds \<Longrightarrow> placeable parent fis ds'"
  by (auto simp: placeable_def list_all_iff)

lemma sum_of_sizes:
  assumes "\<forall>fi \<in> set fis. 0 \<le> fLength fi" and "n + file_sizes fis < 2 ^ 63"
  shows "foldl (\<lambda>total f. i64 (total + fLength f)) (int n) fis = int (n + file_sizes fis)"
  using assms
proof (induction fis arbitrary: n)
  case (Cons fi fis)
  then have "i64 (int n + fLength fi) = int (n + nat (fLength fi))" by (subst i64_id) (auto simp: in_i64_def)
  with Cons.IH [of "n + nat (fLength fi)"] Cons.prems show ?case by (simp add: add.assoc)
qed simp

lemma make_parent_ok:
  assumes "os_up env" and "d \<in> set (dirs fs)" and "d \<noteq> []" and "Clean d = d" and "plain_elem name"
    and "files fs (Join [d, name]) = None"
  shows "\<exists>fs'. make_parent env (Join [d, name]) fs = Ok fs' \<and> files fs' = files fs
    \<and> Join [d, name] \<in> set (dirs fs') \<and> set (dirs fs') \<subseteq> insert (Join [d, name]) (set (dirs fs))"
  using assms Dir_Join [OF assms(3,5)]
  by (auto simp: make_parent_def Mkdir_def os_up_def fs_up_def simp del: Join.simps)

lemma complete_holds:
  assumes "complete t" and "files fs = (\<lambda>p. if p \<in> T then Some [] else files (disk t) p)"
    and "\<forall>i. piece_file (DownloadDir t) i \<notin> T"
  shows "holds fs (map (\<lambda>i. piece_file (DownloadDir t) (of_nat i)) [0..<num_pieces (Torrent t)])
    (piece_length (Torrent t)) (content t)"
proof -
  have "total_size (Torrent t) < 2 ^ 62" using assms(1) total_size_bound by (simp add: complete_def)
  with assms content_chunk [OF assms(1)] complete_piece(1) [OF assms(1)] content_length [OF assms(1)] show ?thesis
    by (auto simp: holds_def complete_def torrent_ok_def)
qed

lemma complete_multi_total:
  assumes "complete t" and "SingleFile (mInfo (Torrent t)) = None" and "MultiFile (mInfo (Torrent t)) = Some mf"
    and "\<forall>fi \<in> set (mFiles mf). 0 \<le> fLength fi" and "file_sizes (mFiles mf) < 2 ^ 63"
  shows "file_sizes (mFiles mf) = length (content t)"
  using complete_total [OF assms(1)] sum_of_sizes [OF assms(4), of 0] assms(2,3,5) by (simp add: BytesToDownload_def)

lemma targets_not_pieces:
  assumes "d \<noteq> []" and "Clean d = d" and "\<forall>fi \<in> set fis. Dir (target parent fi) \<noteq> d"
  shows "\<forall>i. piece_file d i \<notin> set (map (target parent) fis)"
proof (intro allI notI)
  fix i assume "piece_file d i \<in> set (map (target parent) fis)"
  then obtain fi where "fi \<in> set fis" "target parent fi = piece_file d i" by auto
  with assms(2,3) Dir_Join [OF assms(1) piece_name_plain, of "unat i"] show False
    by (auto simp: piece_file_def simp del: Join.simps)
qed

lemma layout_overrides:
  assumes "length hs = length fis"
  shows "((\<lambda>p. if p \<in> set hs then Some [] else f p) ++ map_of (layout g fis hs xs)) = f ++ map_of (layout g fis hs xs)"
proof
  fix p
  have "dom (map_of (layout g fis hs xs)) = set hs"
    using fst_layout [OF assms, of g xs] by (simp add: dom_map_of_conv_image_fst flip: set_map)
  then have "p \<in> set hs \<longleftrightarrow> map_of (layout g fis hs xs) p \<noteq> None" using domIff [of p] by auto
  then show "((\<lambda>p. if p \<in> set hs then Some [] else f p) ++ map_of (layout g fis hs xs)) p = (f ++ map_of (layout g fis hs xs)) p"
    by (cases "p \<in> set hs") (auto simp: map_add_def)
qed

lemma merge_multi_complete:
  assumes t: "complete t" and env: "os_up env" and s: "SingleFile (mInfo (Torrent t)) = None"
    and m: "MultiFile (mInfo (Torrent t)) = Some mf" and name: "plain_elem (mName mf)"
    and sizes: "\<forall>fi \<in> set (mFiles mf). 0 \<le> fLength fi" "file_sizes (mFiles mf) < 2 ^ 63"
    and parent: "parent = Join [DownloadDir t, mName mf]" "files (disk t) parent = None"
    and place: "placeable parent (mFiles mf) (parent # dirs (disk t))" "distinct (map (target parent) (mFiles mf))"
      "\<forall>fi \<in> set (mFiles mf). Dir (target parent fi) \<noteq> DownloadDir t"
  shows "\<exists>fs'. merge_multi env (\<lambda>_. None) mf t = Some (Ok (t\<lparr>disk := fs'\<rparr>, None))
    \<and> (\<forall>p. files fs' p = (files (disk t) ++ map_of (layout 0 (mFiles mf) (map (target parent) (mFiles mf)) (content t))) p)"
proof -
  let ?n = "num_pieces (Torrent t)" and ?D = "DownloadDir t" and ?pl = "piece_length (Torrent t)"
  let ?hs = "map (target parent) (mFiles mf)" and ?xs = "content t"
  let ?pieces = "map (\<lambda>i. piece_file ?D (of_nat i)) [0..<?n]" and ?is = "map of_nat [0..<?n] :: u32 list"
  have D: "?D \<noteq> []" "?D \<in> set (dirs (disk t))" "Clean ?D = ?D" using complete_dir [OF t] t by (auto simp: complete_def)
  have par: "parent \<noteq> []" "Clean parent = parent"
    using path_of_hd [OF clean_form_snoc [OF elems_of_form [of ?D] name]] Join_snoc [OF D(1) name] parent(1)
    by (metis, metis Join_clean)
  from make_parent_ok [OF env D(2,1,3) name] parent obtain fs where
    fs: "make_parent env parent (disk t) = Ok fs" "files fs = files (disk t)" "parent \<in> set (dirs fs)"
      "set (dirs fs) \<subseteq> set (parent # dirs (disk t))" by (auto simp del: Join.simps)
  from make_files_ok [OF env par fs(3) placeable_mono [OF place(1) fs(4)], of "[]"] obtain fs1 where
    fs1: "make_files env parent (mFiles mf) (fs, [], []) = (fs1, ?hs, [])"
      "files fs1 = (\<lambda>p. if p \<in> set ?hs then Some [] else files (disk t) p)" unfolding fs(2) by auto
  have np: "\<forall>i. piece_file ?D i \<notin> set ?hs" by (rule targets_not_pieces [OF D(1,3) place(3)])
  have hold: "holds fs1 ?pieces ?pl ?xs" by (rule complete_holds [OF t fs1(2) np])
  have "files fs1 (piece_file ?D i) \<noteq> None" if "i \<in> set ?is" for i
    using that complete_piece(1) [OF t] np unfolding fs1(2) by (auto simp del: not_None_eq)
  with open_pieces_ok [OF env, of ?is fs1 ?D] have op: "open_pieces env ?D ?is fs1 = (?pieces, [])"
    by (simp add: comp_def)
  let ?k = "\<lparr>cfs = fs1, coffs = replicate (length ?pieces) 0, cp = 0, cl = int ?pl, cn = 0, cerrs = []\<rparr>"
  have pl: "PieceLength (mInfo (Torrent t)) = int ?pl" "0 < ?pl" using t by (auto simp: complete_def torrent_ok_def)
  have tot: "file_sizes (mFiles mf) = length ?xs" by (rule complete_multi_total [OF t s m sizes])
  have pos: "at_pos ?pl (length ?pieces) 0 ?k" using pl(2) by (simp add: at_pos_def)
  have fresh: "\<forall>h \<in> set ?hs. files (cfs ?k) h = Some [] \<and> h \<notin> set ?pieces"
  proof
    fix h assume h: "h \<in> set ?hs"
    then have "h \<noteq> piece_file ?D i" for i using np by blast
    then have "h \<notin> set ?pieces" by auto
    with h show "files (cfs ?k) h = Some [] \<and> h \<notin> set ?pieces" by (simp add: fs1(2))
  qed
  have hold': "holds (cfs ?k) ?pieces ?pl ?xs" using hold by simp
  have room: "0 + file_sizes (mFiles mf) \<le> length ?xs" using tot by simp
  from copy_files_writes [OF hold' pos _ fresh place(2) sizes(1) room] obtain k' where
    k': "copy_files (\<lambda>_. None) ?pieces (int ?pl) (mFiles mf) ?hs 0 ?k = Some (Ok (int (length ?xs), k'))"
      "cerrs k' = []" "cfs k' = fs1\<lparr>files := files fs1 ++ map_of (layout 0 (mFiles mf) ?hs ?xs)\<rparr>"
    unfolding tot by auto
  have "files (cfs k') p = (files (disk t) ++ map_of (layout 0 (mFiles mf) ?hs ?xs)) p" for p
    using layout_overrides [of ?hs "mFiles mf" "files (disk t)" 0 ?xs] by (simp add: k'(3) fs1(2))
  moreover have "merge_multi env (\<lambda>_. None) mf t = Some (Ok (t\<lparr>disk := cfs k'\<rparr>, None))"
    using fs(1) fs1(1) op k'(1,2) complete_listing [OF t] complete_total [OF t] pl(1) parent(1)
    by (simp add: merge_multi_def Let_def del: Join.simps)
  ultimately show ?thesis by blast
qed

section \<open>From a finished download\<close>

lemma reach_complete:
  assumes "torrent_ok m" and "starts m ts0" and "rtranclp dstep ts0 (t, s)" and "completed t = ClosedChan"
    and "Hash (mInfo m) \<noteq> []"
  shows "complete t \<and> Torrent t = m"
proof -
  obtain t0 s0 where ts0: "ts0 = (t0, s0)" by force
  have inv: "dl_inv (t, s)" "Torrent t = m" "dl_inv ts0"
    using reach_inv_for [OF assms(1-3)] by (auto simp: dl_inv_for_def)
  then have "unverified s = []" "active t = {}" using assms(4) by (auto simp: dl_inv_def)
  with inv have all: "have_set (BitField t) = {..<num_pieces m}"
    by (auto simp: dl_inv_def partitioned_def disjoint_cover_def active_pieces_def)
  from assms(2) obtain env cid d fs where "NewTracker env cid m d fs = Ok t0" by (auto simp: starts_def ts0)
  then have "DownloadDir t0 = saved_dir d m"
    by (auto simp: NewTracker_def outcome_simps Let_def split: option.splits)
  moreover have "DownloadDir t = DownloadDir t0"
    using dl.reach_frame [OF assms(3) inv(3), of "\<lambda>ts. DownloadDir (fst ts)"] dstep_dir by (simp add: ts0)
  moreover have "EncodeToString (Hash (mInfo m)) \<noteq> []" using assms(5) by (cases "Hash (mInfo m)") auto
  then have "saved_dir d m \<noteq> []" by (auto simp: saved_dir_def Clean_def str_def Let_def)
  ultimately have "Clean (DownloadDir t) = DownloadDir t" using Join_clean by (simp add: saved_dir_def del: Join.simps)
  with inv all show ?thesis by (auto simp: complete_def dl_inv_def tracker_wf_def)
qed

lemma content_hashes:
  "complete t \<Longrightarrow> i < num_pieces (Torrent t) \<Longrightarrow>
     sha1 (take (piece_length (Torrent t)) (drop (i * piece_length (Torrent t)) (content t))) = hash_of (Torrent t) i"
  using complete_piece(3) content_chunk by metis

lemma wait_for_single:
  assumes "complete t" and "os_up env" and "SingleFile (mInfo (Torrent t)) = Some sf" and "plain_elem (sName sf)"
    and "\<forall>i. sName sf \<noteq> show_nat i @ str ''.bin''" and "Join [DownloadDir t, sName sf] \<notin> set (dirs (disk t))"
    and "dict_get ts tid = Some t"
  shows "WaitFor env (\<lambda>_. None) tid TorrentDownloaded ts = Some (Ok (dict_set tid (t\<lparr>disk := (disk t)\<lparr>files :=
    (files (disk t))(Join [DownloadDir t, sName sf] \<mapsto> content t)\<rparr>\<rparr>) ts, None))"
  using merge_single_complete [OF assms(1,2,4-6)] assms(3,7) by (simp add: WaitFor_def del: Join.simps)

lemma own_name_loop:
  assumes "complete t" and "os_up env"
    and "final = piece_file (DownloadDir t) 0" and "fs = (disk t)\<lparr>files := (files (disk t))(final \<mapsto> [])\<rparr>"
  shows "merge_loop env (\<lambda>_. None) (DownloadDir t) final (map of_nat [0..<num_pieces (Torrent t)]) 0 (fs, 0, 0, []) =
    Some (fs\<lparr>files := (files fs)(final \<mapsto> drop (piece_size (Torrent t) 0) (content t))\<rparr>,
      length (content t) - piece_size (Torrent t) 0, int (length (content t) - piece_size (Torrent t) 0), [])"
proof -
  let ?n = "num_pieces (Torrent t)" and ?is = "map of_nat [1..<num_pieces (Torrent t)] :: u32 list"
  let ?D = "\<lambda>i :: u32. piece_data t (unat i)"
  have n: "?n < 2 ^ 32" "0 < ?n" using assms(1) by (auto simp: complete_def torrent_ok_def)
  have u: "unat (of_nat j :: u32) = j" if "j < ?n" for j using n(1) that by (simp add: unat_of_nat_u32)
  have "map ?D ?is = map (piece_data t) [1..<?n]" using u by simp
  moreover have "content t = piece_data t 0 @ concat (map (piece_data t) [1..<?n])"
    using n(2) by (simp add: content_def upt_conv_Cons)
  ultimately have rest: "concat (map ?D ?is) = drop (piece_size (Torrent t) 0) (content t)"
    using complete_piece(2) [OF assms(1) n(2)] by (simp del: map_map)
  have "open_err (env (piece_file (DownloadDir t) i)) = None \<and> piece_file (DownloadDir t) i \<noteq> final
      \<and> files fs (piece_file (DownloadDir t) i) = Some (?D i)" if "i \<in> set ?is" for i
  proof -
    from that obtain j where j: "j < ?n" "0 < j" "i = of_nat j" by auto
    with u have "unat i = j" by simp
    with complete_piece(1) [OF assms(1) j(1)] j assms(2-4) show ?thesis by (auto simp: os_up_def fs_up_def)
  qed
  then have pcs: "\<forall>i \<in> set ?is. open_err (env (piece_file (DownloadDir t) i)) = None \<and> piece_file (DownloadDir t) i \<noteq> final
      \<and> files fs (piece_file (DownloadDir t) i) = Some (?D i)" by blast
  have new: "files fs final = Some []" by (simp add: assms(4))
  have small: "0 + int (length (concat (map ?D ?is))) < 2 ^ 63"
    unfolding rest using total_size_bound [of "Torrent t"] content_length [OF assms(1)] assms(1) by (simp add: complete_def)
  have "merge_loop env (\<lambda>_. None) (DownloadDir t) final (of_nat 0 # ?is) 0 (fs, 0, 0, []) =
    merge_loop env (\<lambda>_. None) (DownloadDir t) final ?is (Suc 0) (fs, 0, 0, [])"
    using new assms(2,3) by (simp add: os_Open_def io_copy_def Let_def os_up_def fs_up_def i64_def)
  moreover have "map of_nat [0..<?n] = of_nat 0 # ?is" using n(2) by (simp add: upt_conv_Cons)
  ultimately show ?thesis
    using merge_loop_appends [OF pcs new order_refl small, of "Suc 0" "[]"] unfolding rest
    by (simp only: list.size append_Nil add_0 of_nat_0 length_drop)
qed

text \<open>A complete torrent of two files.\<close>

definition pair_info :: InfoMultiFile where
  "pair_info = \<lparr>mName = str ''x'', mFiles = [\<lparr>fLength = 2, fPath = str ''a'', fMd5Sum = None\<rparr>,
     \<lparr>fLength = 3, fPath = str ''b/c'', fMd5Sum = None\<rparr>]\<rparr>"

definition pair :: MetaInfoFile where
  "pair = demo\<lparr>mInfo := (mInfo demo)\<lparr>SingleFile := None, MultiFile := Some pair_info\<rparr>\<rparr>"

definition full_in :: "MetaInfoFile \<Rightarrow> StatusTracker" where
  "full_in m = fresh_tracker (str ''me'') m \<lparr>bits = [128], numPieces = 1\<rparr> (str ''dl'')
     \<lparr>dirs = [str ''dl''], files = [piece_file (str ''dl'') 0 \<mapsto> demo_content]\<rparr>"

definition up_os :: OsEnv where
  "up_os = (\<lambda>_. up_fs)"

lemma os_up_up_os [simp]: "os_up up_os"
  by (simp add: os_up_def up_os_def)

lemma full_in_complete:
  assumes "torrent_ok m" and "num_pieces m = 1" and "piece_size m 0 = 5" and "hash_of m 0 = sha1 demo_content"
  shows "complete (full_in m)"
proof -
  have "on_disk (full_in m) 0" using assms(3,4) by (simp add: on_disk_def full_in_def demo_content_def)
  moreover have "Clean (str ''dl'') = str ''dl''" by code_simp
  ultimately show ?thesis
    using assms(1,2) by (auto simp: complete_def full_in_def bf_wf_def bf_count_def demo_full_have)
qed

lemma pair_complete [simp]: "complete (full_in pair)"
proof (rule full_in_complete)
  have s: "NumPieces pair = Ok 1" "BytesToDownload pair = Ok 5"
    by (simp_all add: pair_def pair_info_def NumPieces_def BytesToDownload_def i64_def demo_def must_def
        DecodeString_EncodeToString sha1.length_sum)
  then show n: "num_pieces pair = 1" by (simp add: num_pieces_def)
  have t: "total_size pair = 5" "PieceLength (mInfo pair) = 16"
    using s by (simp_all add: total_size_def pair_def demo_def sample_metainfo_def)
  then show "piece_size pair 0 = 5" by (simp add: piece_size_def)
  show "torrent_ok pair" using s n t by (simp add: torrent_ok_def)
  show "hash_of pair 0 = sha1 demo_content" using demo_hash by (simp add: hash_of_def pair_def)
qed

section \<open>Properties\<close>

text \<open>
  C8. A complete multi-file torrent is cut into its files: for pieces that are all verified and a file
  list whose paths do not collide, \<^verbatim>\<open>WaitFor\<close> ends without an error; each file then holds its
  slice of the torrent, in order, all files together are exactly the bytes of the verified pieces, and
  no other file is touched. In particular the copy loop ends and never reads past the last piece,
  wherever the boundaries of files and pieces fall.
\<close>

theorem wait_for_assembles_files:
  assumes "complete t" and "os_up env" and "dict_get ts tid = Some t"
    and "SingleFile (mInfo (Torrent t)) = None" and "MultiFile (mInfo (Torrent t)) = Some mf"
    and "plain_elem (mName mf)" and "\<forall>fi \<in> set (mFiles mf). 0 \<le> fLength fi" and "file_sizes (mFiles mf) < 2 ^ 63"
    and "parent = Join [DownloadDir t, mName mf]" and "files (disk t) parent = None"
    and "placeable parent (mFiles mf) (parent # dirs (disk t))" and "distinct (map (target parent) (mFiles mf))"
    and "\<forall>fi \<in> set (mFiles mf). Dir (target parent fi) \<noteq> DownloadDir t"
  shows "\<exists>fs' fls. WaitFor env (\<lambda>_. None) tid TorrentDownloaded ts = Some (Ok (dict_set tid (t\<lparr>disk := fs'\<rparr>) ts, None))
    \<and> map fst fls = map (target parent) (mFiles mf) \<and> map (int \<circ> length \<circ> snd) fls = map fLength (mFiles mf)
    \<and> files fs' = files (disk t) ++ map_of fls \<and> concat (map snd fls) = content t
    \<and> length (content t) = total_size (Torrent t)
    \<and> (\<forall>i < num_pieces (Torrent t). sha1 (take (piece_length (Torrent t)) (drop (i * piece_length (Torrent t)) (content t)))
         = hash_of (Torrent t) i)"
proof -
  let ?fls = "layout 0 (mFiles mf) (map (target parent) (mFiles mf)) (content t)"
  have tot: "file_sizes (mFiles mf) = length (content t)" by (rule complete_multi_total [OF assms(1,4,5,7,8)])
  from merge_multi_complete [OF assms(1,2,4-13)] obtain fs' where
    fs': "merge_multi env (\<lambda>_. None) mf t = Some (Ok (t\<lparr>disk := fs'\<rparr>, None))" "\<forall>p. files fs' p = (files (disk t) ++ map_of ?fls) p"
    by blast
  from fs'(1) assms(3-5) have "WaitFor env (\<lambda>_. None) tid TorrentDownloaded ts = Some (Ok (dict_set tid (t\<lparr>disk := fs'\<rparr>) ts, None))"
    by (simp add: WaitFor_def)
  moreover have "files fs' = files (disk t) ++ map_of ?fls" using fs'(2) by (simp add: fun_eq_iff)
  moreover have "concat (map snd ?fls) = content t" using concat_layout [of "map (target parent) (mFiles mf)" "mFiles mf" 0 "content t"] tot by simp
  moreover have "map (int \<circ> length \<circ> snd) ?fls = map fLength (mFiles mf)"
    using layout_lengths [of "map (target parent) (mFiles mf)" "mFiles mf" 0 "content t"] assms(7) tot by simp
  moreover have "map fst ?fls = map (target parent) (mFiles mf)" by (simp add: fst_layout)
  ultimately show ?thesis using content_length [OF assms(1)] content_hashes [OF assms(1)] by blast
qed

theorem wait_for_assembles_files_witness:
  "\<exists>fs' fls. WaitFor up_os (\<lambda>_. None) [] TorrentDownloaded [([], full_in pair)] = Some (Ok ([([], (full_in pair)\<lparr>disk := fs'\<rparr>)], None))
    \<and> map fst fls = [str ''dl/x/a'', str ''dl/x/b/c''] \<and> concat (map snd fls) = content (full_in pair)"
proof -
  have f: "SingleFile (mInfo (Torrent (full_in pair))) = None" "MultiFile (mInfo (Torrent (full_in pair))) = Some pair_info"
    "DownloadDir (full_in pair) = str ''dl''" "dirs (disk (full_in pair)) = [str ''dl'']"
    by (simp_all add: full_in_def pair_def)
  have p: "Join [str ''dl'', mName pair_info] = str ''dl/x''" "plain_elem (mName pair_info)"
    "\<forall>fi \<in> set (mFiles pair_info). 0 \<le> fLength fi" "file_sizes (mFiles pair_info) = 5"
    "map (target (str ''dl/x'')) (mFiles pair_info) = [str ''dl/x/a'', str ''dl/x/b/c'']"
    "placeable (str ''dl/x'') (mFiles pair_info) [str ''dl/x'', str ''dl'']"
    "\<forall>fi \<in> set (mFiles pair_info). Dir (target (str ''dl/x'') fi) \<noteq> str ''dl''"
    by code_simp+
  have "piece_file (str ''dl'') 0 = str ''dl/0.bin''" by code_simp
  then have n: "files (disk (full_in pair)) (str ''dl/x'') = None" by (simp add: full_in_def str_def)
  have d: "distinct (map (target (str ''dl/x'')) (mFiles pair_info))" unfolding p(5) by code_simp
  have g: "dict_get [([], full_in pair)] [] = Some (full_in pair)" "file_sizes (mFiles pair_info) < 2 ^ 63" using p(4) by simp_all
  have par: "str ''dl/x'' = Join [DownloadDir (full_in pair), mName pair_info]" unfolding f(3) p(1) ..
  have pl: "placeable (str ''dl/x'') (mFiles pair_info) (str ''dl/x'' # dirs (disk (full_in pair)))" unfolding f(4) by (rule p(6))
  have nd: "\<forall>fi \<in> set (mFiles pair_info). Dir (target (str ''dl/x'') fi) \<noteq> DownloadDir (full_in pair)" unfolding f(3) by (rule p(7))
  from wait_for_assembles_files [OF pair_complete os_up_up_os g(1) f(1,2) p(2,3) g(2) par n pl d nd] obtain fs' fls where
    "WaitFor up_os (\<lambda>_. None) [] TorrentDownloaded [([], full_in pair)] =
      Some (Ok (dict_set [] ((full_in pair)\<lparr>disk := fs'\<rparr>) [([], full_in pair)], None))"
    "map fst fls = [str ''dl/x/a'', str ''dl/x/b/c'']" "concat (map snd fls) = content (full_in pair)"
    unfolding p(5) by (elim exE conjE) (rule that)
  then show ?thesis by (intro exI [of _ fs'] exI [of _ fls] conjI) simp_all
qed

text \<open>
  C37. A single-file torrent called \<^verbatim>\<open>0.bin\<close> destroys its own first piece: \<^verbatim>\<open>os.Create\<close> truncates the file
  that holds it, \<^verbatim>\<open>WaitFor\<close> reports that the torrent could not be reconstructed, and the file is left
  with the other pieces only, while the bit field still says that the client has them all.
\<close>

theorem own_name_destroys_piece:
  assumes "complete t" and "os_up env" and "sName sf = str ''0.bin''" and "piece_file (DownloadDir t) 0 \<notin> set (dirs (disk t))"
  shows "\<exists>t' errs. merge_single env (\<lambda>_. None) sf t = Some (Ok (t', Some (Reconstruct ''failed to reconstruct downloaded torrent: '' errs)))
    \<and> BitField t' = BitField t
    \<and> files (disk t') (piece_file (DownloadDir t) 0) = Some (drop (piece_size (Torrent t) 0) (content t))"
proof -
  let ?final = "piece_file (DownloadDir t) 0"
  have nm: "str ''0.bin'' = show_nat (unat (0 :: u32)) @ str ''.bin''" by (simp add: show_nat.simps digit_def str_def)
  have fin: "Join [DownloadDir t, sName sf] = ?final" unfolding assms(3) piece_file_def nm ..
  have "0 < piece_size (Torrent t) 0" "piece_size (Torrent t) 0 \<le> length (content t)"
    using piece_size_bounds(1) [of "Torrent t" 0] assms(1) content_length [OF assms(1)]
    by (auto simp: complete_def torrent_ok_def piece_size_def)
  then have ne: "int (length (content t) - piece_size (Torrent t) 0) \<noteq> int (length (content t))" by linarith
  have cr: "os_Create env ?final (disk t) = Ok ((disk t)\<lparr>files := (files (disk t))(?final \<mapsto> [])\<rparr>)"
    using complete_create [OF assms(1,2), of "sName sf"] assms(3,4) fin nm piece_name_plain by (simp del: Join.simps)
  show ?thesis
    using own_name_loop [OF assms(1,2) refl refl] cr complete_listing [OF assms(1)] complete_total [OF assms(1)] ne fin assms(2)
    by (simp add: merge_single_def Let_def os_up_def fs_up_def del: Join.simps of_nat_diff)
qed

theorem own_name_destroys_piece_witness:
  "\<exists>t' errs. merge_single up_os (\<lambda>_. None) \<lparr>sName = str ''0.bin'', sLength = 5, sMd5sum = None\<rparr> (full_in demo) =
      Some (Ok (t', Some (Reconstruct ''failed to reconstruct downloaded torrent: '' errs)))
    \<and> files (disk t') (piece_file (str ''dl'') 0) = Some []"
proof -
  have c: "complete (full_in demo)" by (rule full_in_complete) (simp_all add: demo_sizes demo_hash)
  have "drop (piece_size demo 0) (content (full_in demo)) = []"
    using content_length [OF c] by (simp add: full_in_def demo_sizes)
  moreover have "piece_file (str ''dl'') 0 \<noteq> str ''dl''" by code_simp
  ultimately show ?thesis
    using own_name_destroys_piece [OF c os_up_up_os, of "\<lparr>sName = str ''0.bin'', sLength = 5, sMd5sum = None\<rparr>"]
    by (auto simp: full_in_def)
qed

end
