(* ===== verification/Sha512.thy ===== *)
theory Sha512
  imports Sha1
begin

text \<open>
  \<^verbatim>\<open>crypto/sha512\<close>, after FIPS 180-4: part of the id of the client is a digest of its name and
  version. The interface \<open>digest\<close> is interpreted on it.
\<close>

unbundle bit_operations_syntax

definition Uint64 :: "bytes \<Rightarrow> 64 word" where
  "Uint64 bs = push_bit 32 (ucast (Uint32 (take 4 bs))) OR ucast (Uint32 (drop 4 bs))"

definition sha512_pad :: "bytes \<Rightarrow> bytes" where
  "sha512_pad m =
     m @ [0x80] @ replicate (nat ((111 - int (length m)) mod 128)) 0 @ replicate 8 0
       @ PutUint64 (of_nat (8 * length m))"

function sha512_words :: "bytes \<Rightarrow> 64 word list" where
  "sha512_words bs = (if length bs < 8 then [] else Uint64 (take 8 bs) # sha512_words (drop 8 bs))"
  by pat_completeness auto
termination
  by (relation "measure length") auto

declare sha512_words.simps [simp del]

fun sha512_schedule :: "nat \<Rightarrow> 64 word list \<Rightarrow> 64 word list" where
  "sha512_schedule 0 w = w"
| "sha512_schedule (Suc n) w =
     (let t = length w; x = w ! (t - 15); y = w ! (t - 2) in
      sha512_schedule n
        (w @ [w ! (t - 16) + (word_rotr 1 x XOR word_rotr 8 x XOR drop_bit 7 x) + w ! (t - 7)
               + (word_rotr 19 y XOR word_rotr 61 y XOR drop_bit 6 y)]))"

text \<open>
  The constants: the first 64 bits of the fractional parts of the cube roots of the first eighty
  primes, and of the square roots of the first eight. \<open>root_below e n\<close> is the integer part of the
  \<open>e\<close>-th root of \<open>n\<close>, found bit by bit from below \<open>2 ^ 68\<close>.
\<close>

fun root_bits :: "nat \<Rightarrow> nat \<Rightarrow> nat \<Rightarrow> nat \<Rightarrow> nat" where
  "root_bits e n 0 acc = acc"
| "root_bits e n (Suc b) acc = root_bits e n b (if (acc + 2 ^ b) ^ e \<le> n then acc + 2 ^ b else acc)"

definition root_below :: "nat \<Rightarrow> nat \<Rightarrow> nat" where
  "root_below e n = root_bits e n 68 0"

definition first_primes :: "nat list" where
  "first_primes = filter (\<lambda>p. list_all (\<lambda>d. p mod d \<noteq> 0) [2..<p]) [2..<410]"

definition root_constant :: "nat \<Rightarrow> nat \<Rightarrow> 64 word" where
  "root_constant e p = of_nat (root_below e (p * 2 ^ (64 * e)))"

definition sha512_k :: "64 word list" where
  "sha512_k = map (root_constant 3) first_primes"

type_synonym sha512_state = "64 word \<times> 64 word \<times> 64 word \<times> 64 word \<times> 64 word \<times> 64 word \<times> 64 word \<times> 64 word"

definition sha512_round :: "64 word \<Rightarrow> sha512_state \<Rightarrow> sha512_state" where
  "sha512_round kw = (\<lambda>(a, b, c, d, e, f, g, h).
     let t1 = h + (word_rotr 14 e XOR word_rotr 18 e XOR word_rotr 41 e) + ((e AND f) XOR (NOT e AND g)) + kw;
         t2 = (word_rotr 28 a XOR word_rotr 34 a XOR word_rotr 39 a) + ((a AND b) XOR (a AND c) XOR (b AND c))
     in (t1 + t2, a, b, c, d + t1, e, f, g))"

definition sha512_block :: "sha512_state \<Rightarrow> 64 word list \<Rightarrow> sha512_state" where
  "sha512_block = (\<lambda>(a, b, c, d, e, f, g, h) w.
     (case fold sha512_round (map2 (+) sha512_k (sha512_schedule 64 w)) (a, b, c, d, e, f, g, h) of
        (a', b', c', d', e', f', g', h') \<Rightarrow>
          (a + a', b + b', c + c', d + d', e + e', f + f', g + g', h + h')))"

function sha512_blocks :: "sha512_state \<Rightarrow> 64 word list \<Rightarrow> sha512_state" where
  "sha512_blocks s ws =
     (if ws = [] then s else sha512_blocks (sha512_block s (take 16 ws)) (drop 16 ws))"
  by pat_completeness auto
termination
  by (relation "measure (\<lambda>(s, ws). length ws)") auto

declare sha512_blocks.simps [simp del]

definition sha512_init :: sha512_state where
  "sha512_init =
     (root_constant 2 2, root_constant 2 3, root_constant 2 5, root_constant 2 7, root_constant 2 11, root_constant 2 13,
      root_constant 2 17, root_constant 2 19)"

definition Sum512 :: "bytes \<Rightarrow> bytes" where
  "Sum512 m =
     (case sha512_blocks sha512_init (sha512_words (sha512_pad m)) of
        (a, b, c, d, e, f, g, h) \<Rightarrow>
          PutUint64 a @ PutUint64 b @ PutUint64 c @ PutUint64 d @ PutUint64 e @ PutUint64 f @ PutUint64 g @ PutUint64 h)"

interpretation sha512: digest Sum512 64
  by unfold_locales (simp add: Sum512_def PutUint64_def split: prod.split)

end
