(* ===== verification/Client.thy ===== *)
theory Client
  imports Upload Reassembly Tracker Sha512
begin

text \<open>
  The client, \<^verbatim>\<open>cmd/cli\<close>: build information, options, the set of torrents, announcing, incoming
  connections and \<^verbatim>\<open>main.go\<close>.

  \<^item> \<open>Client\<close> is the struct; the trackers are a map from info hashes, and \<open>handler\<close> holds the hashes that
    were sent to \<^verbatim>\<open>watch\<close> and not yet received.
  \<^item> A goroutine that selects is a function of the event it received; \<open>announce_step\<close> is one event
    of the loop of \<^verbatim>\<open>downloadTorrent\<close>, with what its loads of the counters read (\<open>Loads\<close>), and \<open>run_loop\<close> the loop of \<^verbatim>\<open>run\<close>.
  \<^item> The answers of the network, of the tracker and of the file system are parameters, as are the
    order in which the torrents are ranged over, the values set at link time and the runtime.

  Shown: the id of the client has 20 bytes and every announce it sends is accepted by
  \<^verbatim>\<open>Validate\<close> with counts between 0 and the size of the torrent; an incoming peer is given to the torrent it asks for;
  a failed regular announce crashes the client; a tick that finds the download finished can keep \<^verbatim>\<open>completed\<close> open; the
  program does not end after a download.
\<close>

section \<open>build/info.go\<close>

record Ldflags =
  lDate :: bytes
  lHash :: bytes
  lVersion :: bytes

definition default_flags :: Ldflags where
  "default_flags = \<lparr>lDate = str ''1970-01-01'', lHash = str ''unknown'', lVersion = str ''DEBG''\<rparr>"

record Runtime =
  rtVersion :: bytes
  rtCompiler :: bytes
  rtGOOS :: bytes
  rtGOARCH :: bytes

record BuildInfo =
  ClientID :: bytes
  ClientVersion :: bytes
  BuildDate :: "nat \<times> nat \<times> nat"
  BuildHash :: bytes
  GoVersion :: bytes
  Compiler :: bytes
  Platform :: bytes
  Architecture :: bytes

definition number_of :: "bytes \<Rightarrow> nat" where
  "number_of ds = foldl (\<lambda>n d. 10 * n + digit_val d) 0 ds"

definition daysIn :: "nat \<Rightarrow> nat \<Rightarrow> nat" where
  "daysIn month year =
     (if month = 2 then (if 4 dvd year \<and> (\<not> 100 dvd year \<or> 400 dvd year) then 29 else 28)
      else if month \<in> {4, 6, 9, 11} then 30 else 31)"

text \<open>\<^verbatim>\<open>time.Parse\<close> with the layout \<^verbatim>\<open>time.DateOnly\<close>.\<close>

definition parse_date :: "bytes \<Rightarrow> (nat \<times> nat \<times> nat) outcome" where
  "parse_date s =
     (let y = take 4 s; mo = take 2 (drop 5 s); d = drop 8 s in
      if length s = 10 \<and> list_all is_digit (y @ mo @ d) \<and> s ! 4 = 45 \<and> s ! 7 = 45
         \<and> 1 \<le> number_of mo \<and> number_of mo \<le> 12
         \<and> 1 \<le> number_of d \<and> number_of d \<le> daysIn (number_of mo) (number_of y)
      then Ok (number_of y, number_of mo, number_of d)
      else Err (ErrorMsg ''parsing time''))"

definition Information :: "Ldflags \<Rightarrow> Runtime \<Rightarrow> BuildInfo outcome" where
  "Information flags rt =
     (case parse_date (lDate flags) of
        Ok d \<Rightarrow> Ok \<lparr>ClientID = str ''MM'', ClientVersion = lVersion flags, BuildDate = d, BuildHash = lHash flags,
          GoVersion = rtVersion rt, Compiler = rtCompiler rt, Platform = rtGOOS rt, Architecture = rtGOARCH rt\<rparr>
      | _ \<Rightarrow> Panic ''failed to parse build.Date'')"

section \<open>client.go and option.go: the client\<close>

datatype Listener = NoListener | Listening | ListenerClosed

record Client =
  c_id :: bytes
  c_port :: int64
  handler :: "bytes list"
  c_done :: chan_state
  torrents :: "StatusTracker dict"
  action :: bytes
  seedServer :: Listener

definition Leech :: bytes where "Leech = str ''leech''"
definition Both :: bytes where "Both = str ''both''"

definition init_dir :: "OsEnv \<Rightarrow> bytes \<Rightarrow> FS \<Rightarrow> (bytes \<times> FS) outcome" where
  "init_dir env torrentDir fs =
     (if torrentDir \<noteq> [] then Ok (torrentDir, fs)
      else
        let d = str ''./tinytorrendDownloads'' in
        if d \<notin> set (dirs fs) \<and> files fs d = None
        then (case Mkdir env d fs of Ok fs' \<Rightarrow> Ok (d, fs') | _ \<Rightarrow> Panic ''panic(err)'')
        else Ok (d, fs))"

definition client_id :: "BuildInfo \<Rightarrow> bytes" where
  "client_id info =
     ClientID info @ ClientVersion info @ take 14 (EncodeToString (Sum512 (ClientID info @ ClientVersion info)))"

definition defaults :: "Ldflags \<Rightarrow> Runtime \<Rightarrow> Client \<Rightarrow> Client outcome" where
  "defaults flags rt c =
     obind (Information flags rt) (\<lambda>info. Ok (c\<lparr>c_id := client_id info, c_port := 6882, action := Leech\<rparr>))"

datatype Option = WithPort int64 | WithLogger | WithAction bytes

fun apply_option :: "Option \<Rightarrow> Client \<Rightarrow> Client" where
  "apply_option (WithPort port) c = c\<lparr>c_port := port\<rparr>"
| "apply_option WithLogger c = c"
| "apply_option (WithAction a) c = c\<lparr>action := a\<rparr>"

definition New :: "Ldflags \<Rightarrow> Runtime \<Rightarrow> Option list \<Rightarrow> (bytes \<Rightarrow> error option) \<Rightarrow> Client outcome" where
  "New flags rt opts listen =
     obind (defaults flags rt \<lparr>c_id = [], c_port = 0, handler = [], c_done = OpenChan, torrents = [], action = [],
       seedServer = NoListener\<rparr>) (\<lambda>p0.
     let p = fold apply_option opts p0 in
     if action p \<noteq> Leech
     then (case listen (str ''0.0.0.0:'' @ FormatInt (c_port p)) of
             Some e \<Rightarrow> Err (Wrapped ''failed to announce listener server to the network: '' e)
           | None \<Rightarrow> Ok (p\<lparr>seedServer := Listening\<rparr>))
     else Ok p)"

text \<open>The result of \<^verbatim>\<open>Close\<close> includes the trackers as they are left.\<close>

fun close_trackers :: "(bytes \<Rightarrow> FsEnv) \<Rightarrow> StatusTracker dict \<Rightarrow> StatusTracker dict outcome" where
  "close_trackers env [] = Ok []"
| "close_trackers env ((h, t) # ts) =
     (case Tracker_Close (env h) t of
        (t', Panic s) \<Rightarrow> Panic s
      | (t', _) \<Rightarrow> obind (close_trackers env ts) (\<lambda>ts'. Ok ((h, t') # ts')))"

definition Client_Close ::
  "(bytes \<Rightarrow> FsEnv) \<Rightarrow> (StatusTracker dict \<Rightarrow> StatusTracker dict) \<Rightarrow> Client \<Rightarrow> (Client \<times> StatusTracker dict) outcome" where
  "Client_Close env ord p =
     (let p1 = (if seedServer p \<noteq> NoListener then p\<lparr>seedServer := ListenerClosed\<rparr> else p) in
      obind (close_chan (c_done p1)) (\<lambda>d.
      obind (close_trackers env (ord (torrents p1))) (\<lambda>ts.
      Ok (p1\<lparr>c_done := d, torrents := []\<rparr>, ts))))"

definition WorkOn :: "FsEnv \<Rightarrow> bytes \<Rightarrow> FS \<Rightarrow> MetaInfoFile \<Rightarrow> Client \<Rightarrow> (Client \<times> bytes) outcome" where
  "WorkOn env torrentDir fs m p =
     (let h = Hash (mInfo m) in
      if dict_get (torrents p) h \<noteq> None then Err (ErrorMsg ''torrent with hash %s is already tracked'')
      else obind (NewTracker env (c_id p) m torrentDir fs) (\<lambda>tr.
        Ok (p\<lparr>torrents := dict_set h tr (torrents p), handler := handler p @ [h]\<rparr>, h)))"

text \<open>One hash received by \<^verbatim>\<open>watch\<close>: the result says for which torrent \<^verbatim>\<open>downloadTorrent\<close> is started.\<close>

definition watch :: "Client \<Rightarrow> (Client \<times> (bytes \<times> StatusTracker) option) outcome" where
  "watch p =
     (case handler p of
        [] \<Rightarrow> Ok (p, None)
      | h # hs \<Rightarrow>
          (case dict_get (torrents p) h of
             None \<Rightarrow> Panic ''interface conversion: interface is nil''
           | Some t \<Rightarrow> Ok (p\<lparr>handler := hs\<rparr>, Some (h, t))))"

section \<open>client.go: announcing\<close>

definition started_params :: "Client \<Rightarrow> bytes \<Rightarrow> int64 \<Rightarrow> RequestParams" where
  "started_params c infoHash left =
     \<lparr>InfoHash = infoHash, PeerID = c_id c, rPort = c_port c, Uploaded = 0, Downloaded = 0, Left = left,
      Compact = Some 1, NoPeerId = None, rEvent = Some EventStarted, rIP = None, NumWant = Some 15, Key = None,
      rTrackerID = None\<rparr>"

text \<open>
  The counters are atomic and each is loaded on its own, while the other goroutines go on: what the test of a tick
  (\<open>ld_test\<close>) reads, \<^verbatim>\<open>Uploaded\<close>, \<^verbatim>\<open>Downloaded\<close>, the load in \<^verbatim>\<open>Left\<close>, and the one in \<^verbatim>\<open>UpdateSeeders\<close>, in this
  order.
\<close>

record Loads =
  ld_test :: int64
  ld_uploaded :: int64
  ld_downloaded :: int64
  ld_left :: int64
  ld_seeders :: int64

definition update_params ::
  "Client \<Rightarrow> bytes \<Rightarrow> bytes option \<Rightarrow> Loads \<Rightarrow> int64 \<Rightarrow> Event option \<Rightarrow> RequestParams" where
  "update_params c infoHash trackerID ld left event =
     \<lparr>InfoHash = infoHash, PeerID = c_id c, rPort = c_port c, Uploaded = ld_uploaded ld, Downloaded = ld_downloaded ld,
      Left = left, Compact = Some 1, NoPeerId = None, rEvent = event, rIP = None, NumWant = None, Key = None,
      rTrackerID = trackerID\<rparr>"

text \<open>The first loop: an attempt is made unless the client is shutting down. Without an event left it
  still tries.\<close>

datatype StartEvent = StartDone | StartAttempt Http

fun start_loop :: "Client \<Rightarrow> bytes \<Rightarrow> StatusTracker \<Rightarrow> StartEvent list \<Rightarrow> Response option outcome option" where
  "start_loop c infoHash t [] = None"
| "start_loop c infoHash t (StartDone # es) = Some (Ok None)"
| "start_loop c infoHash t (StartAttempt http # es) =
     (case obind (BytesToDownload (Torrent t)) (\<lambda>left.
         CreateRequest http (Announce (Torrent t)) (started_params c infoHash left)) of
        Ok r \<Rightarrow> Some (Ok (Some r))
      | Err e \<Rightarrow> start_loop c infoHash t es
      | Panic s \<Rightarrow> Some (Panic s))"

definition NewTicker :: "int64 \<Rightarrow> int64 outcome" where
  "NewTicker d = (if d \<le> 0 then Panic ''non-positive interval for NewTicker'' else Ok d)"

text \<open>Between the loops. The result is the period and the addresses of the new seeders, if the
  goroutine goes on.\<close>

definition after_start :: "StatusTracker \<Rightarrow> Response \<Rightarrow> (int64 \<times> bytes list) option outcome" where
  "after_start t start =
     (case Interval start of
        None \<Rightarrow> Ok None
      | Some i \<Rightarrow>
          obind (UpdateSeeders t (Some start)) (\<lambda>addrs.
          obind (NewTicker (i64 (i * 10 ^ 9))) (\<lambda>d. Ok (Some (d, addrs)))))"

datatype AnnounceEvent = CtxDone Http | Completed Http | Tick Http

text \<open>
  One event of the second loop: the parameters that were sent, the tracker afterwards, and the new
  seeders, or nothing when the goroutine returns. \<open>t\<close> is the tracker after the request, when \<^verbatim>\<open>CancelDownload\<close> or
  \<^verbatim>\<open>UpdateSeeders\<close> runs.
\<close>

definition announce_step ::
  "Client \<Rightarrow> bytes \<Rightarrow> bytes option \<Rightarrow> AnnounceEvent \<Rightarrow> Loads \<Rightarrow> StatusTracker
     \<Rightarrow> (RequestParams \<times> StatusTracker \<times> bytes list option) outcome" where
  "announce_step c infoHash trackerID ev ld t =
     obind (BytesToDownload (Torrent t)) (\<lambda>n.
     let left = i64 (n - ld_left ld);
         request = (\<lambda>http event. CreateRequest http (Announce (Torrent t)) (update_params c infoHash trackerID ld left event));
         leave = (\<lambda>http event. (case request http (Some event) of
           Panic s \<Rightarrow> Panic s
         | _ \<Rightarrow> obind (CancelDownload t) (\<lambda>t'. Ok (update_params c infoHash trackerID ld left (Some event), t', None))))
     in (case ev of
           CtxDone http \<Rightarrow> leave http EventStopped
         | Completed http \<Rightarrow> leave http EventCompleted
         | Tick http \<Rightarrow>
             if i64 (n - ld_test ld) = 0 then leave http EventCompleted
             else
               (case request http None of
                  Panic s \<Rightarrow> Panic s
                | r \<Rightarrow>
                    obind (UpdateSeeders (t\<lparr>tDownloaded := ld_seeders ld\<rparr>) (case r of Ok update \<Rightarrow> Some update | _ \<Rightarrow> None))
                      (\<lambda>addrs. Ok (update_params c infoHash trackerID ld left None, t, Some addrs)))))"

text \<open>The second loop, with the loads of each event and the tracker it finds.\<close>

fun announce_loop ::
  "Client \<Rightarrow> bytes \<Rightarrow> bytes option \<Rightarrow> (AnnounceEvent \<times> Loads \<times> StatusTracker) list \<Rightarrow> RequestParams list outcome" where
  "announce_loop c infoHash trackerID [] = Ok []"
| "announce_loop c infoHash trackerID ((ev, ld, t) # es) =
     obind (announce_step c infoHash trackerID ev ld t) (\<lambda>(p, t', cont).
     if cont = None then Ok [p]
     else obind (announce_loop c infoHash trackerID es) (\<lambda>ps. Ok (p # ps)))"

text \<open>The whole goroutine: the announces that were sent after the first.\<close>

definition downloadTorrent ::
  "Client \<Rightarrow> bytes \<Rightarrow> StatusTracker \<Rightarrow> StartEvent list \<Rightarrow> (AnnounceEvent \<times> Loads \<times> StatusTracker) list
     \<Rightarrow> RequestParams list outcome option" where
  "downloadTorrent c infoHash t starting es =
     map_option (\<lambda>r. obind r (\<lambda>start.
       case start of
         None \<Rightarrow> Ok []
       | Some resp \<Rightarrow>
           obind (after_start t resp) (\<lambda>go.
           if go = None then Ok [] else announce_loop c infoHash (TrackerID resp) es)))
       (start_loop c infoHash t starting)"

section \<open>listener.go\<close>

fun route ::
  "Env \<Rightarrow> NetEnv \<Rightarrow> bytes \<Rightarrow> Handshake \<Rightarrow> Conn \<Rightarrow> StatusTracker dict \<Rightarrow> Client \<Rightarrow> (Client \<times> bool) outcome" where
  "route env nenv addr h sock [] p = Ok (p, True)"
| "route env nenv addr h sock ((key, t) # ts) p =
     (if key = hs_info_hash h
      then (case AddLeecher env nenv (hs_peer_id h) addr sock t of
              (t', Panic s) \<Rightarrow> Panic s
            | (t', Err e) \<Rightarrow> Ok (p\<lparr>torrents := dict_set key t' (torrents p)\<rparr>, True)
            | (t', Ok _) \<Rightarrow> Ok (p\<lparr>torrents := dict_set key t' (torrents p)\<rparr>, False))
      else route env nenv addr h sock ts p)"

text \<open>The flag says whether the connection is closed at the end.\<close>

definition handlePeer ::
  "Env \<Rightarrow> NetEnv \<Rightarrow> (StatusTracker dict \<Rightarrow> StatusTracker dict) \<Rightarrow> bytes \<Rightarrow> Conn option \<Rightarrow> Client \<Rightarrow> (Client \<times> bool) outcome" where
  "handlePeer env nenv ord addr sock p =
     (case sock of
        None \<Rightarrow> nil_deref
      | Some c \<Rightarrow>
          if read_deadline nenv \<noteq> None then Ok (p, True)
          else (case ReadFull HandshakeLength (cin c) of
            (Panic s, r) \<Rightarrow> Panic s
          | (Err e, r) \<Rightarrow> Ok (p, True)
          | (Ok req, r) \<Rightarrow>
              if length req \<noteq> HandshakeLength then Ok (p, True)
              else (case Handshake_Deserialize req of
                Panic s \<Rightarrow> Panic s
              | Err e \<Rightarrow> Ok (p, True)
              | Ok h \<Rightarrow> route env nenv addr h (c\<lparr>cin := r\<rparr>) (ord (torrents p)) p)))"

text \<open>One result of \<^verbatim>\<open>Accept\<close>: whether the loop goes on, and the connection a \<^verbatim>\<open>handlePeer\<close> is started for.\<close>

definition accept_step :: "Conn outcome \<Rightarrow> bool \<times> Conn option option" where
  "accept_step r =
     (case r of
        Ok c \<Rightarrow> (True, Some (Some c))
      | Err e \<Rightarrow> if error_is e NetClosed then (False, None) else (True, Some None)
      | Panic s \<Rightarrow> (False, None))"

fun acceptLeechers :: "Conn outcome list \<Rightarrow> Conn option list" where
  "acceptLeechers [] = []"
| "acceptLeechers (r # rs) =
     (case accept_step r of
        (False, _) \<Rightarrow> []
      | (True, None) \<Rightarrow> acceptLeechers rs
      | (True, Some c) \<Rightarrow> c # acceptLeechers rs)"

section \<open>main.go\<close>

datatype RunEvent = Interrupt | Waited "WaitError option"

record World =
  w_flags :: Ldflags
  w_runtime :: Runtime
  w_listen :: "bytes \<Rightarrow> error option"
  w_open :: "bytes \<Rightarrow> goslice outcome outcome"
  w_order :: map_order
  w_fs :: FsEnv
  w_close :: "bytes \<Rightarrow> FsEnv"
  w_range :: "StatusTracker dict \<Rightarrow> StatusTracker dict"
  w_disk :: FS
  w_dir :: bytes

fun run_loop :: "World \<Rightarrow> RunEvent list \<Rightarrow> Client \<Rightarrow> unit outcome option" where
  "run_loop w [] c = None"
| "run_loop w (Interrupt # es) c = Some (obind (Client_Close (w_close w) (w_range w) c) (\<lambda>_. Ok ()))"
| "run_loop w (Waited (Some err) # es) c =
     Some (case Client_Close (w_close w) (w_range w) c of
             Panic s \<Rightarrow> Panic s
           | _ \<Rightarrow> Err (ErrorMsg ''failed to wait for work on torrent %s to finish''))"
| "run_loop w (Waited None # es) c = run_loop w es c"

definition run_action :: "bytes list \<Rightarrow> bytes outcome" where
  "run_action args =
     (if length args = 2
      then (if args ! 1 = Leech then Ok Leech
            else if args ! 1 = Both then Ok Both
            else Err (ErrorMsg ''unsupported torrent action %v, supported only (leech|seed|both)''))
      else Ok Leech)"

definition start_client :: "World \<Rightarrow> bytes list \<Rightarrow> (Client \<times> bytes) outcome" where
  "start_client w args =
     (if length args < 1 then Err (ErrorMsg ''no torrent file specified'')
      else
        obind (run_action args) (\<lambda>act.
        obind (oerr (Wrapped ''failed to open torrent file: '') (w_open w (args ! 0))) (\<lambda>file.
        obind (oerr (Wrapped ''failed to read torrent file: '') (From (w_order w) file)) (\<lambda>t.
        obind (oerr (Wrapped ''failed to initialize the client: '')
          (New (w_flags w) (w_runtime w) [WithLogger, WithAction act] (w_listen w))) (\<lambda>c.
        oerr (Wrapped ''failed to start work on: '') (WorkOn (w_fs w) (w_dir w) (w_disk w) t c))))))"

definition run :: "World \<Rightarrow> bytes list \<Rightarrow> RunEvent list \<Rightarrow> unit outcome option" where
  "run w args events =
     (case start_client w args of
        Ok (c, tid) \<Rightarrow> run_loop w events c
      | Err e \<Rightarrow> Some (Err e)
      | Panic s \<Rightarrow> Some (Panic s))"

datatype LogLevel = LevelDebug | LevelInfo | LevelWarn | LevelError

definition log_level :: "bytes \<Rightarrow> LogLevel" where
  "log_level e =
     (if e = str ''debug'' then LevelDebug else if e = str ''info'' then LevelInfo
      else if e = str ''warn'' then LevelWarn else if e = str ''error'' then LevelError else LevelInfo)"

definition exit_code :: "unit outcome \<Rightarrow> int" where
  "exit_code r = (case r of Ok _ \<Rightarrow> 0 | Err e \<Rightarrow> 1 | Panic s \<Rightarrow> 2)"

text \<open>The level of the log and the exit code of the process, if it ends.\<close>

definition main_program :: "World \<Rightarrow> bytes \<Rightarrow> bytes list \<Rightarrow> RunEvent list \<Rightarrow> LogLevel \<times> int option" where
  "main_program w level args events = (log_level level, map_option exit_code (run w args events))"

section \<open>The id of the client\<close>

lemma client_id_length: "length (ClientID info) = 2 \<Longrightarrow> length (ClientVersion info) = 4 \<Longrightarrow> length (client_id info) = 20"
  by (simp add: client_id_def sha512.length_sum length_EncodeToString)

lemma fold_options_id: "c_id (fold apply_option opts c) = c_id c"
proof (induction opts arbitrary: c)
  case (Cons o' opts)
  then show ?case by (cases o') auto
qed simp

lemma New_id:
  assumes "New flags rt opts listen = Ok c" and "length (lVersion flags) = 4"
  shows "length (c_id c) = 20"
proof -
  from assms(1) obtain info where info: "Information flags rt = Ok info" and c: "c_id c = client_id info"
    by (auto simp: New_def defaults_def outcome_simps Let_def fold_options_id split: if_splits option.splits)
  from info have "ClientID info = str ''MM''" "ClientVersion info = lVersion flags"
    by (auto simp: Information_def split: outcome.splits)
  with c client_id_length [of info] assms(2) show ?thesis by (simp add: str_def)
qed

section \<open>Announces\<close>

lemma announce_step_sends:
  assumes "announce_step c h tid ev ld t = Ok (p, t', cont)" and "BytesToDownload (Torrent t) = Ok n"
  shows "\<exists>event. p = update_params c h tid ld (i64 (n - ld_left ld)) event
    \<and> (event = None \<or> event = Some EventStopped \<or> event = Some EventCompleted)
    \<and> (\<forall>http. ev = Tick http \<longrightarrow> event = (if i64 (n - ld_test ld) = 0 then Some EventCompleted else None))"
  using assms
  by (cases ev) (auto simp: announce_step_def Let_def outcome_simps split: if_splits outcome.splits)

lemma params_valid:
  assumes "h \<noteq> []" and "c_id c \<noteq> []" and "c_port c \<noteq> 0"
    and "event = None \<or> event = Some EventStarted \<or> event = Some EventStopped \<or> event = Some EventCompleted"
  shows "Params_Validate (update_params c h tid ld left event) = Ok ()"
    and "Params_Validate (started_params c h left) = Ok ()"
  using assms by (auto simp: Params_Validate_def update_params_def started_params_def bad_flag_def)

text \<open>The loads of one announce, along a run of the tracker; what a load of \<^verbatim>\<open>Downloaded\<close> reads is visible where it happens.\<close>

definition loads_along :: "StatusTracker \<times> Scheduler \<Rightarrow> Loads \<Rightarrow> StatusTracker \<times> Scheduler \<Rightarrow> bool" where
  "loads_along ts0 ld ts \<longleftrightarrow> (\<exists>t1 s1 t2 s2 t3 s3 t4 s4.
     rtranclp tstep ts0 (t1, s1) \<and> visible t1 (ld_test ld)
     \<and> rtranclp tstep (t1, s1) (t2, s2) \<and> tUploaded t2 = ld_uploaded ld
     \<and> rtranclp tstep (t2, s2) (t3, s3) \<and> visible t3 (ld_downloaded ld)
     \<and> rtranclp tstep (t3, s3) (t4, s4) \<and> visible t4 (ld_left ld)
     \<and> rtranclp tstep (t4, s4) ts \<and> visible (fst ts) (ld_seeders ld))"

lemma load_bound:
  assumes "torrent_ok m" and "starts m ts0" and "rtranclp tstep ts0 (t, s)"
  shows "Torrent t = m" and "dl_inv (t, s)" and "visible t d \<Longrightarrow> 0 \<le> d \<and> d \<le> int (total_size m)"
proof -
  have "dl_inv ts0" using reach_inv_for(1) [OF assms(1,2) rtranclp.rtrancl_refl] by (simp add: dl_inv_for_def)
  from tstep_reach [OF assms(3) this] have run: "rtranclp dstep ts0 (t, s)" and inv: "dl_inv (t, s)" by simp_all
  show m: "Torrent t = m" using reach_inv_for(2) [OF assms(1,2) run] by (simp add: dl_inv_for_def)
  show "dl_inv (t, s)" by (rule inv)
  show "visible t d \<Longrightarrow> 0 \<le> d \<and> d \<le> int (total_size m)" using visible_bound [OF inv] m by blast
qed

lemma loads_along_bound:
  assumes "torrent_ok m" and "starts m ts0" and "loads_along ts0 ld (t, s)"
  shows "Torrent t = m"
    and "0 \<le> ld_test ld \<and> ld_test ld \<le> int (total_size m)"
    and "0 \<le> ld_downloaded ld \<and> ld_downloaded ld \<le> int (total_size m)"
    and "0 \<le> ld_left ld \<and> ld_left ld \<le> int (total_size m)"
proof -
  from assms(3) obtain t1 s1 t2 s2 t3 s3 t4 s4 where
    1: "rtranclp tstep ts0 (t1, s1)" "visible t1 (ld_test ld)" and 2: "rtranclp tstep (t1, s1) (t2, s2)"
    and 3: "rtranclp tstep (t2, s2) (t3, s3)" "visible t3 (ld_downloaded ld)"
    and 4: "rtranclp tstep (t3, s3) (t4, s4)" "visible t4 (ld_left ld)" and 5: "rtranclp tstep (t4, s4) (t, s)"
    unfolding loads_along_def by blast
  note r2 = rtranclp_trans [OF 1(1) 2]
  note r3 = rtranclp_trans [OF r2 3(1)]
  note r4 = rtranclp_trans [OF r3 4(1)]
  note r5 = rtranclp_trans [OF r4 5]
  note b = load_bound [OF assms(1,2)]
  show "Torrent t = m" by (rule b(1) [OF r5])
  show "0 \<le> ld_test ld \<and> ld_test ld \<le> int (total_size m)" by (rule b(3) [OF 1])
  show "0 \<le> ld_downloaded ld \<and> ld_downloaded ld \<le> int (total_size m)" by (rule b(3) [OF r3 3(2)])
  show "0 \<le> ld_left ld \<and> ld_left ld \<le> int (total_size m)" by (rule b(3) [OF r4 4(2)])
qed

lemma left_exact:
  assumes "torrent_ok m" and "0 \<le> d \<and> d \<le> int (total_size m)"
  shows "i64 (int (total_size m) - d) = int (total_size m) - d"
  using assms(2) total_size_bound [OF assms(1)] by (intro i64_id) (simp add: in_i64_def)

section \<open>Incoming peers\<close>

lemma route_finds:
  assumes "(hs_info_hash h, t) \<in> set ts" and "\<forall>x \<in> set ts. fst x = hs_info_hash h \<longrightarrow> snd x = t"
    and "AddLeecher env nenv (hs_peer_id h) addr sock t = (t', Ok a)"
  shows "route env nenv addr h sock ts p = Ok (p\<lparr>torrents := dict_set (hs_info_hash h) t' (torrents p)\<rparr>, False)"
  using assms(1,2)
proof (induction ts)
  case (Cons x ts)
  then show ?case by (cases x) (use assms(3) in auto)
qed simp

lemma route_unknown: "hs_info_hash h \<notin> fst ` set ts \<Longrightarrow> route env nenv addr h sock ts p = Ok (p, True)"
  by (induction ts) auto

lemma handlePeer_reads:
  assumes "read_deadline nenv = None" and "handshake_wf h" and "Handshake_Serialize h = Ok msg"
    and "cin sock = \<lparr>rdata = msg @ rest, rerr = e\<rparr>"
  shows "handlePeer env nenv ord addr (Some sock) p =
    route env nenv addr h (sock\<lparr>cin := \<lparr>rdata = rest, rerr = e\<rparr>\<rparr>) (ord (torrents p)) p"
proof -
  have "length msg = 68" using assms(2,3) by (auto simp: Handshake_Serialize_def Let_def split: if_splits)
  moreover have "Handshake_Deserialize msg = Ok h" using assms(2,3) by (simp add: Handshake_Deserialize_Ok)
  ultimately show ?thesis using assms(1,4) by (simp add: handlePeer_def)
qed

lemma handlePeer_known:
  assumes "handshake_wf h" and "Handshake_Serialize h = Ok msg" and "cin sock = \<lparr>rdata = msg @ rest, rerr = e\<rparr>"
    and "net_up nenv" and "\<forall>a msg. net_up (e_net env a msg)" and "dict_wf (torrents p)" and "\<forall>d. set (ord d) = set d"
    and t: "dict_get (torrents p) (hs_info_hash h) = Some t" "torrent_ok (Torrent t)" "hs_info_hash h = Hash (mInfo (Torrent t))"
      "length (clientID t) = 20" "Handshake_Serialize (handshake_of (hs_info_hash h) (clientID t)) = Ok reply"
  shows "\<exists>t' a q c. handlePeer env nenv ord addr (Some sock) p =
      Ok (p\<lparr>torrents := dict_set (hs_info_hash h) t' (torrents p)\<rparr>, False)
    \<and> dict_get (leechers t') addr = Some a \<and> peers t' = peers t @ [q] \<and> a = length (peers t)
    \<and> PeerId q = hs_peer_id h \<and> connectionStatus q = 0 \<and> conn q = Some c
    \<and> cout c = cout sock @ reply @ Bitfield_Serialize \<lparr>bitfield_bits = bits (BitField t)\<rparr>
    \<and> (early nenv = None \<longrightarrow> cin c = \<lparr>rdata = rest, rerr = e\<rparr>)"
proof -
  let ?ts = "ord (torrents p)" and ?s = "sock\<lparr>cin := \<lparr>rdata = rest, rerr = e\<rparr>\<rparr>"
  have "read_deadline nenv = None" using assms(4) by (simp add: net_up_def)
  note reads = handlePeer_reads [OF this assms(1-3), of env ord addr p]
  have len: "length (Hash (mInfo (Torrent t))) = 20" using assms(1) t(3) by (simp add: handshake_wf_def)
  from AddLeecher_up [OF t(2) assms(4,5) len t(4) t(5) [unfolded t(3)], of "hs_peer_id h" addr ?s] obtain q c b where
    add: "AddLeecher env nenv (hs_peer_id h) addr ?s t = (t\<lparr>peers := peers t @ [q],
        leechers := dict_set addr (length (peers t)) (dict_del addr (leechers t))\<rparr>, Ok (length (peers t)))" (is "_ = (?t', _)")
      "PeerId q = hs_peer_id h" "connectionStatus q = 0" "conn q = Some c"
      "cout c = cout sock @ reply @ Bitfield_Serialize \<lparr>bitfield_bits = bits (BitField t)\<rparr>"
      "early nenv = None \<Longrightarrow> cin c = \<lparr>rdata = rest, rerr = e\<rparr>" by (auto simp: new_peer_def)
  have "set ?ts = set (torrents p)" using assms(7) by blast
  then have "(hs_info_hash h, t) \<in> set ?ts" "\<forall>x \<in> set ?ts. fst x = hs_info_hash h \<longrightarrow> snd x = t"
    using t(1) dict_set_iff_get [OF assms(6)] by auto
  from route_finds [OF this add(1)] have "handlePeer env nenv ord addr (Some sock) p =
    Ok (p\<lparr>torrents := dict_set (hs_info_hash h) ?t' (torrents p)\<rparr>, False)" unfolding reads .
  with add(2-6) show ?thesis by (intro exI [of _ ?t'] exI [of _ "length (peers t)"] exI [of _ q] exI [of _ c]) (simp add: dict_get_set)
qed

lemma handlePeer_unknown:
  assumes "handshake_wf h" and "Handshake_Serialize h = Ok msg" and "cin sock = \<lparr>rdata = msg @ rest, rerr = e\<rparr>"
    and "net_up nenv" and "dict_wf (torrents p)" and "\<forall>d. set (ord d) = set d"
    and "dict_get (torrents p) (hs_info_hash h) = None"
  shows "handlePeer env nenv ord addr (Some sock) p = Ok (p, True)"
proof -
  have "read_deadline nenv = None" using assms(4) by (simp add: net_up_def)
  note reads = handlePeer_reads [OF this assms(1-3), of env ord addr p]
  have "set (ord (torrents p)) = set (torrents p)" using assms(6) by blast
  then have "hs_info_hash h \<notin> fst ` set (ord (torrents p))" using assms(7) dict_set_iff_get [OF assms(5)] by force
  then show ?thesis unfolding reads by (rule route_unknown)
qed

section \<open>A scheduler that was cancelled\<close>

text \<open>
  The tracker while the scheduler is at its select: the scheduler takes a case that is ready, a round as a whole, and everything else
  goes on as in \<open>tstep\<close>.
\<close>

inductive sstep :: "StatusTracker \<times> Scheduler \<Rightarrow> StatusTracker \<times> Scheduler \<Rightarrow> bool" where
  select: "sstep ts ts'" if "running (snd ts)" "scheduler_select ev ts = Some (Ok ts')"
| others: "sstep (t, s) (t', s)" if "tstep (t, s\<lparr>running := False\<rparr>) (t', s\<lparr>running := False\<rparr>)"

lemma dl_inv_running: "dl_inv (t, s) \<Longrightarrow> (b \<longrightarrow> completed t = OpenChan) \<Longrightarrow> dl_inv (t, s\<lparr>running := b\<rparr>)"
  by (simp add: dl_inv_def partitioned_def)

lemma halted_step:
  assumes "dstep (t, s) (t', s')" and "dl_inv (t, s)" and "\<not> running s"
  shows "completed t' = completed t"
  using assms(1)
proof cases
  case own
  then show ?thesis
  proof cases
    case (recv env a rc pieceIdx)
    from recv_locked_received [of t s env a pieceIdx rc] recv assms(2) obtain p where "received t pieceIdx a rc p t'" by auto
    then show ?thesis by cases (auto simp: only_peers_def)
  qed (use assms(3) in auto)
next
  case other
  then show ?thesis by (simp add: around_frame)
qed

lemma dl_step_dcancel:
  assumes "dl_step (t, s) (t', s')" and "dl_inv (t, s)" and "\<not> running s"
  shows "dcancel t' = dcancel t"
  using assms(1)
proof cases
  case (recv env a rc pieceIdx)
  from recv_locked_received [of t s env a pieceIdx rc] recv assms(2) obtain p where "received t pieceIdx a rc p t'" by auto
  then show ?thesis by cases (auto simp: only_peers_def)
qed (use assms(3) in auto)

lemma tstep_dcancel:
  assumes "tstep (t, s) (t', s')" and "dl_inv (t, s)" and "\<not> running s" and "dcancel t = ClosedChan"
  shows "dcancel t' = ClosedChan"
  using assms(1)
proof cases
  case goes
  from gostep_kinds [OF this assms(2)] show ?thesis
    using dl_step_dcancel [OF _ assms(2,3)] other_step_frame(4) [OF _ assms(4)] assms(4) by auto
next
  case save
  then show ?thesis using assms(4) by (simp add: save_bitfield_def)
next
  case close
  then show ?thesis using assms(4) by (auto simp: close_stop_def outcome_simps)
qed

definition cancelled_inv :: "StatusTracker \<times> Scheduler \<Rightarrow> bool" where
  "cancelled_inv ts \<longleftrightarrow> dl_inv ts \<and> dcancel (fst ts) = ClosedChan \<and> completed (fst ts) = OpenChan"

lemma sstep_cancelled:
  assumes "cancelled_inv ts" and "sstep ts ts'"
  shows "cancelled_inv ts'" and "have_set (BitField (fst ts)) \<subseteq> have_set (BitField (fst ts'))"
    and "Torrent (fst ts') = Torrent (fst ts)"
proof -
  have "cancelled_inv ts' \<and> have_set (BitField (fst ts)) \<subseteq> have_set (BitField (fst ts')) \<and> Torrent (fst ts') = Torrent (fst ts)"
    using assms(2)
  proof cases
    case (select ev)
    obtain t s where ts: "ts = (t, s)" by force
    from select assms(1) show ?thesis
      by (cases ev) (auto simp: ts cancelled_inv_def dl_inv_running dl_inv_rate rate_tick_def split: if_splits)
  next
    case (others t s t')
    then have inv: "dl_inv (t, s\<lparr>running := False\<rparr>)" "dcancel t = ClosedChan" "completed t = OpenChan"
      using assms(1) by (simp_all add: cancelled_inv_def dl_inv_running)
    note d = tstep_dstep [OF others(3) inv(1)]
    have c: "completed t' = OpenChan" using halted_step [OF d inv(1)] inv(3) by simp
    then have "dl_inv (t', s)" using dl_inv_running [OF dstep_inv [OF d inv(1)], of "running s"] by simp
    moreover have "dl_inv_for (Torrent t) (t, s\<lparr>running := False\<rparr>)" using inv(1) by (simp add: dl_inv_for_def)
    note st = tstep_stores [OF r_into_rtranclp [where r = tstep, OF others(3)] this]
    from st(1) have "Torrent t' = Torrent t" by (simp add: dl_inv_for_def)
    moreover from st(2) have "have_set (BitField t) \<subseteq> have_set (BitField t')"
      using inv(1) by (force simp: map_le_def stored_pieces_def dl_inv_def on_disk_def dom_def split: if_splits)
    ultimately show ?thesis
      using tstep_dcancel [OF others(3) inv(1) _ inv(2)] c others(1,2) by (simp add: cancelled_inv_def)
  qed
  then show "cancelled_inv ts'" "have_set (BitField (fst ts)) \<subseteq> have_set (BitField (fst ts'))"
    "Torrent (fst ts') = Torrent (fst ts)" by simp_all
qed

interpretation cancelled: step_invariant sstep cancelled_inv
  using sstep_cancelled(1) by unfold_locales

lemma cancelled_run:
  assumes "rtranclp sstep (t1, s1) (t2, s2)" and "cancelled_inv (t1, s1)"
    and "have_set (BitField t1) = {..<num_pieces (Torrent t1)}"
  shows "completed t2 = OpenChan \<and> have_set (BitField t2) = {..<num_pieces (Torrent t1)}
    \<and> (\<forall>env. scheduler_select (SchedRound env) (t2, s2) = None)"
proof -
  have inv: "cancelled_inv (t2, s2)" using cancelled.reach_inv [OF assms(1,2)] .
  have tor: "Torrent t2 = Torrent t1"
    using cancelled.reach_frame [where f = "\<lambda>ts. Torrent (fst ts)", OF assms(1,2)] sstep_cancelled(3) by simp
  have "have_set (BitField t1) \<subseteq> have_set (BitField (fst ts))" if "rtranclp sstep (t1, s1) ts" for ts
    using that
  proof (induction rule: rtranclp_induct)
    case (step y z)
    then show ?case using sstep_cancelled(2) [OF cancelled.reach_inv [OF step(1) assms(2)] step(2)] by blast
  qed simp
  from this [OF assms(1)] have "{..<num_pieces (Torrent t1)} \<subseteq> have_set (BitField t2)" using assms(3) by simp
  moreover have "have_set (BitField t2) \<subseteq> {..<num_pieces (Torrent t1)}"
    using inv tor by (auto simp: cancelled_inv_def dl_inv_def tracker_wf_def have_set_def)
  ultimately show ?thesis using inv by (auto simp: cancelled_inv_def)
qed

text \<open>A round that finds everything verified closes \<^verbatim>\<open>completed\<close>.\<close>

lemma slots_pass_free: "\<forall>x \<in> set ss. x = None \<Longrightarrow> slots_pass env ss t n = Ok (t, n + length ss)"
  by (induction ss arbitrary: n) auto

lemma disjoint_cover_full: "disjoint_cover N A U N \<Longrightarrow> A = {} \<and> U = {}"
  unfolding disjoint_cover_def by (metis Un_subset_iff inf.absorb_iff2 inf_commute subset_refl)

lemma round_completes:
  assumes "dl_inv (t, s)" and "have_set (BitField t) = {..<num_pieces (Torrent t)}" and "completed t = OpenChan"
  shows "scheduler_round env (t, s) = Ok (t\<lparr>completed := ClosedChan\<rparr>, s\<lparr>running := False\<rparr>)"
proof -
  have "disjoint_cover {..<num_pieces (Torrent t)} (active_pieces t) (unat ` set (unverified s)) {..<num_pieces (Torrent t)}"
    using assms(1,2) by (simp add: dl_inv_def partitioned_def)
  then have "active_pieces t = {}" "unat ` set (unverified s) = {}"
    using disjoint_cover_full by blast+
  then have "active t = {}" and u: "unverified s = []" by (simp_all add: active_pieces_def)
  then have "\<forall>x \<in> set (dslots t). x = None" by (auto simp: active_def) (metis option.exhaust)
  from slots_pass_free [OF this, of env t 0] assms(3) u show ?thesis
    by (simp add: scheduler_round_def next_piece_def)
qed

lemma all_counted:
  assumes "dl_inv (t, s)" and "tDownloaded t = int (total_size (Torrent t))"
  shows "have_set (BitField t) = {..<num_pieces (Torrent t)}"
proof -
  let ?m = "Torrent t" and ?H = "have_set (BitField t)" and ?idx = "\<lambda>a. unat (pIndex (heap t ! a))"
  have wf: "tracker_wf t" and m: "torrent_ok ?m"
    and part: "disjoint_cover ?H (active_pieces t) (unat ` set (unverified s)) {..<num_pieces ?m}"
    and acc: "tDownloaded t = int (\<Sum>i \<in> ?H. piece_size ?m i) + (\<Sum>a \<in> active t. pDownloaded (heap t ! a))"
    using assms(1) by (auto simp: dl_inv_def tracker_wf_def partitioned_def accounted_def simp del: of_nat_sum)
  have fin: "finite (active t)" "finite ?H" "finite (active_pieces t)" by (auto simp: have_set_def active_pieces_def)
  have inj: "inj_on ?idx (active t)" using wf by (auto simp: tracker_wf_def slots_ok_def inj_on_def dest!: unat_injD)
  have p: "pDownloaded (heap t ! a) < int (piece_size ?m (?idx a))" if "a \<in> active t" for a
    using heap_piece_inv [OF wf active_valid [OF wf that]] assms that active_valid [OF wf that]
    by (auto simp: piece_inv_def dl_inv_def stale_complete_def)
  have HA: "(\<Sum>i \<in> ?H. piece_size ?m i) + (\<Sum>i \<in> active_pieces t. piece_size ?m i) \<le> total_size ?m"
    using sum.union_disjoint [OF fin(2,3), of "piece_size ?m"] sum_pieces_le [OF m, of "?H \<union> active_pieces t"] part
    by (auto simp: disjoint_cover_def)
  have "active t = {}"
  proof (rule ccontr)
    assume "active t \<noteq> {}"
    then have "(\<Sum>a \<in> active t. pDownloaded (heap t ! a)) < (\<Sum>a \<in> active t. int (piece_size ?m (?idx a)))"
      using p fin(1) by (intro sum_strict_mono)
    also have "\<dots> = int (\<Sum>i \<in> active_pieces t. piece_size ?m i)"
      unfolding active_pieces_def by (simp add: sum.reindex [OF inj] comp_def)
    finally show False using acc assms(2) HA by linarith
  qed
  then have "(\<Sum>i \<in> ?H. piece_size ?m i) = (\<Sum>i < num_pieces ?m. piece_size ?m i)"
    using acc assms(2) sum_pieces_total [OF m] by (simp del: of_nat_sum)
  moreover have sub: "?H \<subseteq> {..<num_pieces ?m}" using part by (auto simp: disjoint_cover_def)
  ultimately show ?thesis
    using sum_strict_mono2 [OF finite_lessThan sub, of _ "piece_size ?m"] piece_size_bounds(1) [OF m] by fastforce
qed

section \<open>The end of the program\<close>

lemma run_loop_waits: "run_loop w (replicate n (Waited None)) c = None"
  by (induction n) auto

text \<open>A client built without flags, and a tracker that cannot be reached.\<close>

definition some_runtime :: Runtime where
  "some_runtime = \<lparr>rtVersion = [], rtCompiler = [], rtGOOS = [], rtGOARCH = []\<rparr>"

definition demo_client :: Client where
  "demo_client = \<lparr>c_id = client_id \<lparr>ClientID = str ''MM'', ClientVersion = str ''DEBG'', BuildDate = (1970, 1, 1),
     BuildHash = str ''unknown'', GoVersion = [], Compiler = [], Platform = [], Architecture = []\<rparr>,
     c_port = 6882, handler = [], c_done = OpenChan, torrents = [], action = Leech, seedServer = NoListener\<rparr>"

definition unreachable :: Http where
  "unreachable = \<lparr>new_request = (\<lambda>_. Some NetClosed), do_request = (\<lambda>_. Err NetClosed), reread = of_bytes\<rparr>"

lemma demo_client_new: "New default_flags some_runtime [] listen = Ok demo_client"
proof -
  have "parse_date (str ''1970-01-01'') = Ok (1970, 1, 1)" by code_simp
  then show ?thesis
    by (simp add: New_def defaults_def Information_def default_flags_def some_runtime_def demo_client_def)
qed

lemma unreachable_fails: "\<exists>e. CreateRequest unreachable url params = Err e"
  by (cases "Params_Validate params")
    (auto simp: CreateRequest_def unreachable_def Let_def Params_Validate_def split: if_splits)

section \<open>Properties\<close>



text \<open>
  C38. A regular announce that fails crashes the client: while bytes are missing at the test of the tick and at \<^verbatim>\<open>UpdateSeeders\<close>, a tick of
  \<^verbatim>\<open>downloadTorrent\<close> whose request returns an error passes the nil response to \<^verbatim>\<open>UpdateSeeders\<close>, which
  dereferences it. If the request succeeds, the tick returns and the loop goes on with the seeders of the answer.
\<close>

theorem failed_update_panics:
  assumes "BytesToDownload (Torrent t) = Ok n" and "i64 (n - ld_test ld) \<noteq> 0" and "ld_seeders ld \<noteq> n"
    and "r = CreateRequest http (Announce (Torrent t)) (update_params c h tid ld (i64 (n - ld_left ld)) None)"
  shows "(\<forall>e. r = Err e \<longrightarrow> is_panic (announce_step c h tid (Tick http) ld t))
    \<and> (\<forall>resp. r = Ok resp \<longrightarrow> announce_step c h tid (Tick http) ld t =
         Ok (update_params c h tid ld (i64 (n - ld_left ld)) None, t, Some (new_seeders t (Peers resp))))"
  using assms by (auto simp: announce_step_def UpdateSeeders_def new_seeders_def nil_deref_def Let_def)

theorem failed_update_panics_witness:
  "is_panic (announce_step demo_client (Hash (mInfo demo)) None (Tick unreachable)
     \<lparr>ld_test = 0, ld_uploaded = 0, ld_downloaded = 0, ld_left = 0, ld_seeders = 0\<rparr> demo_tracker)"
proof -
  let ?ld = "\<lparr>ld_test = 0, ld_uploaded = 0, ld_downloaded = 0, ld_left = 0, ld_seeders = 0\<rparr>"
  have f: "BytesToDownload (Torrent demo_tracker) = Ok 5" "i64 (5 - ld_test ?ld) \<noteq> 0" "ld_seeders ?ld \<noteq> 5"
    by (simp_all add: demo_tracker_def demo_sizes i64_def)
  from failed_update_panics [OF f refl, of unreachable demo_client "Hash (mInfo demo)" None] unreachable_fails show ?thesis
    by blast
qed

text \<open>The first announce of a resumed download reports the size of the torrent as left, although nothing is.\<close>

lemma started_left_on_resume:
  "tDownloaded demo_full = 5 \<and> start_loop c h demo_full [StartAttempt http] =
    (case CreateRequest http (Announce demo) (started_params c h 5) of
       Ok r \<Rightarrow> Some (Ok (Some r)) | Err e \<Rightarrow> None | Panic s \<Rightarrow> Some (Panic s))
    \<and> Left (started_params c h 5) = 5"
  by (simp add: demo_full_def demo_sizes started_params_def split: outcome.split)

text \<open>
  C39. An incoming connection is given to the torrent it asks for. When the peer sends a well-formed
  handshake for a torrent the client works on and the connection works, the peer becomes a leecher of that
  torrent only, gets the handshake of the client and the bit field of its pieces, and the connection stays
  open. For any other info hash nothing changes and the connection is closed.
\<close>

theorem peer_routed:
  assumes "handshake_wf h" and "Handshake_Serialize h = Ok msg" and "cin sock = \<lparr>rdata = msg @ rest, rerr = e\<rparr>"
    and "net_up nenv" and "\<forall>a msg. net_up (e_net env a msg)" and "dict_wf (torrents p)"
    and "\<forall>d. set (ord d) = set d"
  shows "(dict_get (torrents p) (hs_info_hash h) = None \<longrightarrow> handlePeer env nenv ord addr (Some sock) p = Ok (p, True))
    \<and> (\<forall>t reply. dict_get (torrents p) (hs_info_hash h) = Some t \<and> torrent_ok (Torrent t)
        \<and> hs_info_hash h = Hash (mInfo (Torrent t)) \<and> length (clientID t) = 20
        \<and> Handshake_Serialize (handshake_of (hs_info_hash h) (clientID t)) = Ok reply \<longrightarrow>
        (\<exists>t' a q c. handlePeer env nenv ord addr (Some sock) p =
            Ok (p\<lparr>torrents := dict_set (hs_info_hash h) t' (torrents p)\<rparr>, False)
          \<and> dict_get (leechers t') addr = Some a \<and> peers t' = peers t @ [q] \<and> a = length (peers t)
          \<and> PeerId q = hs_peer_id h \<and> connectionStatus q = 0 \<and> conn q = Some c
          \<and> cout c = cout sock @ reply @ Bitfield_Serialize \<lparr>bitfield_bits = bits (BitField t)\<rparr>
          \<and> (early nenv = None \<longrightarrow> cin c = \<lparr>rdata = rest, rerr = e\<rparr>)))"
  using handlePeer_unknown [OF assms(1-4,6,7)] handlePeer_known [OF assms] by blast

theorem peer_routed_witness:
  "\<exists>msg p' t' a. Handshake_Serialize (handshake_of (Hash (mInfo demo)) (replicate 20 2)) = Ok msg
    \<and> handlePeer demo_env up_env (\<lambda>d. d) (str ''p'') (Some (sample_conn msg IoEOF))
        (demo_client\<lparr>torrents := [(Hash (mInfo demo), demo_tracker\<lparr>clientID := replicate 20 3\<rparr>)]\<rparr>) = Ok (p', False)
    \<and> dict_get (torrents p') (Hash (mInfo demo)) = Some t' \<and> dict_get (leechers t') (str ''p'') = Some a"
proof -
  let ?ih = "Hash (mInfo demo)" and ?t = "demo_tracker\<lparr>clientID := replicate 20 3\<rparr>"
  let ?h = "handshake_of ?ih (replicate 20 2)" and ?p = "demo_client\<lparr>torrents := [(?ih, ?t)]\<rparr>"
  have wf: "handshake_wf ?h" "handshake_wf (handshake_of ?ih (replicate 20 3))"
    by (rule handshake_of_wf; simp add: demo_hash_length)+
  obtain msg reply where msg: "Handshake_Serialize ?h = Ok msg" "Handshake_Serialize (handshake_of ?ih (replicate 20 3)) = Ok reply"
    using Handshake_Serialize_wf [OF wf(1)] Handshake_Serialize_wf [OF wf(2)] by blast
  have c: "cin (sample_conn msg IoEOF) = \<lparr>rdata = msg @ [], rerr = IoEOF\<rparr>" "\<forall>a m. net_up (e_net demo_env a m)"
    "dict_wf (torrents ?p)" "\<forall>d. set ((\<lambda>d. d) d) = set (d :: StatusTracker dict)"
    by (simp_all add: demo_env_def dict_wf_def)
  have t: "dict_get (torrents ?p) (hs_info_hash ?h) = Some ?t \<and> torrent_ok (Torrent ?t)
    \<and> hs_info_hash ?h = Hash (mInfo (Torrent ?t)) \<and> length (clientID ?t) = 20
    \<and> Handshake_Serialize (handshake_of (hs_info_hash ?h) (clientID ?t)) = Ok reply"
    using msg(2) by (simp add: handshake_of_def demo_tracker_def)
  from peer_routed [OF wf(1) msg(1) c(1) net_up_up_env c(2-4), of "str ''p''", THEN conjunct2, rule_format, OF t]
  obtain t' a where r: "handlePeer demo_env up_env (\<lambda>d. d) (str ''p'') (Some (sample_conn msg IoEOF)) ?p =
      Ok (?p\<lparr>torrents := dict_set (hs_info_hash ?h) t' (torrents ?p)\<rparr>, False)" "dict_get (leechers t') (str ''p'') = Some a" by blast
  have "hs_info_hash ?h = ?ih" by (simp add: handshake_of_def)
  with r msg(1) show ?thesis
    by (intro exI [of _ msg] exI [of _ "?p\<lparr>torrents := dict_set ?ih t' (torrents ?p)\<rparr>"] exI [of _ t'] exI [of _ a])
      (simp add: dict_get_set)
qed

text \<open>
  C40. A finished download can go unnoticed. When everything is downloaded and the scheduler is at its select, its next round
  closes the channel \<^verbatim>\<open>completed\<close>. But if a tick of \<^verbatim>\<open>downloadTorrent\<close> reads the full count first, it announces the completion and
  closes \<^verbatim>\<open>download.cancel\<close>; from then on the default case of the select, a round, is never ready, and no step of the
  torrent closes the channel \<^verbatim>\<open>WaitFor\<close> waits for, although every piece is verified. (A round that was already in progress at the tick
  would still close it.)
\<close>

theorem cancelled_never_completes:
  assumes "dl_inv (t, s)" and "BytesToDownload (Torrent t) = Ok (tDownloaded t)" and "completed t = OpenChan"
    and "dcancel t = OpenChan" and "stop t = OpenChan" and "ld_test ld = tDownloaded t"
    and "\<forall>params. \<not> is_panic (CreateRequest http (Announce (Torrent t)) params)"
  shows "(\<forall>env. scheduler_select (SchedRound env) (t, s) = Some (Ok (t\<lparr>completed := ClosedChan\<rparr>, s\<lparr>running := False\<rparr>)))
    \<and> (\<exists>p t1. announce_step c h tid (Tick http) ld t = Ok (p, t1, None) \<and> rEvent p = Some EventCompleted
      \<and> dcancel t1 = ClosedChan
      \<and> (\<forall>t2 s2. rtranclp sstep (t1, s) (t2, s2) \<longrightarrow> completed t2 = OpenChan
          \<and> have_set (BitField t2) = {..<num_pieces (Torrent t)} \<and> (\<forall>env. scheduler_select (SchedRound env) (t2, s2) = None)))"
proof -
  let ?t1 = "t\<lparr>dcancel := ClosedChan\<rparr>" and ?N = "{..<num_pieces (Torrent t)}"
  let ?p = "update_params c h tid ld (i64 (tDownloaded t - ld_left ld)) (Some EventCompleted)"
  have all: "have_set (BitField t) = ?N"
    using all_counted [OF assms(1)] assms(1,2) by (simp add: dl_inv_def tracker_wf_def torrent_ok_def)
  have step: "announce_step c h tid (Tick http) ld t = Ok (?p, ?t1, None)"
    using assms(2,4,6) assms(7) [rule_format, of ?p]
    by (auto simp: announce_step_def CancelDownload_def i64_def Let_def split: outcome.splits)
  have "around t ?t1" using assms(1) CancelDownload_around [of t ?t1] assms(4) by (auto simp: CancelDownload_def dl_inv_def tracker_wf_def)
  from dstep_inv [OF dstep.other [OF this] assms(1)] have "cancelled_inv (?t1, s)" using assms(3) by (simp add: cancelled_inv_def)
  then have "completed t2 = OpenChan \<and> have_set (BitField t2) = ?N \<and> (\<forall>env. scheduler_select (SchedRound env) (t2, s2) = None)"
    if "rtranclp sstep (?t1, s) (t2, s2)" for t2 s2
    using cancelled_run [OF that] all by simp
  with step round_completes [OF assms(1) all assms(3)] assms(4,5) show ?thesis by (auto simp: update_params_def)
qed

theorem cancelled_never_completes_witness:
  "\<exists>p t1. announce_step demo_client [] None (Tick unreachable)
      \<lparr>ld_test = 5, ld_uploaded = 0, ld_downloaded = 5, ld_left = 5, ld_seeders = 5\<rparr> demo_full = Ok (p, t1, None)
    \<and> dcancel t1 = ClosedChan
    \<and> (\<forall>t2 s2. rtranclp sstep (t1, demo_scheduler\<lparr>unverified := []\<rparr>) (t2, s2) \<longrightarrow> completed t2 = OpenChan)"
proof -
  let ?ld = "\<lparr>ld_test = 5, ld_uploaded = 0, ld_downloaded = 5, ld_left = 5, ld_seeders = 5\<rparr>"
  have inv: "dl_inv (demo_full, demo_scheduler\<lparr>unverified := []\<rparr>)"
    using reach_inv_for(1) [OF demo_ok demo_full_starts rtranclp.rtrancl_refl] by (simp add: dl_inv_for_def)
  have f: "BytesToDownload (Torrent demo_full) = Ok (tDownloaded demo_full)" "completed demo_full = OpenChan"
    "dcancel demo_full = OpenChan" "stop demo_full = OpenChan" "ld_test ?ld = tDownloaded demo_full"
    by (simp_all add: demo_full_def demo_sizes)
  have "\<forall>params. \<not> is_panic (CreateRequest unreachable (Announce (Torrent demo_full)) params)"
  proof
    fix params show "\<not> is_panic (CreateRequest unreachable (Announce (Torrent demo_full)) params)"
      using unreachable_fails [of "Announce (Torrent demo_full)" params] by auto
  qed
  from cancelled_never_completes [OF inv f this, of demo_client "[]" None] show ?thesis by blast
qed

end
