(* ===== verification/Spec2Isabelle.thy ===== *)
theory Spec2Isabelle
  imports Bencoding Bitfield Messages Metainfo Peer Tracker Upload Reassembly Client
begin

text \<open>
  \<^bold>\<open>tinytorrent\<close>, a BitTorrent v1 client in Go: a verification development.

  \<^bold>\<open>The program.\<close> \<^verbatim>\<open>cmd/cli/main.go\<close> reads a torrent file (\<^verbatim>\<open>torrent/metainfo.go\<close>, on the decoder of
  \<^verbatim>\<open>bencoding\<close>), starts a client (\<^verbatim>\<open>cmd/cli/client\<close>) and waits for the torrent. The client opens a tracker
  of the torrent's state (\<^verbatim>\<open>client/internal/status\<close>), announces itself to the HTTP tracker
  (\<^verbatim>\<open>client/internal/tracker\<close>) and hands the addresses it gets to the download, which connects to the
  peers (\<^verbatim>\<open>p2p/peer\<close>), exchanges messages with them (\<^verbatim>\<open>p2p/messagesv1\<close>), keeps bit fields of pieces
  (\<^verbatim>\<open>p2p/peer/bitfield\<close>), verifies pieces by SHA-1 and writes them to disk. Incoming peers are served
  by the upload. When every piece is verified, the pieces are copied into the torrent's files.

  \<^bold>\<open>The theories\<close>, in the order of their imports:

  \<^item> \<open>Prelude\<close>: Go values. Bytes and 32-bit integers are words; \<^verbatim>\<open>int\<close> and \<^verbatim>\<open>int64\<close> are integers with \<open>i64\<close>
    written where an operation can wrap; a slice has a length and a capacity; \<open>outcome\<close> is a result,
    an error or a panic. \<open>Dict\<close>: Go maps with string keys and the interface \<open>go_map\<close>.
  \<^item> \<open>Bencoding\<close>: \<^verbatim>\<open>bencoding/*.go\<close>. A decoder inverts the literal, in any context; what it
    accepts is well formed; it reads past a slice's length but never past its capacity.
  \<^item> \<open>Bitfield\<close>: \<^verbatim>\<open>bitfield.go\<close>, with the interface \<open>piece_set\<close>: \<^verbatim>\<open>Set\<close> is insertion into a set.
  \<^item> \<open>Messages\<close>: \<^verbatim>\<open>messagesv1\<close>. Streams of messages are read back; handshakes are accepted exactly
    when they are well formed; no input blocks or crashes the reader, one byte of the handshake apart.
  \<^item> \<open>Sha1\<close> and \<open>Sha512\<close>: the digests after FIPS 180-4, used through the interface \<open>digest\<close>.
  \<^item> \<open>Metainfo\<close>: \<^verbatim>\<open>torrent/metainfo.go\<close>. The parser returns what the dictionaries say, in whatever
    order Go ranges over them, and inverts the printing of a torrent.
  \<^item> \<open>Peer\<close>: \<^verbatim>\<open>peer.go\<close> and \<^verbatim>\<open>listener.go\<close>. The Send methods share the interface \<open>send_op\<close>; two ends of a
    connection agree; the listener survives every stream that ends; closing works.
  \<^item> \<open>Tracker\<close>: \<^verbatim>\<open>request.go\<close>, \<^verbatim>\<open>response.go\<close>, \<^verbatim>\<open>event.go\<close>: parameters, query strings, answers.
  \<^item> \<open>Status\<close>: \<^verbatim>\<open>status.go\<close>, the state of one torrent (\<open>StatusTracker\<close>) with its directory; \<open>Paths\<close>:
    the paths and file operations of the client.
  \<^item> \<open>Machine\<close>: the interfaces \<open>step_invariant\<close> and \<open>simulation\<close> of state machines.
  \<^item> \<open>Swarm\<close>: calls on peers, shared by \<open>Download\<close> (\<^verbatim>\<open>download.go\<close>) and \<open>Upload\<close> (\<^verbatim>\<open>upload.go\<close>).
  \<^item> \<open>DownloadInvariant\<close>: the download as a machine. \<open>dl_step\<close> are its own steps, \<open>around\<close> what the
    other goroutines may do; the invariant \<open>dl_inv\<close> is interpreted as \<open>step_invariant\<close>, and the machine
    refines a store of verified pieces (\<open>spec_step\<close>), interpreted as \<open>simulation\<close>.
  \<^item> \<open>Upload\<close> also has the machine of the whole tracker, \<open>tstep\<close>, every run of which is one of the download: \<open>gostep\<close> are the
    steps of the goroutines, turns of listeners included, and \<open>tstep\<close> adds the two parts of \<^verbatim>\<open>Close\<close>. Closing and
    opening a torrent again resumes the download.
  \<^item> \<open>Reassembly\<close>: \<^verbatim>\<open>WaitFor\<close> of \<^verbatim>\<open>client.go\<close>; \<open>Client\<close>: the rest of \<^verbatim>\<open>client.go\<close>, \<^verbatim>\<open>listener.go\<close>,
    \<^verbatim>\<open>option.go\<close>, \<^verbatim>\<open>build/info.go\<close> and \<^verbatim>\<open>main.go\<close>.
  \<^item> This theory: the property that spans them all, from a run of the torrent to the file on disk.

  \<^bold>\<open>State and steps.\<close> Structs are records, pointers to peers and pending pieces are indices into lists in
  the tracker, channels are nil, open or closed. A function that returns an error has an error
  outcome, and a panic of the runtime or of the code is the outcome \<open>Panic\<close>. A goroutine that selects is a function of
  the event it receives. Loops are structurally recursive, or have a termination proof
  (\<open>block_loop\<close>, \<open>sha1_blocks\<close>, the decoders by the remaining input); the loops that may run for ever (the listener of a
  peer, \<open>copy_file\<close>) are partial functions into \<open>option\<close>, and that they return is stated as such. The
  only fuel is in \<open>ipv6_loop\<close>: eight rounds are as many groups as an address can have.

  \<^bold>\<open>Interleaving.\<close> The goroutines of a torrent interleave in steps: a critical section on the lock of a
  pending piece is one step, as is a method of the bit field, a message of a peer, a visit of a slot
  and a tick. A piece loaded from a slot may be stale when its lock is taken; the steps allow it. The counter
  \<^verbatim>\<open>Downloaded\<close> is read without a lock, also between the two stores that handling the last block of a piece makes: \<open>visible\<close> is
  the set of values such a read can find, and an announce makes its reads one by one along a run
  (\<open>loads_along\<close>). \<^verbatim>\<open>Close\<close> is two steps, saving the bit field and closing \<^verbatim>\<open>stop\<close>. A new peer's listener may end before
  the constructor stores the status (\<open>early\<close>). A case of the scheduler's select is taken only when its
  channel is ready; \<open>sstep\<close> is the machine in which the scheduler takes whole rounds.

  \<^bold>\<open>Parameters.\<close> Network, disk, HTTP, time, randomness, the order of ranges over maps and the build
  flags are arguments of the definitions. Hypotheses on them are named predicates: \<open>env_ok\<close> and \<open>net_ok\<close>
  (a writer reports no more than it was given, a range visits the entries of the map) hold for every
  implementation; \<open>net_up\<close>, \<open>fs_up\<close> and \<open>os_up\<close> say that an operation succeeds and are used only where
  the property says so. \<open>torrent_ok\<close> is what the download needs and the parser does not check: a
  positive piece length below \<open>2 ^ 32\<close> that fits the number of pieces and the size.

  \<^bold>\<open>Not modelled.\<close> Log output and the generated \<^verbatim>\<open>_string.go\<close> files, which only produce text for it; wait
  groups (that \<^verbatim>\<open>Close\<close> and \<^verbatim>\<open>CancelDownload\<close> wait); that a send on an unbuffered channel blocks until it is received (an
  emission of a listener is always taken); the rounding of \<^verbatim>\<open>float64\<close> in \<^verbatim>\<open>NewBitfield\<close>, which is exact below \<open>2 ^ 53\<close> pieces;
  symbolic links; the content of a file while it is copied into itself.
\<close>

section \<open>From the torrent file to the downloaded file\<close>

lemma demo_completed_run:
  "rtranclp tstep (demo_full, demo_scheduler\<lparr>unverified := []\<rparr>)
     (demo_full\<lparr>completed := ClosedChan\<rparr>, demo_scheduler\<lparr>unverified := [], running := False\<rparr>)"
  by (rule r_into_rtranclp, rule tstep.goes, rule gostep.download, rule dl_step.plan [where env = demo_env and freeSlots = 4])
    (simp_all add: demo_scheduler_def next_piece_def demo_full_def)

lemma demo_final_free:
  "Join [DownloadDir demo_full, str ''n''] \<notin> set (dirs (disk demo_full))"
proof -
  have "EncodeToString (Hash (mInfo demo)) \<noteq> []"
    using length_EncodeToString [of "Hash (mInfo demo)"] demo_hash_length by auto
  then have "saved_dir (str ''dl'') demo \<noteq> []" by (auto simp: saved_dir_def Clean_def str_def Let_def)
  moreover have "plain_elem (str ''n'')" by code_simp
  ultimately show ?thesis using Join_neq by (simp add: demo_full_def demo_disk_def del: Join.simps)
qed

section \<open>Properties\<close>

text \<open>
  C1. What the client leaves on disk is the torrent. Take any run of a single-file torrent, from opening
  it on in a directory that holds the pieces its saved bit field names, with any peers, any interleaving of downloads, uploads and reconnections, and any failures of
  network and disk on the way: once the channel \<^verbatim>\<open>completed\<close> is closed and the operating system lets
  the client create the file, \<^verbatim>\<open>WaitFor\<close> ends without an error and the file named in the torrent has
  the torrent's length and, piece by piece, its SHA-1 hashes; no other file changes.
\<close>

theorem downloaded_file_is_torrent:
  assumes "torrent_ok m" and "Hash (mInfo m) \<noteq> []" and "SingleFile (mInfo m) = Some sf"
    and "starts m ts0" and "rtranclp tstep ts0 (t, s)" and "completed t = ClosedChan"
    and "os_up env" and "plain_elem (sName sf)" and "\<forall>i. sName sf \<noteq> show_nat i @ str ''.bin''"
    and "Join [DownloadDir t, sName sf] \<notin> set (dirs (disk t))" and "dict_get ts tid = Some t"
  shows "\<exists>ts' t' d. WaitFor env (\<lambda>_. None) tid TorrentDownloaded ts = Some (Ok (ts', None))
    \<and> dict_get ts' tid = Some t' \<and> files (disk t') (Join [DownloadDir t, sName sf]) = Some d
    \<and> length d = total_size m
    \<and> (\<forall>i < num_pieces m. sha1 (take (piece_length m) (drop (i * piece_length m) d)) = hash_of m i)
    \<and> (\<forall>path. path \<noteq> Join [DownloadDir t, sName sf] \<longrightarrow> files (disk t') path = files (disk t) path)"
proof -
  have "dl_inv ts0" using reach_inv_for(1) [OF assms(1,4) rtranclp.rtrancl_refl] by (simp add: dl_inv_for_def)
  from tstep_reach [OF assms(5) this] have "rtranclp dstep ts0 (t, s)" ..
  from reach_complete [OF assms(1,4) this assms(6,2)] have t: "complete t" and m: "Torrent t = m" by simp_all
  from wait_for_single [OF t assms(7) _ assms(8-11)] assms(3) content_length [OF t] content_hashes [OF t] show ?thesis
    by (simp add: m dict_get_set del: Join.simps)
qed

theorem downloaded_file_is_torrent_witness:
  "\<exists>ts' t' d. WaitFor up_os (\<lambda>_. None) [] TorrentDownloaded [([], demo_full\<lparr>completed := ClosedChan\<rparr>)] = Some (Ok (ts', None))
    \<and> dict_get ts' [] = Some t' \<and> files (disk t') (Join [DownloadDir demo_full, str ''n'']) = Some d
    \<and> length d = 5 \<and> sha1 d = sha1 demo_content"
proof -
  let ?t = "demo_full\<lparr>completed := ClosedChan\<rparr>" and ?sf = "\<lparr>sName = str ''n'', sLength = 5, sMd5sum = None\<rparr>"
  have s: "SingleFile (mInfo demo) = Some ?sf" "Hash (mInfo demo) \<noteq> []"
    using demo_hash_length by (auto simp: demo_def sample_metainfo_def)
  have n: "plain_elem (sName ?sf)" by code_simp
  have b: "\<forall>i. sName ?sf \<noteq> show_nat i @ str ''.bin''"
  proof
    fix i
    have "length (str ''n'') < length (show_nat i @ str ''.bin'')" by (simp add: str_def)
    then show "sName ?sf \<noteq> show_nat i @ str ''.bin''" by auto
  qed
  have d: "completed ?t = ClosedChan" "Join [DownloadDir ?t, sName ?sf] \<notin> set (dirs (disk ?t))"
    "dict_get [([], ?t)] [] = Some ?t" using demo_final_free by (simp_all del: Join.simps)
  from downloaded_file_is_torrent [OF demo_ok s(2,1) demo_full_starts demo_completed_run d(1) os_up_up_os n b d(2,3)]
  obtain ts' t' d where w: "WaitFor up_os (\<lambda>_. None) [] TorrentDownloaded [([], ?t)] = Some (Ok (ts', None))"
    "dict_get ts' [] = Some t'" "files (disk t') (Join [DownloadDir demo_full, str ''n'']) = Some d" "length d = 5"
    "sha1 (take (piece_length demo) d) = hash_of demo 0"
    by (auto simp: demo_sizes simp del: Join.simps)
  have "piece_length demo = 16" by (simp add: demo_def sample_metainfo_def)
  with w demo_hash show ?thesis by auto
qed

end
